(* ===== verification/Prelude.thy ===== *)
theory Prelude
  imports Main "HOL-Library.Sublist" "HOL-Library.Multiset"
begin

text \<open>
  Shared vocabulary of the development: the lemma collections, and generic facts on lists and
  options that several components use. Go strings are byte strings; they are modelled as
  \<^typ>\<open>string\<close>, a list of \<^typ>\<open>char\<close>, each character being one byte.
\<close>

named_theorems go_strings \<open>characterisations of the Go string primitives\<close>
named_theorems go_defs \<open>definitions unfolded when a concrete input is evaluated\<close>

section \<open>Type synonyms\<close>

type_synonym condition_keys = "string \<Rightarrow> string option"

section \<open>Lists\<close>

lemma drop_Cons_nth: "i < length xs \<Longrightarrow> drop i xs = xs ! i # drop (Suc i) xs"
  by (simp add: Cons_nth_drop_Suc)

lemma take_drop_split: "i \<le> j \<Longrightarrow> drop i xs = take (j - i) (drop i xs) @ drop j xs"
  by (metis add_diff_inverse_nat append_take_drop_id drop_drop add.commute not_less)

lemma list_ex_iff_Bex: "list_ex P xs \<longleftrightarrow> (\<exists>x\<in>set xs. P x)"
  by (rule list_ex_iff)

lemma list_ex_mono:
  assumes "list_ex P xs" and "\<And>x. P x \<Longrightarrow> Q x"
  shows "list_ex Q xs"
  using assms by (auto simp: list_ex_iff)

lemma list_all_mset_cong: "mset xs = mset ys \<Longrightarrow> list_all P xs = list_all P ys"
  by (metis list_all_iff mset_eq_setD)

lemma list_ex_mset_cong: "mset xs = mset ys \<Longrightarrow> list_ex P xs = list_ex P ys"
  by (metis list_ex_iff mset_eq_setD)

end
