(* ===== verification/GoStrings.thy ===== *)
theory GoStrings
  imports Prelude "HOL-Library.Char_ord" "HOL-Library.List_Lexorder"
begin

text \<open>
  The functions of Go's \<^verbatim>\<open>strings\<close> and \<^verbatim>\<open>strconv\<close> packages that the modelled code calls, over
  byte strings. \<^verbatim>\<open>strings.Index\<close> returns \<open>None\<close> where Go returns -1. \<^verbatim>\<open>ToLower\<close> and
  \<^verbatim>\<open>EqualFold\<close> follow Go's ASCII path exactly; what they do from the first byte above 127 on
  depends on the Unicode tables, which are the parameter \<open>unicode\<close> below.
\<close>

section \<open>Bytes\<close>

definition byte :: "char \<Rightarrow> nat" where
  "byte c = of_char c"

definition is_ascii :: "char \<Rightarrow> bool" where
  "is_ascii c \<longleftrightarrow> byte c < 128"

definition is_digit :: "char \<Rightarrow> bool" where
  "is_digit c \<longleftrightarrow> 48 \<le> byte c \<and> byte c \<le> 57"

definition digit_val :: "char \<Rightarrow> nat" where
  "digit_val c = byte c - 48"

lemma byte_inject [simp]: "byte c = byte d \<longleftrightarrow> c = d"
  by (simp add: byte_def)

lemma byte_less_256: "byte c < 256"
  by (simp add: byte_def)

lemma digit_val_less: "is_digit c \<Longrightarrow> digit_val c < 10"
  unfolding is_digit_def digit_val_def by linarith

lemma digit_val_less_iff: "is_digit c \<Longrightarrow> is_digit d \<Longrightarrow> digit_val c < digit_val d \<longleftrightarrow> byte c < byte d"
  by (auto simp: is_digit_def digit_val_def)

lemma digit_val_inject: "is_digit c \<Longrightarrow> is_digit d \<Longrightarrow> digit_val c = digit_val d \<longleftrightarrow> c = d"
  by (metis byte_inject digit_val_less_iff less_irrefl linorder_neqE_nat)

section \<open>Prefixes, searching and cutting\<close>

fun has_prefix :: "string \<Rightarrow> string \<Rightarrow> bool" where
  "has_prefix s [] = True"
| "has_prefix [] (d # p) = False"
| "has_prefix (c # s) (d # p) = (c = d \<and> has_prefix s p)"

lemma has_prefix_iff [go_strings]: "has_prefix s p \<longleftrightarrow> prefix p s"
  by (induction s p rule: has_prefix.induct) auto

lemma has_prefix_append [simp]: "has_prefix (p @ s) p"
  by (simp add: has_prefix_iff)

lemma has_prefixE:
  assumes "has_prefix s p"
  obtains t where "s = p @ t"
  using assms by (auto simp: has_prefix_iff prefix_def)

text \<open>\<^verbatim>\<open>strings.Index\<close>, \<^verbatim>\<open>IndexByte\<close>, \<^verbatim>\<open>LastIndex\<close> of one byte, \<^verbatim>\<open>Contains\<close>, \<^verbatim>\<open>ContainsAny\<close>.\<close>

fun index_of :: "string \<Rightarrow> string \<Rightarrow> nat option" where
  "index_of [] sub = (if sub = [] then Some 0 else None)"
| "index_of (c # s) sub =
     (if has_prefix (c # s) sub then Some 0 else map_option Suc (index_of s sub))"

fun index_byte :: "string \<Rightarrow> char \<Rightarrow> nat option" where
  "index_byte [] b = None"
| "index_byte (c # s) b = (if c = b then Some 0 else map_option Suc (index_byte s b))"

definition contains :: "string \<Rightarrow> string \<Rightarrow> bool" where
  "contains s sub \<longleftrightarrow> index_of s sub \<noteq> None"

definition contains_any :: "string \<Rightarrow> string \<Rightarrow> bool" where
  "contains_any s chars \<longleftrightarrow> list_ex (\<lambda>c. c \<in> set chars) s"

text \<open>The text after the last occurrence of a byte: \<^verbatim>\<open>s[strings.LastIndex(s, sep)+1:]\<close>.\<close>

fun after_last :: "char \<Rightarrow> string \<Rightarrow> string" where
  "after_last b s = rev (takeWhile (\<lambda>c. c \<noteq> b) (rev s))"

lemma index_of_Some:
  "index_of s sub = Some i \<Longrightarrow> \<exists>t. s = take i s @ sub @ t \<and> i + length sub \<le> length s"
proof (induction s arbitrary: i)
  case Nil
  then show ?case by (auto split: if_splits)
next
  case (Cons c s)
  show ?case
  proof (cases "has_prefix (c # s) sub")
    case True
    then obtain t where "c # s = sub @ t" by (rule has_prefixE)
    moreover from this have "length (c # s) = length sub + length t"
      by (metis length_append)
    moreover have "i = 0" using True Cons.prems by simp
    ultimately show ?thesis by auto
  next
    case False
    with Cons.prems obtain j where j: "index_of s sub = Some j" "i = Suc j" by auto
    with Cons.IH show ?thesis by fastforce
  qed
qed

lemma index_of_bound: "index_of s sub = Some i \<Longrightarrow> i + length sub \<le> length s"
  using index_of_Some by blast

lemma index_of_split:
  assumes "index_of s sub = Some i"
  shows "s = take i s @ sub @ drop (i + length sub) s"
proof -
  from index_of_Some [OF assms] obtain t where t: "s = take i s @ sub @ t"
    and le: "i + length sub \<le> length s" by blast
  then have "drop (i + length sub) s = drop (i + length sub) ((take i s @ sub) @ t)" by simp
  also have "\<dots> = t" using le by (subst drop_append) simp
  finally show ?thesis using t by simp
qed

lemma index_byte_Some:
  "index_byte s b = Some i \<Longrightarrow> i < length s \<and> s ! i = b \<and> b \<notin> set (take i s)"
  by (induction s arbitrary: i) (auto split: if_splits)

lemma index_byte_None [go_strings]: "index_byte s b = None \<longleftrightarrow> b \<notin> set s"
  by (induction s) auto

lemma index_byte_split:
  "index_byte s b = Some i \<Longrightarrow> s = take i s @ b # drop (Suc i) s"
  using index_byte_Some [of s b i] by (metis id_take_nth_drop)

lemma index_byte_append:
  "b \<notin> set x \<Longrightarrow> index_byte (x @ b # y) b = Some (length x)"
  by (induction x) auto

lemma index_of_None_iff: "index_of s sub = None \<longleftrightarrow> \<not> sublist sub s"
proof (induction s)
  case Nil
  then show ?case by simp
next
  case (Cons c s)
  then show ?case by (auto simp: has_prefix_iff sublist_Cons_right)
qed

lemma contains_iff [go_strings]: "contains s sub \<longleftrightarrow> sublist sub s"
  by (auto simp: contains_def index_of_None_iff)

text \<open>\<^verbatim>\<open>strings.CutPrefix\<close>, \<^verbatim>\<open>CutSuffix\<close> and \<^verbatim>\<open>Cut\<close>.\<close>

definition cut_prefix :: "string \<Rightarrow> string \<Rightarrow> string \<times> bool" where
  "cut_prefix s p = (if has_prefix s p then (drop (length p) s, True) else (s, False))"

definition cut_suffix :: "string \<Rightarrow> string \<Rightarrow> string \<times> bool" where
  "cut_suffix s q =
     (if has_prefix (rev s) (rev q) then (take (length s - length q) s, True) else (s, False))"

definition cut :: "string \<Rightarrow> string \<Rightarrow> string \<times> string \<times> bool" where
  "cut s sep = (case index_of s sep of
      Some i \<Rightarrow> (take i s, drop (i + length sep) s, True)
    | None \<Rightarrow> (s, [], False))"

definition trim_prefix :: "string \<Rightarrow> string \<Rightarrow> string" where
  "trim_prefix s p = fst (cut_prefix s p)"

lemma cut_prefix_append [simp]: "cut_prefix (p @ s) p = (s, True)"
  by (simp add: cut_prefix_def)

lemma cut_suffix_append [simp]: "cut_suffix (s @ q) q = (s, True)"
  by (simp add: cut_suffix_def)

lemma cut_prefix_True: "cut_prefix s p = (t, True) \<longleftrightarrow> s = p @ t"
  by (auto simp: cut_prefix_def has_prefix_iff prefix_def split: if_splits)

lemma cut_suffix_True: "cut_suffix s q = (t, True) \<longleftrightarrow> s = t @ q"
proof
  assume "cut_suffix s q = (t, True)"
  then have p: "prefix (rev q) (rev s)" and t: "t = take (length s - length q) s"
    by (auto simp: cut_suffix_def has_prefix_iff split: if_splits)
  then have "suffix q s" by (simp add: suffix_to_prefix)
  then show "s = t @ q" using t by (auto simp: suffix_def)
qed simp

lemma cut_suffix_False: "cut_suffix s q = (t, False) \<Longrightarrow> t = s"
  by (auto simp: cut_suffix_def split: if_splits)

section \<open>Splitting, joining and replacing\<close>

text \<open>\<^verbatim>\<open>strings.Split\<close> and \<^verbatim>\<open>strings.SplitN\<close> on a one-byte separator; \<^verbatim>\<open>strings.Join\<close>.\<close>

fun split_byte :: "char \<Rightarrow> string \<Rightarrow> string list" where
  "split_byte b [] = [[]]"
| "split_byte b (c # s) =
     (if c = b then [] # split_byte b s
      else (case split_byte b s of [] \<Rightarrow> [[c]] | w # ws \<Rightarrow> (c # w) # ws))"

fun splitn_byte :: "nat \<Rightarrow> char \<Rightarrow> string \<Rightarrow> string list" where
  "splitn_byte 0 b s = []"
| "splitn_byte (Suc 0) b s = [s]"
| "splitn_byte (Suc (Suc n)) b s = (case index_byte s b of
      None \<Rightarrow> [s]
    | Some i \<Rightarrow> take i s # splitn_byte (Suc n) b (drop (Suc i) s))"

fun join :: "string \<Rightarrow> string list \<Rightarrow> string" where
  "join sep [] = []"
| "join sep [w] = w"
| "join sep (w # x # ws) = w @ sep @ join sep (x # ws)"

lemma split_byte_ne [simp]: "split_byte b s \<noteq> []"
  by (induction s) (auto split: list.splits)

lemma join_split_byte [simp]: "join [b] (split_byte b s) = s"
proof (induction s)
  case (Cons c s)
  then show ?case
    by (cases "split_byte b s"; cases "tl (split_byte b s)") auto
qed simp

lemma split_byte_no_sep: "\<forall>w\<in>set (split_byte b s). b \<notin> set w"
proof (induction s)
  case (Cons c s)
  then show ?case by (cases "split_byte b s") auto
qed simp

lemma split_byte_id: "b \<notin> set s \<Longrightarrow> split_byte b s = [s]"
  by (induction s) auto

lemma split_byte_append: "b \<notin> set x \<Longrightarrow> split_byte b (x @ b # y) = x # split_byte b y"
  by (induction x) auto

lemma split_byte_join:
  "ws \<noteq> [] \<Longrightarrow> \<forall>w\<in>set ws. b \<notin> set w \<Longrightarrow> split_byte b (join [b] ws) = ws"
proof (induction "[b]" ws rule: join.induct)
  case (2 w)
  then show ?case by (simp add: split_byte_id)
next
  case (3 w x ws)
  then show ?case by (simp add: split_byte_append)
qed simp

lemma splitn_byte_length: "length (splitn_byte n b s) \<le> n"
  by (induction n b s rule: splitn_byte.induct) (auto split: option.splits)

lemma splitn_byte_ne: "0 < n \<Longrightarrow> splitn_byte n b s \<noteq> []"
  by (induction n b s rule: splitn_byte.induct) (auto split: option.splits)

lemma join_Cons: "ws \<noteq> [] \<Longrightarrow> join sep (w # ws) = w @ sep @ join sep ws"
  by (cases ws) auto

lemma join_splitn_byte: "0 < n \<Longrightarrow> join [b] (splitn_byte n b s) = s"
proof (induction n b s rule: splitn_byte.induct)
  case (3 n b s)
  show ?case
  proof (cases "index_byte s b")
    case (Some i)
    with 3 show ?thesis
      by (simp add: join_Cons splitn_byte_ne index_byte_split [symmetric])
  qed simp
qed auto

lemma splitn_byte_head: "splitn_byte (Suc (Suc n)) b s = x # y # zs \<Longrightarrow> b \<notin> set x"
  by (auto split: option.splits dest: index_byte_Some)

text \<open>
  \<^verbatim>\<open>strings.ReplaceAll(s, old, new)\<close> for a non-empty \<open>old\<close>: leftmost, not overlapping.
\<close>

function replace_all :: "string \<Rightarrow> string \<Rightarrow> string \<Rightarrow> string" where
  "replace_all s old new =
     (if old = [] then s else case index_of s old of
        None \<Rightarrow> s
      | Some i \<Rightarrow> take i s @ new @ replace_all (drop (i + length old) s) old new)"
  by pat_completeness auto
termination
proof (relation "measure (\<lambda>(s, old, new). length s)", goal_cases)
  case (2 s old new i)
  then have "length old \<noteq> 0" "i + length old \<le> length s"
    by (auto dest: index_of_bound)
  then have "length s - (i + length old) < length s" by linarith
  then show ?case by simp
qed simp

declare replace_all.simps [simp del]

text \<open>The one-byte separators and replacements that the code uses, in list terms.\<close>

lemma index_of_byte: "index_of s [b] = index_byte s b"
  by (induction s) auto

lemma cut_byte_found: "b \<notin> set x \<Longrightarrow> cut (x @ b # y) [b] = (x, y, True)"
  by (simp add: cut_def index_of_byte index_byte_append)

lemma cut_byte_missing: "b \<notin> set s \<Longrightarrow> cut s [b] = (s, [], False)"
  using index_byte_None [of s b] by (simp add: cut_def index_of_byte)

lemma cut_byte_cases:
  assumes "cut s [b] = (x, y, found)"
  shows "b \<notin> set x \<and> (if found then s = x @ b # y else s = x \<and> y = [])"
proof (cases "index_byte s b")
  case None
  then show ?thesis using assms index_byte_None [of s b] by (auto simp: cut_def index_of_byte)
next
  case (Some i)
  then show ?thesis
    using assms index_byte_Some [OF Some] index_byte_split [OF Some]
    by (auto simp: cut_def index_of_byte)
qed

lemma replace_all_byte: "replace_all s [a] [b] = map (\<lambda>c. if c = a then b else c) s"
proof (induction "length s" arbitrary: s rule: less_induct)
  case less
  let ?r = "\<lambda>c. if c = a then b else c"
  have id: "a \<notin> set x \<Longrightarrow> map ?r x = x" for x
    by (induction x) auto
  show ?case
  proof (cases "index_byte s a")
    case None
    then show ?thesis
      using id index_byte_None [of s a] by (subst replace_all.simps) (simp add: index_of_byte)
  next
    case (Some i)
    have i: "i < length s" "a \<notin> set (take i s)" using index_byte_Some [OF Some] by auto
    have "s = take i s @ a # drop (Suc i) s" by (rule index_byte_split [OF Some])
    then have "map ?r s = map ?r (take i s @ a # drop (Suc i) s)" by (rule arg_cong)
    also have "\<dots> = take i s @ b # map ?r (drop (Suc i) s)"
      unfolding map_append id [OF i(2)] by simp
    finally have "map ?r s = take i s @ b # map ?r (drop (Suc i) s)" .
    moreover have "replace_all (drop (Suc i) s) [a] [b] = map ?r (drop (Suc i) s)"
      using i by (intro less.hyps) simp
    ultimately show ?thesis
      using Some by (subst replace_all.simps) (simp add: index_of_byte)
  qed
qed

text \<open>\<^verbatim>\<open>strings.TrimLeft\<close> and \<^verbatim>\<open>TrimRight\<close> with a one-byte cutset.\<close>

definition trim_left :: "string \<Rightarrow> char \<Rightarrow> string" where
  "trim_left s b = dropWhile (\<lambda>c. c = b) s"

definition trim_right :: "string \<Rightarrow> char \<Rightarrow> string" where
  "trim_right s b = rev (dropWhile (\<lambda>c. c = b) (rev s))"

section \<open>Case folding\<close>

text \<open>
  What Go does on a string with a byte above 127: \<^verbatim>\<open>strings.Map(unicode.ToLower, s)\<close>, and the
  rune-by-rune tail of \<^verbatim>\<open>strings.EqualFold\<close> that starts at the first such byte.
\<close>

record unicode =
  lower_runes :: "string \<Rightarrow> string"
  fold_runes :: "string \<Rightarrow> string \<Rightarrow> bool"

definition ascii_lower :: "char \<Rightarrow> char" where
  "ascii_lower c = (if 65 \<le> byte c \<and> byte c \<le> 90 then char_of (byte c + 32) else c)"

definition to_lower :: "unicode \<Rightarrow> string \<Rightarrow> string" where
  "to_lower U s = (if list_all is_ascii s then map ascii_lower s else lower_runes U s)"

fun equal_fold :: "unicode \<Rightarrow> string \<Rightarrow> string \<Rightarrow> bool" where
  "equal_fold U [] t = (t = [])"
| "equal_fold U s [] = (s = [])"
| "equal_fold U (c # s) (d # t) =
     (if \<not> is_ascii c \<or> \<not> is_ascii d then fold_runes U (c # s) (d # t)
      else ascii_lower c = ascii_lower d \<and> equal_fold U s t)"

lemma byte_char_of: "n < 256 \<Longrightarrow> byte (char_of n) = n"
  by (simp add: byte_def)

lemma ascii_lower_idem [simp]: "ascii_lower (ascii_lower c) = ascii_lower c"
  by (auto simp: ascii_lower_def byte_char_of)

lemma is_ascii_lower [simp]: "is_ascii (ascii_lower c) = is_ascii c"
  by (auto simp: ascii_lower_def is_ascii_def byte_char_of)

lemma to_lower_ascii: "list_all is_ascii s \<Longrightarrow> to_lower U s = map ascii_lower s"
  by (simp add: to_lower_def)

lemma to_lower_idem: "list_all is_ascii s \<Longrightarrow> to_lower U (to_lower U s) = to_lower U s"
  by (simp add: to_lower_def list_all_iff comp_def)

lemma equal_fold_ascii:
  "list_all is_ascii s \<Longrightarrow> list_all is_ascii t \<Longrightarrow>
   equal_fold U s t \<longleftrightarrow> map ascii_lower s = map ascii_lower t"
  by (induction U s t rule: equal_fold.induct) auto

section \<open>Ordering and decimal numerals\<close>

text \<open>\<^verbatim>\<open>strings.Compare\<close>: lexicographic on bytes.\<close>

fun compare_bytes :: "string \<Rightarrow> string \<Rightarrow> int" where
  "compare_bytes [] [] = 0"
| "compare_bytes [] (d # t) = -1"
| "compare_bytes (c # s) [] = 1"
| "compare_bytes (c # s) (d # t) =
     (if byte c < byte d then -1 else if byte d < byte c then 1 else compare_bytes s t)"

lemma compare_bytes_eq0 [simp]: "compare_bytes s t = 0 \<longleftrightarrow> s = t"
  by (induction s t rule: compare_bytes.induct) (auto simp: not_less dest: antisym)

lemma compare_bytes_antisym: "compare_bytes t s = - compare_bytes s t"
  by (induction s t rule: compare_bytes.induct) auto

text \<open>The value of a run of digits, and \<^verbatim>\<open>strconv.ParseInt(s, 10, bits)\<close>.\<close>

definition digits_nat :: "string \<Rightarrow> nat" where
  "digits_nat s = foldl (\<lambda>n c. 10 * n + digit_val c) 0 s"

definition parse_int :: "nat \<Rightarrow> string \<Rightarrow> int option" where
  "parse_int bits s =
     (let neg = (s \<noteq> [] \<and> hd s = CHR ''-'');
          body = (if s \<noteq> [] \<and> (hd s = CHR ''+'' \<or> hd s = CHR ''-'') then tl s else s)
      in if body = [] \<or> \<not> list_all is_digit body then None
         else let v = (if neg then - int (digits_nat body) else int (digits_nat body))
              in if - (2 ^ (bits - 1)) \<le> v \<and> v < 2 ^ (bits - 1) then Some v else None)"

lemma digits_nat_foldl:
  "foldl (\<lambda>n c. 10 * n + digit_val c) k s = k * 10 ^ length s + digits_nat s"
proof (induction s arbitrary: k)
  case (Cons c s)
  have "digits_nat (c # s) = digit_val c * 10 ^ length s + digits_nat s"
    using Cons [of "digit_val c"] by (simp add: digits_nat_def)
  then show ?case using Cons [of "10 * k + digit_val c"] by (simp add: algebra_simps)
qed (simp add: digits_nat_def)

lemma digits_nat_Nil [simp]: "digits_nat [] = 0"
  by (simp add: digits_nat_def)

lemma digits_nat_Cons: "digits_nat (c # s) = digit_val c * 10 ^ length s + digits_nat s"
  using digits_nat_foldl [of "digit_val c" s] by (simp add: digits_nat_def)

lemma digits_nat_append: "digits_nat (s @ t) = digits_nat s * 10 ^ length t + digits_nat t"
  using digits_nat_foldl [of "digits_nat s" t] by (simp add: digits_nat_def)

lemma parse_int_range:
  "parse_int bits s = Some v \<Longrightarrow> - (2 ^ (bits - 1)) \<le> v \<and> v < 2 ^ (bits - 1)"
  by (auto simp: parse_int_def Let_def split: if_splits)

text \<open>Printing: \<^verbatim>\<open>strconv.FormatInt(v, 10)\<close>.\<close>

definition digit_char :: "nat \<Rightarrow> char" where
  "digit_char n = char_of (48 + n)"

fun nat_string :: "nat \<Rightarrow> string" where
  "nat_string n = (if n < 10 then [digit_char n] else nat_string (n div 10) @ [digit_char (n mod 10)])"

declare nat_string.simps [simp del]

definition format_int :: "int \<Rightarrow> string" where
  "format_int v = (if v < 0 then CHR ''-'' # nat_string (nat (- v)) else nat_string (nat v))"

lemma digit_char_digit: "n < 10 \<Longrightarrow> is_digit (digit_char n) \<and> digit_val (digit_char n) = n"
  by (simp add: digit_char_def is_digit_def digit_val_def byte_char_of)

lemma nat_string_spec: "nat_string n \<noteq> [] \<and> list_all is_digit (nat_string n) \<and> digits_nat (nat_string n) = n"
proof (induction n rule: nat_string.induct)
  case (1 n)
  show ?case
  proof (cases "n < 10")
    case True
    then show ?thesis using digit_char_digit [of n] by (subst (1 2 3) nat_string.simps) (simp add: digits_nat_Cons)
  next
    case False
    then show ?thesis
      using 1 digit_char_digit [of "n mod 10"]
      by (subst (1 2 3) nat_string.simps) (simp add: digits_nat_append digits_nat_Cons)
  qed
qed

lemma sign_not_digit: "is_digit c \<Longrightarrow> c \<noteq> CHR ''-'' \<and> c \<noteq> CHR ''+''"
  by (auto simp: is_digit_def byte_def)

lemma parse_int_digits:
  "ds \<noteq> [] \<Longrightarrow> list_all is_digit ds \<Longrightarrow> int (digits_nat ds) < 2 ^ (bits - 1) \<Longrightarrow>
   parse_int bits ds = Some (int (digits_nat ds))"
proof -
  assume ds: "ds \<noteq> []" "list_all is_digit ds" "int (digits_nat ds) < 2 ^ (bits - 1)"
  have "- (2 ^ (bits - 1)) \<le> (0 :: int)" by simp
  also have "0 \<le> int (digits_nat ds)" by simp
  finally have "- (2 ^ (bits - 1)) \<le> int (digits_nat ds)" .
  moreover have "hd ds \<noteq> CHR ''-'' \<and> hd ds \<noteq> CHR ''+''"
    using ds sign_not_digit [of "hd ds"] by (cases ds) auto
  ultimately show ?thesis using ds by (simp add: parse_int_def Let_def)
qed

lemma parse_format_int:
  assumes "- (2 ^ (bits - 1)) \<le> v" and "v < 2 ^ (bits - 1)"
  shows "parse_int bits (format_int v) = Some v"
proof (cases "v < 0")
  case True
  then show ?thesis using nat_string_spec [of "nat (- v)"] assms
    by (simp add: format_int_def parse_int_def Let_def)
next
  case False
  then show ?thesis using nat_string_spec [of "nat v"] assms parse_int_digits [of "nat_string (nat v)" bits]
    by (simp add: format_int_def)
qed

lemma parse_int_format:
  "parse_int bits (format_int v) = (if - (2 ^ (bits - 1)) \<le> v \<and> v < 2 ^ (bits - 1) then Some v else None)"
proof (cases "v < 0")
  case True
  then show ?thesis using nat_string_spec [of "nat (- v)"]
    by (simp add: format_int_def parse_int_def Let_def)
next
  case False
  obtain c s where s: "nat_string (nat v) = c # s"
    using nat_string_spec [of "nat v"] by (cases "nat_string (nat v)") auto
  then have "c \<noteq> CHR ''-'' \<and> c \<noteq> CHR ''+''"
    using nat_string_spec [of "nat v"] sign_not_digit [of c] by simp
  then show ?thesis using False s nat_string_spec [of "nat v"]
    by (simp add: format_int_def parse_int_def Let_def)
qed

lemma splitn_byte_Cons:
  "b \<notin> set x \<Longrightarrow> splitn_byte (Suc (Suc n)) b (x @ b # y) = x # splitn_byte (Suc n) b y"
proof -
  assume "b \<notin> set x"
  then have "index_byte (x @ b # y) b = Some (length x)" by (induction x) auto
  then show ?thesis by simp
qed

lemma splitn_byte_full:
  "length (splitn_byte n b s) = n \<Longrightarrow> \<forall>w\<in>set (butlast (splitn_byte n b s)). b \<notin> set w"
proof (induction n b s rule: splitn_byte.induct)
  case (3 n b s)
  then show ?case
    using splitn_byte_ne [of "Suc n" b] by (auto split: option.splits dest: index_byte_Some)
qed auto

lemma splitn_byte_6:
  assumes "b \<notin> set v1" and "b \<notin> set v2" and "b \<notin> set v3" and "b \<notin> set v4" and "b \<notin> set v5"
  shows "splitn_byte 6 b (v1 @ b # v2 @ b # v3 @ b # v4 @ b # v5 @ b # v6) = [v1, v2, v3, v4, v5, v6]"
proof -
  have "(6 :: nat) = Suc (Suc (Suc (Suc (Suc (Suc 0)))))" by simp
  then show ?thesis using assms
    by (simp only: splitn_byte_Cons splitn_byte.simps(2) not_False_eq_True)
qed

end
