(* ===== verification/PolicyTypes.thy ===== *)
theory PolicyTypes
  imports GoStrings
begin

text \<open>
  The policy-document types of \<^verbatim>\<open>pkg/iampolicy/types.go\<close> and the named constants of
  \<^verbatim>\<open>types.go\<close>, \<^verbatim>\<open>conditions.go\<close> and \<^verbatim>\<open>variables.go\<close>. A Go slice is a list (nil and empty slices
  have the same length and the same elements; the one place that tells them apart, JSON encoding,
  is modelled in PolicyJson). A Go map is an association list: its order is the
  order in which the runtime happens to iterate the map, and the Evaluator theory proves that no
  decision depends on it.
\<close>

section \<open>Effects, versions and documents\<close>

definition EffectAllow :: string where "EffectAllow = ''Allow''"
definition EffectDeny :: string where "EffectDeny = ''Deny''"

definition Version2012 :: string where "Version2012 = ''2012-10-17''"
definition Version2008 :: string where "Version2008 = ''2008-10-17''"

type_synonym condition_block = "(string \<times> (string \<times> string list) list) list"

record statement =
  Sid :: string
  Effect :: string
  Action :: "string list"
  Resource :: "string list"
  Condition :: condition_block
  NotAction :: "string list"
  NotResource :: "string list"
  Principal :: string

record policy_document =
  Version :: string
  Statement :: "statement list"

section \<open>Condition keys\<close>

definition KeySourceIP :: string where "KeySourceIP = ''aws:SourceIp''"
definition KeyS3Prefix :: string where "KeyS3Prefix = ''s3:prefix''"
definition KeyS3MaxKeys :: string where "KeyS3MaxKeys = ''s3:max-keys''"
definition KeySecureTransport :: string where "KeySecureTransport = ''aws:SecureTransport''"
definition KeyUsername :: string where "KeyUsername = ''aws:username''"
definition KeyPrincipalAccount :: string where "KeyPrincipalAccount = ''aws:PrincipalAccount''"
definition KeyUserID :: string where "KeyUserID = ''aws:userid''"
definition KeyPrincipalType :: string where "KeyPrincipalType = ''aws:PrincipalType''"
definition KeyPassedToService :: string where "KeyPassedToService = ''iam:PassedToService''"
definition KeyCurrentTime :: string where "KeyCurrentTime = ''aws:CurrentTime''"
definition KeyEpochTime :: string where "KeyEpochTime = ''aws:EpochTime''"

lemmas key_defs = KeySourceIP_def KeyS3Prefix_def KeyS3MaxKeys_def KeySecureTransport_def
  KeyUsername_def KeyPrincipalAccount_def KeyUserID_def KeyPrincipalType_def
  KeyPassedToService_def KeyCurrentTime_def KeyEpochTime_def

section \<open>Condition operators\<close>

definition OpStringEquals :: string where "OpStringEquals = ''StringEquals''"
definition OpStringNotEquals :: string where "OpStringNotEquals = ''StringNotEquals''"
definition OpStringEqualsIgnoreCase :: string where
  "OpStringEqualsIgnoreCase = ''StringEqualsIgnoreCase''"
definition OpStringNotEqualsIgnoreCase :: string where
  "OpStringNotEqualsIgnoreCase = ''StringNotEqualsIgnoreCase''"
definition OpStringLike :: string where "OpStringLike = ''StringLike''"
definition OpStringNotLike :: string where "OpStringNotLike = ''StringNotLike''"
definition OpIPAddress :: string where "OpIPAddress = ''IpAddress''"
definition OpNotIPAddress :: string where "OpNotIPAddress = ''NotIpAddress''"
definition OpBool :: string where "OpBool = ''Bool''"
definition OpArnEquals :: string where "OpArnEquals = ''ArnEquals''"
definition OpArnLike :: string where "OpArnLike = ''ArnLike''"
definition OpArnNotEquals :: string where "OpArnNotEquals = ''ArnNotEquals''"
definition OpArnNotLike :: string where "OpArnNotLike = ''ArnNotLike''"
definition OpNull :: string where "OpNull = ''Null''"
definition OpDateEquals :: string where "OpDateEquals = ''DateEquals''"
definition OpDateNotEquals :: string where "OpDateNotEquals = ''DateNotEquals''"
definition OpDateLessThan :: string where "OpDateLessThan = ''DateLessThan''"
definition OpDateLessThanEquals :: string where "OpDateLessThanEquals = ''DateLessThanEquals''"
definition OpDateGreaterThan :: string where "OpDateGreaterThan = ''DateGreaterThan''"
definition OpDateGreaterThanEquals :: string where
  "OpDateGreaterThanEquals = ''DateGreaterThanEquals''"
definition OpNumericEquals :: string where "OpNumericEquals = ''NumericEquals''"
definition OpNumericNotEquals :: string where "OpNumericNotEquals = ''NumericNotEquals''"
definition OpNumericLessThan :: string where "OpNumericLessThan = ''NumericLessThan''"
definition OpNumericLessThanEquals :: string where
  "OpNumericLessThanEquals = ''NumericLessThanEquals''"
definition OpNumericGreaterThan :: string where "OpNumericGreaterThan = ''NumericGreaterThan''"
definition OpNumericGreaterThanEquals :: string where
  "OpNumericGreaterThanEquals = ''NumericGreaterThanEquals''"

definition IfExistsSuffix :: string where "IfExistsSuffix = ''IfExists''"

lemmas op_defs = OpStringEquals_def OpStringNotEquals_def OpStringEqualsIgnoreCase_def
  OpStringNotEqualsIgnoreCase_def OpStringLike_def OpStringNotLike_def OpIPAddress_def
  OpNotIPAddress_def OpBool_def OpArnEquals_def OpArnLike_def OpArnNotEquals_def
  OpArnNotLike_def OpNull_def OpDateEquals_def OpDateNotEquals_def OpDateLessThan_def
  OpDateLessThanEquals_def OpDateGreaterThan_def OpDateGreaterThanEquals_def
  OpNumericEquals_def OpNumericNotEquals_def OpNumericLessThan_def
  OpNumericLessThanEquals_def OpNumericGreaterThan_def OpNumericGreaterThanEquals_def

section \<open>The constants are distinct\<close>

lemma ops_distinct: "distinct
   [OpStringEquals, OpStringNotEquals, OpStringEqualsIgnoreCase, OpStringNotEqualsIgnoreCase, 
    OpStringLike, OpStringNotLike, OpIPAddress, OpNotIPAddress, OpBool, OpArnEquals, OpArnLike, 
    OpArnNotEquals, OpArnNotLike, OpNull, OpDateEquals, OpDateNotEquals, OpDateLessThan, 
    OpDateLessThanEquals, OpDateGreaterThan, OpDateGreaterThanEquals, OpNumericEquals, 
    OpNumericNotEquals, OpNumericLessThan, OpNumericLessThanEquals, OpNumericGreaterThan, 
    OpNumericGreaterThanEquals]"
  by code_simp

lemma ops_distinct_rev: "distinct
   [OpNumericGreaterThanEquals, OpNumericGreaterThan, OpNumericLessThanEquals, 
    OpNumericLessThan, OpNumericNotEquals, OpNumericEquals, OpDateGreaterThanEquals, 
    OpDateGreaterThan, OpDateLessThanEquals, OpDateLessThan, OpDateNotEquals, OpDateEquals, 
    OpNull, OpArnNotLike, OpArnNotEquals, OpArnLike, OpArnEquals, OpBool, OpNotIPAddress, 
    OpIPAddress, OpStringNotLike, OpStringLike, OpStringNotEqualsIgnoreCase, 
    OpStringEqualsIgnoreCase, OpStringNotEquals, OpStringEquals]"
  by code_simp

lemma keys_distinct: "distinct
   [KeySourceIP, KeyS3Prefix, KeyS3MaxKeys, KeySecureTransport, KeyUsername, 
    KeyPrincipalAccount, KeyUserID, KeyPrincipalType, KeyPassedToService, KeyCurrentTime, 
    KeyEpochTime]"
  by code_simp

lemma keys_distinct_rev: "distinct
   [KeyEpochTime, KeyCurrentTime, KeyPassedToService, KeyPrincipalType, KeyUserID, 
    KeyPrincipalAccount, KeyUsername, KeySecureTransport, KeyS3MaxKeys, KeyS3Prefix, 
    KeySourceIP]"
  by code_simp

text \<open>Each pair in both orders, as rewrite rules.\<close>

lemmas op_neq = ops_distinct [simplified] ops_distinct_rev [simplified]
lemmas key_neq = keys_distinct [simplified] keys_distinct_rev [simplified]

end
