(* ===== verification/Glob.thy ===== *)
theory Glob
  imports GoStrings
begin

text \<open>
  The wildcard matcher of \<^verbatim>\<open>pkg/iampolicy/match.go\<close>: \<open>token\<close>, the greedy scan \<open>matchGlob\<close>
  with its single backtrack point, and \<open>MatchWildcard\<close>. The reference is a recursive matcher on
  decoded pattern elements, \<open>globs\<close>; the last section proves the scan equivalent to it.
\<close>

section \<open>The code\<close>

text \<open>The zero byte that \<open>token\<close> returns on an exhausted pattern, and the backslash.\<close>

definition NUL :: char where "NUL = CHR 0x00"
definition backslash :: char where "backslash = CHR 0x5C"

definition token :: "string \<Rightarrow> nat \<Rightarrow> bool \<Rightarrow> char \<times> bool \<times> nat" where
  "token pattern p escapes =
     (if length pattern \<le> p then (NUL, False, 0)
      else if escapes \<and> pattern ! p = backslash \<and> p + 1 < length pattern
        then (pattern ! (p + 1), False, 2)
      else let c = pattern ! p in (c, c = CHR ''*'' \<or> c = CHR ''?'', 1))"

lemma token_width: "token pattern p escapes = (b, meta, w) \<Longrightarrow> w > 0 \<Longrightarrow> p < length pattern"
  by (auto simp: token_def Let_def split: if_splits)

lemma token_meta: "token pattern p escapes = (b, True, w) \<Longrightarrow> w = 1 \<and> p < length pattern"
  by (auto simp: token_def Let_def split: if_splits)

text \<open>
  The main loop of \<^verbatim>\<open>matchGlob\<close>. \<open>None\<close> is the loop's \<^verbatim>\<open>return false\<close>; \<open>Some p\<close> leaves the
  loop with the value exhausted and the pattern read up to \<open>p\<close>. The variable \<open>star\<close> is -1 in Go
  until the first star is met, and \<open>None\<close> here.
\<close>

function glob_scan ::
  "string \<Rightarrow> string \<Rightarrow> bool \<Rightarrow> nat \<Rightarrow> nat \<Rightarrow> nat option \<Rightarrow> nat \<Rightarrow> nat option" where
  "glob_scan pattern value escapes p v star starV =
     (if v < length value then
        (case token pattern p escapes of (b, meta, width) \<Rightarrow>
          if meta \<and> b = CHR ''*'' then
            glob_scan pattern value escapes (p + width) v (Some p) v
          else if width > 0 \<and> (meta \<or> b = value ! v) then
            glob_scan pattern value escapes (p + width) (v + 1) star starV
          else (case star of
              Some st \<Rightarrow> glob_scan pattern value escapes (st + 1) (starV + 1) star (starV + 1)
            | None \<Rightarrow> None))
      else Some p)"
  by pat_completeness auto

termination
proof (relation "measures [\<lambda>(pattern, value, escapes, p, v, star, starV). if starV \<le> v then 0 else 1,
    \<lambda>(pattern, value, escapes, p, v, star, starV).
      (length value - starV) + (if v < length value then 1 else 0),
    \<lambda>(pattern, value, escapes, p, v, star, starV). length pattern - p]", goal_cases)
  case 1
  then show ?case by simp
next
  case 2
  then show ?case by (auto dest!: token_meta [OF sym])
next
  case 3
  then show ?case by (auto dest!: token_width [OF sym])
next
  case 4
  then show ?case by auto
qed

declare glob_scan.simps [simp del]

text \<open>The trailing loop of \<^verbatim>\<open>matchGlob\<close>: skip the stars left in the pattern.\<close>

function glob_stars :: "string \<Rightarrow> bool \<Rightarrow> nat \<Rightarrow> nat" where
  "glob_stars pattern escapes p =
     (case token pattern p escapes of (b, meta, width) \<Rightarrow>
        if \<not> meta \<or> b \<noteq> CHR ''*'' then p else glob_stars pattern escapes (p + width))"
  by pat_completeness auto
termination
  by (relation "measure (\<lambda>(pattern, escapes, p). length pattern - p)")
    (auto dest!: token_meta [OF sym])

declare glob_stars.simps [simp del]

definition matchGlob :: "string \<Rightarrow> string \<Rightarrow> bool \<Rightarrow> bool" where
  "matchGlob pattern value escapes =
     (case glob_scan pattern value escapes 0 0 None 0 of
        None \<Rightarrow> False
      | Some p \<Rightarrow> glob_stars pattern escapes p = length pattern)"

definition MatchWildcard :: "string \<Rightarrow> string \<Rightarrow> bool" where
  "MatchWildcard pattern value =
     (if pattern = ''*'' then True
      else if \<not> contains_any pattern ''*?'' then pattern = value
      else matchGlob pattern value False)"

section \<open>The reference matcher\<close>

datatype glob_elem = Star | Any | Lit char

fun elem_of :: "char \<Rightarrow> bool \<Rightarrow> glob_elem" where
  "elem_of c meta = (if meta then (if c = CHR ''*'' then Star else Any) else Lit c)"

fun elems :: "bool \<Rightarrow> string \<Rightarrow> glob_elem list" where
  "elems escapes [] = []"
| "elems escapes (c # s) =
     (if escapes \<and> c = backslash \<and> s \<noteq> [] then Lit (hd s) # elems escapes (tl s)
      else elem_of c (c = CHR ''*'' \<or> c = CHR ''?'') # elems escapes s)"

fun globs :: "glob_elem list \<Rightarrow> string \<Rightarrow> bool" where
  "globs [] s = (s = [])"
| "globs (Star # es) [] = globs es []"
| "globs (Star # es) (c # s) = (globs es (c # s) \<or> globs (Star # es) s)"
| "globs (Any # es) [] = False"
| "globs (Any # es) (c # s) = globs es s"
| "globs (Lit d # es) [] = False"
| "globs (Lit d # es) (c # s) = (c = d \<and> globs es s)"

text \<open>An element that consumes exactly one byte, and a run of them.\<close>

fun elem_matches :: "glob_elem \<Rightarrow> char \<Rightarrow> bool" where
  "elem_matches Star c = False"
| "elem_matches Any c = True"
| "elem_matches (Lit d) c = (c = d)"

definition star_free :: "glob_elem list \<Rightarrow> bool" where
  "star_free es \<longleftrightarrow> Star \<notin> set es"

abbreviation segment :: "glob_elem list \<Rightarrow> string \<Rightarrow> bool" where
  "segment \<equiv> list_all2 elem_matches"

lemma segment_star_free: "segment es s \<Longrightarrow> star_free es"
  unfolding star_free_def by (induction es s rule: list_all2_induct) auto

lemma globs_Star_iff: "globs (Star # es) s \<longleftrightarrow> (\<exists>k\<le>length s. globs es (drop k s))"
proof (induction s)
  case (Cons c s)
  have "(\<exists>k\<le>length (c # s). globs es (drop k (c # s))) \<longleftrightarrow>
      globs es (c # s) \<or> (\<exists>k\<le>length s. globs es (drop k s))"
    by (metis Suc_le_mono drop_0 drop_Suc_Cons length_Cons not0_implies_Suc zero_le)
  with Cons show ?case by simp
qed simp

lemma globs_non_Star:
  "e \<noteq> Star \<Longrightarrow> globs (e # es) s \<longleftrightarrow> (\<exists>c t. s = c # t \<and> elem_matches e c \<and> globs es t)"
  by (cases e; cases s) auto

lemma globs_star_free_append:
  "star_free es \<Longrightarrow>
   globs (es @ fs) s \<longleftrightarrow> (\<exists>x y. s = x @ y \<and> segment es x \<and> globs fs y)"
proof (induction es arbitrary: s)
  case (Cons e es)
  then have e: "e \<noteq> Star" and es: "star_free es" by (auto simp: star_free_def)
  have "globs ((e # es) @ fs) s \<longleftrightarrow>
      (\<exists>c t. s = c # t \<and> elem_matches e c \<and> (\<exists>x y. t = x @ y \<and> segment es x \<and> globs fs y))"
    using globs_non_Star [OF e] Cons.IH [OF es] by simp
  also have "\<dots> \<longleftrightarrow> (\<exists>c x y. s = (c # x) @ y \<and> segment (e # es) (c # x) \<and> globs fs y)"
    by auto
  also have "\<dots> \<longleftrightarrow> (\<exists>x y. s = x @ y \<and> segment (e # es) x \<and> globs fs y)"
    by (metis list_all2_Cons1)
  finally show ?case .
qed simp

lemma globs_Nil_iff: "globs es [] \<longleftrightarrow> (\<forall>e\<in>set es. e = Star)"
proof (induction es)
  case (Cons e es)
  then show ?case by (cases e) auto
qed simp

lemma globs_Lit_iff: "globs (Lit d # es) s \<longleftrightarrow> (\<exists>t. s = d # t \<and> globs es t)"
  by (cases s) auto

lemma globs_lits_append: "globs (map Lit w @ es) s \<longleftrightarrow> (\<exists>t. s = w @ t \<and> globs es t)"
  by (induction w arbitrary: s) (auto simp: globs_Lit_iff)

lemma globs_lits: "globs (map Lit w) s \<longleftrightarrow> s = w"
  using globs_lits_append [of w "[]" s] by auto

lemma globs_append:
  "globs (es @ fs) s \<longleftrightarrow> (\<exists>x y. s = x @ y \<and> globs es x \<and> globs fs y)"
proof (induction es s rule: globs.induct)
  case (3 es c s)
  have "globs ((Star # es) @ fs) (c # s) \<longleftrightarrow>
      (\<exists>x y. c # s = x @ y \<and> globs es x \<and> globs fs y) \<or>
      (\<exists>x y. s = x @ y \<and> globs (Star # es) x \<and> globs fs y)"
    using 3 by simp
  also have "\<dots> \<longleftrightarrow> (\<exists>x y. c # s = x @ y \<and> globs (Star # es) x \<and> globs fs y)"
  proof
    assume "(\<exists>x y. c # s = x @ y \<and> globs es x \<and> globs fs y) \<or>
      (\<exists>x y. s = x @ y \<and> globs (Star # es) x \<and> globs fs y)"
    moreover have "globs es x \<Longrightarrow> globs (Star # es) x" for x by (cases x) auto
    moreover have "globs (Star # es) x \<Longrightarrow> globs (Star # es) (c # x)" for x by simp
    ultimately show "\<exists>x y. c # s = x @ y \<and> globs (Star # es) x \<and> globs fs y"
      by (metis append_Cons)
  next
    assume "\<exists>x y. c # s = x @ y \<and> globs (Star # es) x \<and> globs fs y"
    then obtain x y where xy: "c # s = x @ y" "globs (Star # es) x" "globs fs y" by blast
    then show "(\<exists>x y. c # s = x @ y \<and> globs es x \<and> globs fs y) \<or>
      (\<exists>x y. s = x @ y \<and> globs (Star # es) x \<and> globs fs y)"
    proof (cases x)
      case Nil
      then show ?thesis using xy by force
    next
      case (Cons d x')
      then show ?thesis using xy by auto
    qed
  qed
  finally show ?case .
next
  case (5 es c s)
  have "(\<exists>x y. c # s = x @ y \<and> globs (Any # es) x \<and> globs fs y) \<longleftrightarrow>
      (\<exists>x y. s = x @ y \<and> globs es x \<and> globs fs y)"
    by (rule iffI) (force simp: Cons_eq_append_conv, metis append_Cons globs.simps(5))
  then show ?case using 5 by simp
next
  case (7 d es c s)
  have "(\<exists>x y. c # s = x @ y \<and> globs (Lit d # es) x \<and> globs fs y) \<longleftrightarrow>
      c = d \<and> (\<exists>x y. s = x @ y \<and> globs es x \<and> globs fs y)"
    by (rule iffI) (force simp: Cons_eq_append_conv, metis append_Cons globs.simps(7))
  then show ?case using 7 by simp
qed auto

section \<open>Correctness of the scan\<close>

lemma token_exhausted:
  "length pattern \<le> p \<Longrightarrow> token pattern p escapes = (NUL, False, 0)"
  by (simp add: token_def)

lemma token_elems:
  assumes "token pattern p escapes = (b, meta, w)" and "w > 0"
  shows "elems escapes (drop p pattern) = elem_of b meta # elems escapes (drop (p + w) pattern)"
proof -
  from assms have p: "p < length pattern" by (rule token_width)
  then have d: "drop p pattern = pattern ! p # drop (Suc p) pattern" by (rule drop_Cons_nth)
  show ?thesis
  proof (cases "escapes \<and> pattern ! p = backslash \<and> p + 1 < length pattern")
    case True
    then have "drop (Suc p) pattern = pattern ! (p + 1) # drop (p + 2) pattern"
      by (simp add: drop_Cons_nth)
    then show ?thesis using True assms p d by (auto simp: token_def)
  next
    case False
    then have plain: "\<not> (escapes \<and> pattern ! p = backslash \<and> drop (Suc p) pattern \<noteq> [])"
      unfolding drop_eq_Nil by auto
    from False assms p have "b = pattern ! p"
      "meta = (b = CHR ''*'' \<or> b = CHR ''?'')" "w = 1"
      by (auto simp: token_def Let_def)
    then show ?thesis unfolding d elems.simps if_not_P [OF plain] by simp
  qed
qed

lemma token_width0:
  "token pattern p escapes = (b, meta, w) \<Longrightarrow> w = 0 \<Longrightarrow> \<not> meta \<and> elems escapes (drop p pattern) = []"
  by (auto simp: token_def Let_def split: if_splits)

text \<open>
  The position after a star was met: the text between the star and the current pattern position is
  a star-free segment that matches the value from \<open>starV\<close> up to \<open>v\<close>.
\<close>

definition scan_inv ::
  "string \<Rightarrow> string \<Rightarrow> bool \<Rightarrow> nat \<Rightarrow> nat \<Rightarrow> nat option \<Rightarrow> nat \<Rightarrow> bool" where
  "scan_inv pattern value escapes p v star starV =
     (v \<le> length value \<and> (case star of None \<Rightarrow> True | Some st \<Rightarrow> starV \<le> v \<and>
       (\<exists>es. elems escapes (drop (st + 1) pattern) = es @ elems escapes (drop p pattern) \<and>
             segment es (take (v - starV) (drop starV value)))))"

definition scan_goal ::
  "string \<Rightarrow> string \<Rightarrow> bool \<Rightarrow> nat \<Rightarrow> nat \<Rightarrow> nat option \<Rightarrow> nat \<Rightarrow> bool" where
  "scan_goal pattern value escapes p v star starV =
     (case star of
        None \<Rightarrow> globs (elems escapes (drop p pattern)) (drop v value)
      | Some st \<Rightarrow> globs (Star # elems escapes (drop (st + 1) pattern)) (drop starV value))"

lemma segment_length: "segment es x \<Longrightarrow> length x = length es"
  by (simp add: list_all2_lengthD)

text \<open>A second star makes the first one's choice irrelevant: the leftmost match of the segment
  between them leaves the most for the second.\<close>

lemma commit_to_later_star:
  assumes seg: "segment es x"
  shows "globs (Star # es @ Star # fs) (x @ y) \<longleftrightarrow> globs (Star # fs) y"
proof
  assume "globs (Star # fs) y"
  with seg have "globs (es @ Star # fs) (x @ y)"
    using globs_star_free_append [OF segment_star_free [OF seg]] by blast
  then show "globs (Star # es @ Star # fs) (x @ y)"
    by (cases "x @ y") auto
next
  assume "globs (Star # es @ Star # fs) (x @ y)"
  then obtain k where "globs (es @ Star # fs) (drop k (x @ y))"
    by (auto simp: globs_Star_iff simp del: drop_append)
  then obtain x' y' where split: "drop k (x @ y) = x' @ y'" and "segment es x'"
    and fs: "globs (Star # fs) y'"
    using globs_star_free_append [OF segment_star_free [OF seg]] by blast
  then have len: "length x' = length x" using seg by (simp add: segment_length)
  have "y' = drop (length x') (drop k (x @ y))" unfolding split by simp
  also have "\<dots> = drop k (drop (length x) (x @ y))"
    unfolding len drop_drop by (simp only: add.commute)
  finally have "y' = drop k y" by simp
  with fs obtain j where "globs fs (drop j (drop k y))" by (auto simp: globs_Star_iff)
  then have "globs fs (drop (min (j + k) (length y)) y)"
    by (cases "j + k \<le> length y") (simp_all add: min_def)
  then show "globs (Star # fs) y"
    unfolding globs_Star_iff by (rule_tac x = "min (j + k) (length y)" in exI) simp
qed

text \<open>When the segment is followed by an element that does not match, no match starts here.\<close>

lemma retry_after_mismatch:
  assumes seg: "segment es x" and bad: "\<not> globs fs y"
  shows "globs (Star # es @ fs) (x @ y) \<longleftrightarrow> x @ y \<noteq> [] \<and> globs (Star # es @ fs) (tl (x @ y))"
proof -
  have "\<not> globs (es @ fs) (x @ y)"
  proof
    assume "globs (es @ fs) (x @ y)"
    then obtain x' y' where "x @ y = x' @ y'" "segment es x'" "globs fs y'"
      using globs_star_free_append [OF segment_star_free [OF seg]] by blast
    with seg bad show False by (metis append_eq_append_conv segment_length)
  qed
  then show ?thesis by (cases "x @ y") auto
qed

text \<open>At the end of the value only stars may remain.\<close>

lemma only_stars_remain:
  assumes seg: "segment es x"
  shows "globs (Star # es @ fs) x \<longleftrightarrow> globs fs []"
proof
  assume "globs fs []"
  with seg have "globs (es @ fs) x"
    using globs_star_free_append [OF segment_star_free [OF seg], of fs x] by auto
  then show "globs (Star # es @ fs) x" by (cases x) auto
next
  assume "globs (Star # es @ fs) x"
  then obtain k x' y' where "drop k x = x' @ y'" "segment es x'" "globs fs y'"
    using globs_star_free_append [OF segment_star_free [OF seg]] by (auto simp: globs_Star_iff)
  moreover from this seg have "length x' = length x" by (simp add: segment_length)
  moreover from calculation(1) have "length x - k = length x' + length y'"
    by (metis length_append length_drop)
  ultimately have "length y' = 0" by linarith
  then have "y' = []" by simp
  with \<open>globs fs y'\<close> show "globs fs []" by simp
qed

text \<open>One iteration: a star, an element that matches, a retry.\<close>

lemma scan_star_step:
  assumes inv: "scan_inv pattern val escapes p v star starV" and v: "v < length val"
    and tok: "token pattern p escapes = (CHR ''*'', True, w)"
  shows "scan_inv pattern val escapes (p + w) v (Some p) v \<and>
    scan_goal pattern val escapes (p + w) v (Some p) v = scan_goal pattern val escapes p v star starV"
proof -
  from token_meta [OF tok] have w: "w = 1" by simp
  with tok have hd: "elems escapes (drop p pattern) = Star # elems escapes (drop (p + 1) pattern)"
    using token_elems [OF tok] by simp
  have "scan_goal pattern val escapes (p + w) v (Some p) v = scan_goal pattern val escapes p v star starV"
  proof (cases star)
    case None
    then show ?thesis using hd by (simp add: scan_goal_def)
  next
    case (Some st)
    with inv obtain es where es: "elems escapes (drop (st + 1) pattern) = es @ elems escapes (drop p pattern)"
      and seg: "segment es (take (v - starV) (drop starV val))" and le: "starV \<le> v"
      by (auto simp: scan_inv_def)
    have "drop starV val = take (v - starV) (drop starV val) @ drop v val"
      using le by (rule take_drop_split)
    then show ?thesis using commit_to_later_star [OF seg] Some es hd
      unfolding scan_goal_def by (metis option.simps(5))
  qed
  moreover have "scan_inv pattern val escapes (p + w) v (Some p) v"
    using v w by (simp add: scan_inv_def)
  ultimately show ?thesis by simp
qed

lemma scan_match_step:
  assumes inv: "scan_inv pattern val escapes p v star starV" and v: "v < length val"
    and tok: "token pattern p escapes = (b, meta, w)" and "w > 0"
    and no_star: "\<not> (meta \<and> b = CHR ''*'')" and ok: "meta \<or> b = val ! v"
  shows "scan_inv pattern val escapes (p + w) (v + 1) star starV \<and>
    scan_goal pattern val escapes (p + w) (v + 1) star starV =
    scan_goal pattern val escapes p v star starV"
proof -
  have hd: "elems escapes (drop p pattern) = elem_of b meta # elems escapes (drop (p + w) pattern)"
    using tok \<open>w > 0\<close> by (rule token_elems)
  have e: "elem_of b meta \<noteq> Star" "elem_matches (elem_of b meta) (val ! v)"
    using no_star ok by auto
  have dv: "drop v val = val ! v # drop (v + 1) val" using v by (simp add: drop_Cons_nth)
  show ?thesis
  proof (cases star)
    case None
    then show ?thesis using hd e dv v inv globs_non_Star [OF e(1)]
      by (auto simp: scan_goal_def scan_inv_def)
  next
    case (Some st)
    with inv obtain es where es: "elems escapes (drop (st + 1) pattern) = es @ elems escapes (drop p pattern)"
      and seg: "segment es (take (v - starV) (drop starV val))" and le: "starV \<le> v"
      by (auto simp: scan_inv_def)
    have "take (v + 1 - starV) (drop starV val) = take (v - starV) (drop starV val) @ [val ! v]"
      using le v by (simp add: Suc_diff_le take_Suc_conv_app_nth)
    then have "segment (es @ [elem_of b meta]) (take (v + 1 - starV) (drop starV val))"
      using seg e by (simp add: list_all2_appendI)
    then show ?thesis using Some es hd le v
      by (auto simp: scan_goal_def scan_inv_def intro: exI [of _ "es @ [elem_of b meta]"])
  qed
qed

lemma scan_retry_step:
  assumes inv: "scan_inv pattern val escapes p v star starV" and v: "v < length val"
    and tok: "token pattern p escapes = (b, meta, w)"
    and no_star: "\<not> (meta \<and> b = CHR ''*'')" and bad: "\<not> (w > 0 \<and> (meta \<or> b = val ! v))"
    and star: "star = Some st"
  shows "scan_inv pattern val escapes (st + 1) (starV + 1) star (starV + 1) \<and>
    scan_goal pattern val escapes (st + 1) (starV + 1) star (starV + 1) =
    scan_goal pattern val escapes p v star starV"
proof -
  from inv star obtain es where es: "elems escapes (drop (st + 1) pattern) = es @ elems escapes (drop p pattern)"
    and seg: "segment es (take (v - starV) (drop starV val))" and le: "starV \<le> v"
    by (auto simp: scan_inv_def)
  have dv: "drop v val = val ! v # drop (v + 1) val" using v by (simp add: drop_Cons_nth)
  have split: "take (v - starV) (drop starV val) @ drop v val = drop starV val"
    using take_drop_split [OF le] by metis
  have "\<not> globs (elems escapes (drop p pattern)) (drop v val)"
  proof (cases "w = 0")
    case True
    then show ?thesis using token_width0 [OF tok] v by simp
  next
    case False
    then have "elems escapes (drop p pattern) = elem_of b meta # elems escapes (drop (p + w) pattern)"
      using tok by (simp add: token_elems)
    moreover have "elem_of b meta \<noteq> Star" "\<not> elem_matches (elem_of b meta) (val ! v)"
      using no_star bad False by auto
    ultimately show ?thesis using dv by (auto simp: globs_non_Star)
  qed
  from retry_after_mismatch [OF seg this] split v le
  have "globs (Star # elems escapes (drop (st + 1) pattern)) (drop starV val) \<longleftrightarrow>
      globs (Star # elems escapes (drop (st + 1) pattern)) (drop (starV + 1) val)"
    unfolding es by (simp add: drop_Suc [symmetric] tl_drop)
  then show ?thesis using star v le by (simp add: scan_goal_def scan_inv_def)
qed

text \<open>The scan decides its goal: the loop's answer followed by the trailing stars.\<close>

definition scan_ok :: "string \<Rightarrow> bool \<Rightarrow> nat option \<Rightarrow> bool" where
  "scan_ok pattern escapes r =
     (case r of None \<Rightarrow> False | Some p \<Rightarrow> globs (elems escapes (drop p pattern)) [])"

lemma glob_scan_correct:
  "scan_inv pattern val escapes p v star starV \<Longrightarrow>
   scan_ok pattern escapes (glob_scan pattern val escapes p v star starV) =
   scan_goal pattern val escapes p v star starV"
proof (induction pattern val escapes p v star starV rule: glob_scan.induct)
  case (1 pattern val escapes p v star starV)
  obtain b meta w where tok: "token pattern p escapes = (b, meta, w)"
    by (cases "token pattern p escapes") auto
  note unfold = glob_scan.simps [of pattern val escapes p v star starV]
  show ?case
  proof (cases "v < length val")
    case False
    with "1.prems" have v: "v = length val" by (auto simp: scan_inv_def)
    have "glob_scan pattern val escapes p v star starV = Some p"
      using False by (simp add: unfold)
    moreover have "scan_goal pattern val escapes p v star starV = globs (elems escapes (drop p pattern)) []"
      using "1.prems" v only_stars_remain
      by (cases star) (auto simp: scan_goal_def scan_inv_def)
    ultimately show ?thesis by (simp add: scan_ok_def)
  next
    case v: True
    consider (star) "meta \<and> b = CHR ''*''"
      | (ok) "\<not> (meta \<and> b = CHR ''*'')" "w > 0 \<and> (meta \<or> b = val ! v)"
      | (bad) "\<not> (meta \<and> b = CHR ''*'')" "\<not> (w > 0 \<and> (meta \<or> b = val ! v))"
      by blast
    then show ?thesis
    proof cases
      case star
      then show ?thesis
        using scan_star_step [OF "1.prems" v] "1.IH"(1) [OF v tok [symmetric] refl] tok v
        by (simp add: unfold)
    next
      case ok
      then show ?thesis
        using scan_match_step [OF "1.prems" v tok] "1.IH"(2) [OF v tok [symmetric] refl] tok v
        by (auto simp: unfold)
    next
      case bad
      show ?thesis
      proof (cases star)
        case None
        have "\<not> scan_goal pattern val escapes p v star starV"
          using None bad tok v token_width0 [OF tok] token_elems [OF tok]
          by (cases "w = 0")
            (auto simp: scan_goal_def drop_Cons_nth globs_non_Star)
        moreover have "glob_scan pattern val escapes p v star starV = None"
          unfolding unfold using None bad tok v by auto
        ultimately show ?thesis by (simp add: scan_ok_def)
      next
        case (Some st)
        then show ?thesis
          using scan_retry_step [OF "1.prems" v tok bad Some]
            "1.IH"(3) [OF v tok [symmetric] refl bad Some] tok v bad
          unfolding unfold by auto
      qed
    qed
  qed
qed

lemma glob_stars_end:
  "p \<le> length pattern \<Longrightarrow>
   glob_stars pattern escapes p = length pattern \<longleftrightarrow> globs (elems escapes (drop p pattern)) []"
proof (induction pattern escapes p rule: glob_stars.induct)
  case (1 pattern escapes p)
  obtain b meta w where tok: "token pattern p escapes = (b, meta, w)"
    by (cases "token pattern p escapes") auto
  note unfold = glob_stars.simps [of pattern escapes p]
  show ?case
  proof (cases "\<not> meta \<or> b \<noteq> CHR ''*''")
    case True
    have "p = length pattern \<longleftrightarrow> globs (elems escapes (drop p pattern)) []"
    proof (cases "w = 0")
      case w0: True
      then show ?thesis using tok "1.prems"
        by (auto simp: token_def Let_def split: if_splits)
    next
      case False
      then have "p < length pattern" using tok token_width by blast
      moreover have "elem_of b meta \<noteq> Star" using True by auto
      ultimately show ?thesis using False token_elems [OF tok] by (auto simp: globs_Nil_iff)
    qed
    then show ?thesis using True tok by (simp add: unfold)
  next
    case False
    then have "w = 1" "p < length pattern" using tok token_meta by auto
    then show ?thesis
      using False tok "1.IH" [OF tok [symmetric] refl] token_elems [OF tok] by (simp add: unfold)
  qed
qed

lemma glob_scan_bound:
  "p \<le> length pattern \<Longrightarrow> (\<forall>st. star = Some st \<longrightarrow> st < length pattern) \<Longrightarrow>
   glob_scan pattern val escapes p v star starV = Some q \<Longrightarrow> q \<le> length pattern"
proof (induction pattern val escapes p v star starV rule: glob_scan.induct)
  case (1 pattern val escapes p v star starV)
  obtain b meta w where tok: "token pattern p escapes = (b, meta, w)"
    by (cases "token pattern p escapes") auto
  have w: "p + w \<le> length pattern"
    using tok "1.prems"(1) by (auto simp: token_def Let_def split: if_splits)
  show ?case
    using "1.prems" "1.IH" [OF _ tok [symmetric] refl] w tok token_meta [of pattern p escapes b w]
    by (subst (asm) glob_scan.simps) (auto split: if_splits option.splits)
qed

theorem matchGlob_globs: "matchGlob pattern val escapes = globs (elems escapes pattern) val"
proof -
  have "scan_ok pattern escapes (glob_scan pattern val escapes 0 0 None 0) =
      globs (elems escapes pattern) val"
    using glob_scan_correct [of pattern val escapes 0 0 None 0]
    by (simp add: scan_inv_def scan_goal_def)
  moreover have "glob_scan pattern val escapes 0 0 None 0 = Some p \<Longrightarrow> p \<le> length pattern" for p
    using glob_scan_bound [of 0 pattern None] by simp
  ultimately show ?thesis
    by (auto simp: matchGlob_def scan_ok_def glob_stars_end split: option.splits)
qed

lemma elems_no_meta:
  "\<not> contains_any pattern ''*?'' \<Longrightarrow> elems False pattern = map Lit pattern"
  by (induction pattern) (auto simp: contains_any_def)

theorem MatchWildcard_globs: "MatchWildcard pattern val = globs (elems False pattern) val"
proof -
  have "globs [Star] val" by (induction val) auto
  then show ?thesis
    by (auto simp: MatchWildcard_def matchGlob_globs elems_no_meta globs_lits)
qed

section \<open>Properties\<close>

text \<open>C5: The backtracking matcher decides the language of its pattern: matching succeeds exactly when
  the value is in the language that reads each metacharacter (and, with escapes on, each backslash pair)
  as written, although the loop keeps only the last star to return to.\<close>
theorem glob_matches_language:
  "MatchWildcard pattern val = globs (elems False pattern) val \<and>
   matchGlob pattern val escapes = globs (elems escapes pattern) val"
  by (simp add: matchGlob_globs MatchWildcard_globs)

end
