(* ===== verification/PolicyVariables.thy ===== *)
theory PolicyVariables
  imports PolicyTypes Glob
begin

text \<open>
  Policy variables, \<^verbatim>\<open>pkg/iampolicy/variables.go\<close>: the scan that write paths use
  (\<open>UnresolvableVariable\<close>), the expansion against a request context (\<open>expandVariables\<close>), and the
  rewriting that makes \<^verbatim>\<open>${\<close> literal in a document that predates variables. The reference is the
  decomposition of a string into text and references, \<open>pieces\<close>; every fact about the loops goes
  through it.
\<close>

section \<open>The code\<close>

definition VariablePrefix :: string where "VariablePrefix = ''${''"

definition substitutableKeys :: "string \<Rightarrow> bool" where
  "substitutableKeys k \<longleftrightarrow> k = KeyUsername \<or> k = KeyPrincipalAccount \<or> k = KeyUserID"

definition SubstitutableKeys :: "string list" where
  "SubstitutableKeys = sort [KeyUsername, KeyPrincipalAccount, KeyUserID]"

definition literalVariables :: "string \<Rightarrow> string option" where
  "literalVariables = [''*'' \<mapsto> ''*'', ''?'' \<mapsto> ''?'', ''$'' \<mapsto> ''$'']"

datatype variable_fault = VariableOK | VariableUnknownKey | VariableUnterminated

text \<open>
  The Go loops advance an index \<open>i\<close> over \<open>s\<close>; the argument here is the rest \<^verbatim>\<open>s[i:]\<close>.
\<close>

function unresolvable_loop :: "string \<Rightarrow> string \<times> variable_fault" where
  "unresolvable_loop s =
     (if s = [] then ([], VariableOK)
      else case index_of s VariablePrefix of
        None \<Rightarrow> ([], VariableOK)
      | Some open \<Rightarrow>
          (let s1 = drop (open + length VariablePrefix) s
           in case index_byte s1 (CHR ''}'') of
                None \<Rightarrow> (s1, VariableUnterminated)
              | Some e \<Rightarrow>
                  (let name = take e s1
                   in if literalVariables name = None \<and> \<not> substitutableKeys name
                      then (name, VariableUnknownKey)
                      else unresolvable_loop (drop (e + 1) s1))))"
  by pat_completeness auto
termination
  by (relation "measure length") (auto simp: VariablePrefix_def dest!: index_of_bound)

declare unresolvable_loop.simps [simp del]

definition UnresolvableVariable :: "string \<Rightarrow> string \<times> variable_fault" where
  "UnresolvableVariable s = unresolvable_loop s"

definition UnsupportedVariable :: "string \<Rightarrow> string \<times> bool" where
  "UnsupportedVariable s = (case UnresolvableVariable s of (key, fault) \<Rightarrow> (key, fault \<noteq> VariableOK))"

datatype expansion = ExpansionResolved | ExpansionLiteral | ExpansionUnresolvable

definition escapesInText :: string where "escapesInText = [backslash]"
definition escapesInValue :: string where "escapesInValue = [backslash, CHR ''*'', CHR ''?'']"

text \<open>\<open>writeEscaped\<close> appends to the string builder \<open>b\<close>.\<close>

definition writeEscaped :: "string \<Rightarrow> string \<Rightarrow> string \<Rightarrow> string" where
  "writeEscaped b s chars =
     (if \<not> contains_any s chars then b @ s
      else b @ concat (map (\<lambda>c. if c \<in> set chars then [backslash, c] else [c]) s))"

function expand_loop ::
  "condition_keys \<Rightarrow> string \<Rightarrow> string \<Rightarrow> string \<Rightarrow> string \<Rightarrow> string \<times> expansion" where
  "expand_loop keys textChars valueChars s b =
     (if s = [] then (b, ExpansionResolved)
      else case index_of s VariablePrefix of
        None \<Rightarrow> (writeEscaped b s textChars, ExpansionResolved)
      | Some open \<Rightarrow>
          (let b1 = writeEscaped b (take open s) textChars;
               s1 = drop (open + length VariablePrefix) s
           in case index_byte s1 (CHR ''}'') of
                None \<Rightarrow> ([], ExpansionUnresolvable)
              | Some e \<Rightarrow>
                  (let name = take e s1; s2 = drop (e + 1) s1
                   in case literalVariables name of
                        Some v \<Rightarrow>
                          expand_loop keys textChars valueChars s2 (writeEscaped b1 v valueChars)
                      | None \<Rightarrow>
                          if \<not> substitutableKeys name then ([], ExpansionUnresolvable)
                          else (case keys name of
                              None \<Rightarrow> ([], ExpansionUnresolvable)
                            | Some v \<Rightarrow>
                                expand_loop keys textChars valueChars s2
                                  (writeEscaped b1 v valueChars)))))"
  by pat_completeness auto
termination
  by (relation "measure (\<lambda>(keys, tc, vc, s, b). length s)")
    (auto simp: VariablePrefix_def dest!: index_of_bound)

declare expand_loop.simps [simp del]

definition expandVariables :: "string \<Rightarrow> condition_keys \<Rightarrow> bool \<Rightarrow> string \<times> expansion" where
  "expandVariables s keys escapeMeta =
     (if \<not> contains s VariablePrefix then (s, ExpansionLiteral)
      else if escapeMeta then expand_loop keys escapesInText escapesInValue s []
      else expand_loop keys [] [] s [])"

definition literalReference :: string where
  "literalReference = VariablePrefix @ ''$}{''"

definition containsVariablePrefix :: "string list \<Rightarrow> bool" where
  "containsVariablePrefix vs \<longleftrightarrow> list_ex (\<lambda>v. contains v VariablePrefix) vs"

definition hasVariablePrefix :: "statement \<Rightarrow> bool" where
  "hasVariablePrefix s \<longleftrightarrow>
     containsVariablePrefix (Resource s) \<or> containsVariablePrefix (NotResource s) \<or>
     list_ex (\<lambda>(op, byKey). list_ex (\<lambda>(key, vs). containsVariablePrefix vs) byKey) (Condition s)"

definition literal_values :: "string list \<Rightarrow> string list" where
  "literal_values vs = map (\<lambda>v. replace_all v VariablePrefix literalReference) vs"

definition withLiteralVariables :: "statement \<Rightarrow> statement" where
  "withLiteralVariables stmt = stmt
     \<lparr> Resource := literal_values (Resource stmt),
       NotResource := literal_values (NotResource stmt),
       Condition := map (\<lambda>(op, byKey). (op, map (\<lambda>(key, vs). (key, literal_values vs)) byKey))
                        (Condition stmt) \<rparr>"

definition literalVariableStatements :: "statement list \<Rightarrow> statement list" where
  "literalVariableStatements ss =
     map (\<lambda>s. if \<not> hasVariablePrefix s then s else withLiteralVariables s) ss"

section \<open>Text and references\<close>

datatype piece = TextPiece string | RefPiece string | OpenPiece string

function pieces :: "string \<Rightarrow> piece list" where
  "pieces s =
     (if s = [] then []
      else case index_of s VariablePrefix of
        None \<Rightarrow> [TextPiece s]
      | Some i \<Rightarrow>
          TextPiece (take i s) #
          (let s1 = drop (i + 2) s
           in case index_byte s1 (CHR ''}'') of
                None \<Rightarrow> [OpenPiece s1]
              | Some e \<Rightarrow> RefPiece (take e s1) # pieces (drop (e + 1) s1)))"
  by pat_completeness auto
termination
  by (relation "measure length") (auto simp: VariablePrefix_def dest!: index_of_bound)

declare pieces.simps [simp del]

fun piece_text :: "piece \<Rightarrow> string" where
  "piece_text (TextPiece t) = t"
| "piece_text (RefPiece n) = ''${'' @ n @ ''}''"
| "piece_text (OpenPiece t) = ''${'' @ t"

definition resolve_ref :: "condition_keys \<Rightarrow> string \<Rightarrow> string option" where
  "resolve_ref keys n = (case literalVariables n of
      Some v \<Rightarrow> Some v
    | None \<Rightarrow> if substitutableKeys n then keys n else None)"

fun resolves :: "condition_keys \<Rightarrow> piece \<Rightarrow> bool" where
  "resolves keys (TextPiece t) = True"
| "resolves keys (RefPiece n) = (resolve_ref keys n \<noteq> None)"
| "resolves keys (OpenPiece t) = False"

fun piece_value :: "condition_keys \<Rightarrow> piece \<Rightarrow> string" where
  "piece_value keys (TextPiece t) = t"
| "piece_value keys (RefPiece n) = the (resolve_ref keys n)"
| "piece_value keys (OpenPiece t) = []"

fun piece_elems :: "condition_keys \<Rightarrow> piece \<Rightarrow> glob_elem list" where
  "piece_elems keys (TextPiece t) = elems False t"
| "piece_elems keys (RefPiece n) = map Lit (the (resolve_ref keys n))"
| "piece_elems keys (OpenPiece t) = []"

lemma pieces_Nil [simp]: "pieces [] = []"
  by (simp add: pieces.simps)

lemma pieces_text: "concat (map piece_text (pieces s)) = s"
proof (induction s rule: pieces.induct)
  case (1 s)
  show ?case
  proof (cases "index_of s VariablePrefix")
    case None
    then show ?thesis by (subst pieces.simps) auto
  next
    case (Some i)
    let ?r = "drop (i + 2) s"
    have split: "s = take i s @ ''${'' @ ?r"
      using index_of_split [OF Some] by (simp add: VariablePrefix_def)
    then have "s \<noteq> []" by auto
    show ?thesis
    proof (cases "index_byte ?r (CHR ''}'')")
      case None
      then show ?thesis using Some split \<open>s \<noteq> []\<close> by (subst pieces.simps) simp
    next
      case (Some e)
      then have "?r = take e ?r @ CHR ''}'' # drop (Suc e) ?r" by (rule index_byte_split)
      then show ?thesis
        using \<open>s \<noteq> []\<close> \<open>index_of s VariablePrefix = _\<close> Some split
          "1.IH" [OF \<open>s \<noteq> []\<close> \<open>index_of s VariablePrefix = _\<close> refl Some]
        by (subst pieces.simps) simp
    qed
  qed
qed

text \<open>One unfolding of \<open>pieces\<close> at a reference, in the shapes the loop proofs meet it.\<close>

lemma pieces_no_ref: "s \<noteq> [] \<Longrightarrow> index_of s VariablePrefix = None \<Longrightarrow> pieces s = [TextPiece s]"
  by (simp add: pieces.simps)

lemma pieces_open:
  "index_of s VariablePrefix = Some i \<Longrightarrow> index_byte (drop (i + 2) s) (CHR ''}'') = None \<Longrightarrow>
   pieces s = [TextPiece (take i s), OpenPiece (drop (i + 2) s)]"
  by (subst pieces.simps) (auto simp: VariablePrefix_def)

lemma pieces_ref:
  "index_of s VariablePrefix = Some i \<Longrightarrow> index_byte (drop (i + 2) s) (CHR ''}'') = Some e \<Longrightarrow>
   pieces s = TextPiece (take i s) # RefPiece (take e (drop (i + 2) s)) #
     pieces (drop (e + 1) (drop (i + 2) s))"
  by (subst pieces.simps) (auto simp: VariablePrefix_def)

lemmas pieces_cases = pieces_no_ref pieces_open pieces_ref

lemma length_VariablePrefix [simp]: "length VariablePrefix = 2"
  by (simp add: VariablePrefix_def)

text \<open>Computation induction over the shapes, shared by every fact about the loops.\<close>

lemma pieces_induct [case_names Empty Text Open Ref]:
  assumes "P []"
    and "\<And>s. s \<noteq> [] \<Longrightarrow> index_of s VariablePrefix = None \<Longrightarrow> P s"
    and "\<And>s i. s \<noteq> [] \<Longrightarrow> index_of s VariablePrefix = Some i \<Longrightarrow>
           index_byte (drop (i + 2) s) (CHR ''}'') = None \<Longrightarrow> P s"
    and "\<And>s i e. s \<noteq> [] \<Longrightarrow> index_of s VariablePrefix = Some i \<Longrightarrow>
           index_byte (drop (i + 2) s) (CHR ''}'') = Some e \<Longrightarrow>
           P (drop (e + 1) (drop (i + 2) s)) \<Longrightarrow> P s"
  shows "P s"
proof (induction s rule: pieces.induct)
  case (1 s)
  then show ?case
    using assms by (cases "s = []"; cases "index_of s VariablePrefix";
      cases "index_byte (drop (the (index_of s VariablePrefix) + 2) s) (CHR ''}'')") auto
qed

lemma resolve_ref_None:
  "resolve_ref keys n = None \<longleftrightarrow>
   literalVariables n = None \<and> (substitutableKeys n \<longrightarrow> keys n = None)"
  by (auto simp: resolve_ref_def split: option.splits)

section \<open>The write-path scan\<close>

fun first_fault :: "piece list \<Rightarrow> string \<times> variable_fault" where
  "first_fault [] = ([], VariableOK)"
| "first_fault (TextPiece t # ps) = first_fault ps"
| "first_fault (RefPiece n # ps) =
     (if literalVariables n = None \<and> \<not> substitutableKeys n then (n, VariableUnknownKey)
      else first_fault ps)"
| "first_fault (OpenPiece t # ps) = (t, VariableUnterminated)"

lemma UnresolvableVariable_pieces: "UnresolvableVariable s = first_fault (pieces s)"
  unfolding UnresolvableVariable_def
proof (induction s rule: pieces_induct)
  case (Ref s i e)
  then show ?case by (subst unresolvable_loop.simps) (simp add: pieces_ref Let_def)
qed (subst unresolvable_loop.simps, simp add: pieces_no_ref pieces_open)+

lemma first_fault_OK:
  "snd (first_fault ps) = VariableOK \<longleftrightarrow>
   list_all (resolves (\<lambda>k. Some v)) ps"
  by (induction ps rule: first_fault.induct) (auto simp: resolve_ref_None)

lemma resolves_some_context:
  "(\<And>k. substitutableKeys k \<Longrightarrow> keys k \<noteq> None) \<Longrightarrow>
   resolves keys p = resolves (\<lambda>k. Some v) p"
  by (cases p) (auto simp: resolve_ref_None)

lemma resolves_any_context: "resolves keys p \<Longrightarrow> resolves (\<lambda>k. Some v) p"
  by (cases p) (auto simp: resolve_ref_None)

section \<open>Expansion\<close>

definition escape :: "string \<Rightarrow> string \<Rightarrow> string" where
  "escape chars s = concat (map (\<lambda>c. if c \<in> set chars then [backslash, c] else [c]) s)"

lemma escape_Nil [simp]: "escape chars [] = []"
  by (simp add: escape_def)

lemma escape_Cons: "escape chars (c # s) = (if c \<in> set chars then [backslash, c] else [c]) @ escape chars s"
  by (simp add: escape_def)

lemma escape_none: "\<not> contains_any s chars \<Longrightarrow> escape chars s = s"
  by (induction s) (auto simp: contains_any_def escape_Cons)

lemma escape_no_chars [simp]: "escape [] s = s"
  by (induction s) (auto simp: escape_Cons)

lemma writeEscaped_eq: "writeEscaped b s chars = b @ escape chars s"
  using escape_none [of s chars] by (simp add: writeEscaped_def escape_def)

fun piece_escaped :: "condition_keys \<Rightarrow> string \<Rightarrow> string \<Rightarrow> piece \<Rightarrow> string" where
  "piece_escaped keys tc vc (TextPiece t) = escape tc t"
| "piece_escaped keys tc vc (RefPiece n) = escape vc (the (resolve_ref keys n))"
| "piece_escaped keys tc vc (OpenPiece t) = []"

lemma expand_loop_pieces:
  "expand_loop keys tc vc s b =
     (if list_all (resolves keys) (pieces s)
      then (b @ concat (map (piece_escaped keys tc vc) (pieces s)), ExpansionResolved)
      else ([], ExpansionUnresolvable))"
proof (induction s arbitrary: b rule: pieces_induct)
  case (Ref s i e)
  then show ?case
    by (subst expand_loop.simps)
      (simp add: pieces_ref writeEscaped_eq resolve_ref_def split: option.split)
qed (subst expand_loop.simps, simp add: pieces_no_ref pieces_open writeEscaped_eq)+

lemma pieces_literal: "\<not> contains s VariablePrefix \<Longrightarrow> pieces s = (if s = [] then [] else [TextPiece s])"
  by (simp add: contains_def pieces_no_ref)

text \<open>What an expansion means, for each of the three results.\<close>

lemma expandVariables_pieces:
  "expandVariables s keys escapeMeta =
     (if \<not> contains s VariablePrefix then (s, ExpansionLiteral)
      else if list_all (resolves keys) (pieces s)
      then (concat (map (if escapeMeta then piece_escaped keys escapesInText escapesInValue
                         else piece_value keys) (pieces s)), ExpansionResolved)
      else ([], ExpansionUnresolvable))"
proof -
  have "piece_escaped keys [] [] p = piece_value keys p" for p
    by (cases p) auto
  then show ?thesis
    by (simp add: expandVariables_def expand_loop_pieces cong: map_cong)
qed

text \<open>Escaped text reads back as the pattern it was; an escaped value reads back as itself.\<close>

lemma elems_escaped_text:
  "elems True (escape escapesInText t @ rest) = elems False t @ elems True rest"
  by (induction t) (auto simp: escape_Cons escapesInText_def backslash_def)

lemma elems_escaped_value:
  "elems True (escape escapesInValue v @ rest) = map Lit v @ elems True rest"
  by (induction v) (auto simp: escape_Cons escapesInValue_def backslash_def)

lemma elems_pieces:
  "list_all (resolves keys) ps \<Longrightarrow>
   elems True (concat (map (piece_escaped keys escapesInText escapesInValue) ps)) =
   concat (map (piece_elems keys) ps)"
proof (induction ps)
  case (Cons p ps)
  then show ?case by (cases p) (auto simp: elems_escaped_text elems_escaped_value)
qed simp

text \<open>
  The pattern a string denotes against a context: \<open>None\<close> when a reference cannot be resolved.
\<close>

definition template :: "condition_keys \<Rightarrow> string \<Rightarrow> glob_elem list option" where
  "template keys s =
     (if list_all (resolves keys) (pieces s)
      then Some (concat (map (piece_elems keys) (pieces s))) else None)"

definition template_text :: "condition_keys \<Rightarrow> string \<Rightarrow> string option" where
  "template_text keys s =
     (if list_all (resolves keys) (pieces s)
      then Some (concat (map (piece_value keys) (pieces s))) else None)"

lemma template_literal: "\<not> contains s VariablePrefix \<Longrightarrow> template keys s = Some (elems False s)"
  by (simp add: template_def pieces_literal)

lemma template_text_literal: "\<not> contains s VariablePrefix \<Longrightarrow> template_text keys s = Some s"
  by (simp add: template_text_def pieces_literal)

lemma expand_plain:
  "expandVariables s keys False =
     (if \<not> contains s VariablePrefix then (s, ExpansionLiteral)
      else case template_text keys s of
        None \<Rightarrow> ([], ExpansionUnresolvable) | Some t \<Rightarrow> (t, ExpansionResolved))"
  by (simp add: expandVariables_pieces template_text_def)

lemma expand_escaped:
  assumes "expandVariables s keys True = (t, r)"
  shows "case r of
      ExpansionLiteral \<Rightarrow> t = s \<and> template keys s = Some (elems False s)
    | ExpansionResolved \<Rightarrow> template keys s = Some (elems True t)
    | ExpansionUnresolvable \<Rightarrow> template keys s = None"
proof (cases "contains s VariablePrefix")
  case False
  then show ?thesis using assms by (auto simp: expandVariables_pieces template_literal)
next
  case True
  then show ?thesis using assms
    by (auto simp: expandVariables_pieces template_def elems_pieces split: if_splits)
qed

section \<open>Extending the context\<close>

lemma resolve_ref_mono: "keys \<subseteq>\<^sub>m keys' \<Longrightarrow> resolve_ref keys n = Some v \<Longrightarrow> resolve_ref keys' n = Some v"
  by (auto simp: resolve_ref_def map_le_def dom_def split: option.splits if_splits)

lemma resolves_mono: "keys \<subseteq>\<^sub>m keys' \<Longrightarrow> resolves keys p \<Longrightarrow> resolves keys' p"
  by (cases p) (auto dest: resolve_ref_mono)

lemma piece_mono:
  assumes "keys \<subseteq>\<^sub>m keys'" and "resolves keys p"
  shows "piece_elems keys' p = piece_elems keys p \<and> piece_value keys' p = piece_value keys p"
  using assms by (cases p) (auto dest: resolve_ref_mono)

lemma template_mono:
  assumes le: "keys \<subseteq>\<^sub>m keys'" and t: "template keys s = Some es"
  shows "template keys' s = Some es"
proof -
  from t have all: "\<forall>p\<in>set (pieces s). resolves keys p"
    by (auto simp: template_def list_all_iff split: if_splits)
  then have "concat (map (piece_elems keys') (pieces s)) = concat (map (piece_elems keys) (pieces s))"
    using piece_mono [OF le] by (intro arg_cong [of _ _ concat]) simp
  moreover have "list_all (resolves keys') (pieces s)"
    using all resolves_mono [OF le] by (simp add: list_all_iff)
  ultimately show ?thesis using t by (auto simp: template_def split: if_splits)
qed

lemma template_text_mono:
  assumes le: "keys \<subseteq>\<^sub>m keys'" and t: "template_text keys s = Some u"
  shows "template_text keys' s = Some u"
proof -
  from t have all: "\<forall>p\<in>set (pieces s). resolves keys p"
    by (auto simp: template_text_def list_all_iff split: if_splits)
  then have "concat (map (piece_value keys') (pieces s)) = concat (map (piece_value keys) (pieces s))"
    using piece_mono [OF le] by (intro arg_cong [of _ _ concat]) simp
  moreover have "list_all (resolves keys') (pieces s)"
    using all resolves_mono [OF le] by (simp add: list_all_iff)
  ultimately show ?thesis using t by (auto simp: template_text_def split: if_splits)
qed

section \<open>Literal references\<close>

lemma prefix_window: "length sub \<le> length x \<Longrightarrow> prefix sub (x @ y) \<longleftrightarrow> prefix sub x"
  by (metis prefixI prefix_append prefix_length_prefix prefix_order.trans)

lemma index_of_window:
  "index_of v sub = Some i \<Longrightarrow> sub \<noteq> [] \<Longrightarrow> index_of (take i v @ sub @ z) sub = Some i"
proof (induction v arbitrary: i)
  case Nil
  then show ?case by (auto split: if_splits)
next
  case (Cons c v)
  show ?case
  proof (cases "has_prefix (c # v) sub")
    case True
    with Cons.prems have "i = 0" by simp
    moreover have "index_of (sub @ z) sub = Some 0"
      using Cons.prems(2) has_prefix_append [of sub z] by (cases "sub @ z") auto
    ultimately show ?thesis by simp
  next
    case False
    with Cons.prems obtain j where j: "index_of v sub = Some j" "i = Suc j" by auto
    have split: "c # v = (c # take j v @ sub) @ drop (j + length sub) v"
      using index_of_split [OF j(1)] by simp
    have "\<not> prefix sub (c # take j v @ sub)"
      using False split by (metis has_prefix_iff prefix_def append.assoc)
    then have "\<not> has_prefix (c # take j v @ sub @ z) sub"
      using prefix_window [of sub "c # take j v @ sub" z] by (simp add: has_prefix_iff)
    then show ?thesis using Cons.IH [OF j(1) Cons.prems(2)] j(2) by simp
  qed
qed

lemma index_of_brace: "index_of (CHR ''{'' # s) VariablePrefix = map_option Suc (index_of s VariablePrefix)"
proof -
  have "\<not> has_prefix (CHR ''{'' # s) VariablePrefix" by (simp add: VariablePrefix_def)
  then show ?thesis by simp
qed

text \<open>
  The rewriting read back by \<open>pieces\<close>: text, then one \<^verbatim>\<open>${$}\<close> per rewritten reference, the brace
  that followed it becoming the start of the next text.
\<close>

lemma pieces_literalReference:
  assumes i: "index_of w VariablePrefix = Some i"
  shows "pieces (take i w @ literalReference @ z) =
    TextPiece (take i w) # RefPiece ''$'' # pieces (CHR ''{'' # z)"
proof -
  let ?s = "take i w @ literalReference @ z"
  have le: "i \<le> length w" using index_of_bound [OF i] by simp
  have s: "?s = take i w @ VariablePrefix @ ''$}{'' @ z"
    by (simp add: literalReference_def)
  have idx: "index_of ?s VariablePrefix = Some i"
    unfolding s using i by (rule index_of_window) (simp add: VariablePrefix_def)
  have "drop (i + 2) ?s = drop 2 (drop i ?s)"
    by (simp only: drop_drop add.commute)
  also have "drop i ?s = literalReference @ z"
    using le by (subst drop_append) simp
  also have "drop 2 (literalReference @ z) = ''$}{'' @ z"
    by (simp add: literalReference_def VariablePrefix_def)
  finally have rest: "drop (i + 2) ?s = ''$}{'' @ z" .
  have brace: "index_byte (drop (i + 2) ?s) (CHR ''}'') = Some 1"
    unfolding rest by simp
  show ?thesis
    using pieces_ref [OF idx brace] le unfolding rest by (simp add: literalReference_def)
qed

lemma literalVariables_dollar [simp]: "literalVariables ''$'' = Some ''$''"
  by (simp add: literalVariables_def)

lemma resolve_ref_dollar [simp]: "resolve_ref keys ''$'' = Some ''$''"
  by (simp add: resolve_ref_def)

text \<open>A string rewritten by \<open>literalReference\<close> denotes itself, after an optional brace.\<close>

definition reads_as :: "condition_keys \<Rightarrow> string \<Rightarrow> string \<Rightarrow> bool" where
  "reads_as keys s t \<longleftrightarrow> template keys s = Some (elems False t) \<and> template_text keys s = Some t"

lemma elems_False_append [simp]: "elems False (s @ t) = elems False s @ elems False t"
  by (induction s) auto

lemma reads_as_pieces:
  assumes "pieces s = TextPiece u # RefPiece ''$'' # pieces r" and "reads_as keys r t"
  shows "reads_as keys s (u @ ''$'' @ t)"
  using assms by (auto simp: reads_as_def template_def template_text_def split: if_splits)

lemma reads_as_no_ref: "index_of s VariablePrefix = None \<Longrightarrow> reads_as keys s s"
  by (simp add: reads_as_def template_literal template_text_literal contains_def)

lemma replace_all_reads_as:
  assumes "u = [] \<or> u = ''{''"
  shows "reads_as keys (u @ replace_all v VariablePrefix literalReference) (u @ v)"
  using assms
proof (induction "length v" arbitrary: u v rule: less_induct)
  case less
  have idx: "index_of (u @ v) VariablePrefix = map_option (\<lambda>i. length u + i) (index_of v VariablePrefix)"
    using less.prems by (auto simp: index_of_brace option.map_ident simp del: index_of.simps)
  show ?case
  proof (cases "index_of v VariablePrefix")
    case None
    then have "replace_all v VariablePrefix literalReference = v"
      by (simp add: replace_all.simps)
    then show ?thesis using idx None by (simp add: reads_as_no_ref)
  next
    case (Some i)
    let ?r = "drop (i + 2) v"
    have split: "v = take i v @ ''${'' @ ?r"
      using index_of_split [OF Some] by (simp add: VariablePrefix_def)
    have rep: "replace_all v VariablePrefix literalReference =
        take i v @ literalReference @ replace_all ?r VariablePrefix literalReference"
      using Some by (subst replace_all.simps) (simp add: VariablePrefix_def)
    have iu: "index_of (u @ v) VariablePrefix = Some (length u + i)" using idx Some by simp
    have "length ?r < length v" using index_of_bound [OF Some] by simp
    then have "reads_as keys (''{'' @ replace_all ?r VariablePrefix literalReference) (''{'' @ ?r)"
      by (rule less.hyps) simp
    from reads_as_pieces [OF _ this, of "u @ replace_all v VariablePrefix literalReference" "u @ take i v"]
      pieces_literalReference [OF iu, of "replace_all ?r VariablePrefix literalReference"]
    have "reads_as keys (u @ replace_all v VariablePrefix literalReference)
        ((u @ take i v) @ ''$'' @ ''{'' @ ?r)"
      by (simp add: rep)
    also have "(u @ take i v) @ ''$'' @ ''{'' @ ?r = u @ v" using split by simp
    finally show ?thesis .
  qed
qed

section \<open>Properties\<close>

text \<open>
  The write path's gate is exact: a string passes \<open>UnsupportedVariable\<close> exactly when some request
  context resolves it, and then every context that supplies the substitutable keys does.
\<close>

theorem write_path_gate:
  "(\<not> snd (UnsupportedVariable s) \<longleftrightarrow>
      (\<exists>keys. snd (expandVariables s keys escapeMeta) \<noteq> ExpansionUnresolvable)) \<and>
   (\<not> snd (UnsupportedVariable s) \<longleftrightarrow>
      snd (expandVariables s [KeyUsername \<mapsto> u, KeyPrincipalAccount \<mapsto> a, KeyUserID \<mapsto> i] escapeMeta)
        \<noteq> ExpansionUnresolvable)"
proof -
  let ?full = "[KeyUsername \<mapsto> u, KeyPrincipalAccount \<mapsto> a, KeyUserID \<mapsto> i]"
  have gate: "\<not> snd (UnsupportedVariable s) \<longleftrightarrow> list_all (resolves (\<lambda>k. Some [])) (pieces s)"
    by (simp add: UnsupportedVariable_def UnresolvableVariable_pieces first_fault_OK [symmetric] split: prod.split)
  have expand: "snd (expandVariables s keys escapeMeta) \<noteq> ExpansionUnresolvable \<longleftrightarrow> list_all (resolves keys) (pieces s)"
    for keys
    by (simp add: expandVariables_pieces pieces_literal)
  have full: "resolves ?full p = resolves (\<lambda>k. Some []) p" for p
    by (rule resolves_some_context) (auto simp: substitutableKeys_def)
  have any: "list_all (resolves keys) (pieces s) \<Longrightarrow> list_all (resolves (\<lambda>k. Some [])) (pieces s)" for keys
    by (auto simp: list_all_iff intro: resolves_any_context)
  have "list_all (resolves ?full) (pieces s) = list_all (resolves (\<lambda>k. Some [])) (pieces s)"
    using full by (auto simp: list_all_iff)
  then show ?thesis unfolding gate expand using any by blast
qed

end
