(* ===== verification/Match.thy ===== *)
theory Match
  imports PolicyVariables
begin

text \<open>
  Pattern matching with policy variables, the second half of \<^verbatim>\<open>pkg/iampolicy/match.go\<close>:
  \<open>matchesAny\<close> for actions, \<open>matchPattern\<close> and \<open>matchesAnyResource\<close> for resources, and the ARN
  operators' \<open>SplitARN\<close> and \<open>matchARN\<close>. The locale \<open>fail_closed\<close> states what every matcher that
  takes a \<^verbatim>\<open>failClosed\<close> flag promises its callers. Log calls have no effect on any result and
  are left out.
\<close>

section \<open>The code\<close>

definition matchesAny :: "unicode \<Rightarrow> string list \<Rightarrow> string \<Rightarrow> bool \<Rightarrow> bool" where
  "matchesAny U patterns val caseInsensitive =
     (let val' = (if caseInsensitive then to_lower U val else val)
      in list_ex (\<lambda>p. MatchWildcard (if caseInsensitive then to_lower U p else p) val') patterns)"

definition matchPattern :: "string \<Rightarrow> string \<Rightarrow> condition_keys \<Rightarrow> bool \<Rightarrow> bool" where
  "matchPattern pattern val keys failClosed =
     (case expandVariables pattern keys True of (expanded, result) \<Rightarrow>
        (case result of
           ExpansionLiteral \<Rightarrow> MatchWildcard pattern val
         | ExpansionUnresolvable \<Rightarrow> failClosed
         | ExpansionResolved \<Rightarrow> matchGlob expanded val True))"

definition matchesAnyResource ::
  "string list \<Rightarrow> string \<Rightarrow> condition_keys \<Rightarrow> bool \<Rightarrow> bool" where
  "matchesAnyResource patterns resource keys failClosed =
     list_ex (\<lambda>p. matchPattern p resource keys failClosed) patterns"

definition arnComponents :: nat where "arnComponents = 6"

function split_arn_loop ::
  "string \<Rightarrow> nat \<Rightarrow> nat \<Rightarrow> bool \<Rightarrow> string list \<Rightarrow> nat \<times> string list" where
  "split_arn_loop s i start inVariable parts =
     (if i < length s \<and> length parts < arnComponents - 1 then
        if has_prefix (drop i s) VariablePrefix then split_arn_loop s (i + 2) start True parts
        else if inVariable \<and> s ! i = CHR ''}'' then split_arn_loop s (i + 1) start False parts
        else if \<not> inVariable \<and> s ! i = CHR '':'' then
          split_arn_loop s (i + 1) (i + 1) inVariable (parts @ [take (i - start) (drop start s)])
        else split_arn_loop s (i + 1) start inVariable parts
      else (start, parts))"
  by pat_completeness auto
termination
  by (relation "measure (\<lambda>(s, i, start, inVariable, parts). length s - i)") auto

declare split_arn_loop.simps [simp del]

definition SplitARN :: "string \<Rightarrow> string list option" where
  "SplitARN s =
     (case split_arn_loop s 0 0 False [] of (start, parts) \<Rightarrow>
        if length parts < arnComponents - 1 then None else Some (parts @ [drop start s]))"

text \<open>The loop over the components of \<^verbatim>\<open>matchARN\<close> runs over the pattern's six parts.\<close>

definition matchARN :: "string \<Rightarrow> string \<Rightarrow> condition_keys \<Rightarrow> bool \<Rightarrow> bool" where
  "matchARN pattern val keys failClosed =
     (if snd (expandVariables pattern keys True) = ExpansionUnresolvable then failClosed
      else case SplitARN pattern of
        None \<Rightarrow> False
      | Some patternParts \<Rightarrow>
          (let valueParts = splitn_byte arnComponents (CHR '':'') val
           in if length valueParts < arnComponents then failClosed
              else list_all (\<lambda>i. matchPattern (patternParts ! i) (valueParts ! i) keys failClosed)
                     [0..<length patternParts]))"

section \<open>Matching a pattern\<close>

lemma expand_result_cases:
  "(case snd (expandVariables s keys True) of
      ExpansionLiteral \<Rightarrow> template keys s = Some (elems False s)
    | ExpansionResolved \<Rightarrow> template keys s = Some (elems True (fst (expandVariables s keys True)))
    | ExpansionUnresolvable \<Rightarrow> template keys s = None)"
  using expand_escaped [where s = s and keys = keys] by (cases "expandVariables s keys True") (auto split: expansion.splits)

lemma unresolvable_iff_template:
  "snd (expandVariables s keys True) = ExpansionUnresolvable \<longleftrightarrow> template keys s = None"
  using expand_result_cases [where s = s and keys = keys] by (auto split: expansion.splits)

lemma matchPattern_template:
  "matchPattern pattern val keys failClosed =
     (case template keys pattern of None \<Rightarrow> failClosed | Some es \<Rightarrow> globs es val)"
  using expand_result_cases [where s = pattern and keys = keys]
  by (auto simp: matchPattern_def MatchWildcard_globs matchGlob_globs
      split: prod.splits expansion.splits)

section \<open>The contract of a fail-closed matcher\<close>

text \<open>
  A matcher is asked at a door that supplies the keys \<open>keys\<close>. With \<open>failClosed = False\<close> it claims a
  match only if every door that supplies at least those keys, with the same values, would claim it;
  with \<open>failClosed = True\<close> it claims one whenever any such door would.
\<close>

locale fail_closed =
  fixes holds :: "condition_keys \<Rightarrow> bool \<Rightarrow> 'p \<Rightarrow> 'v \<Rightarrow> bool"
  assumes lower: "keys \<subseteq>\<^sub>m keys' \<Longrightarrow> holds keys False p v \<Longrightarrow> holds keys' fc p v"
    and upper: "keys \<subseteq>\<^sub>m keys' \<Longrightarrow> holds keys' fc p v \<Longrightarrow> holds keys True p v"
begin

lemma flag_mono: "holds keys False p v \<Longrightarrow> holds keys True p v"
  using lower [of keys keys p v True] by simp

lemma any_lower:
  "keys \<subseteq>\<^sub>m keys' \<Longrightarrow> list_ex (\<lambda>p. holds keys False p v) ps \<Longrightarrow> list_ex (\<lambda>p. holds keys' fc p v) ps"
  by (auto simp: list_ex_iff intro: lower)

lemma any_upper:
  "keys \<subseteq>\<^sub>m keys' \<Longrightarrow> list_ex (\<lambda>p. holds keys' fc p v) ps \<Longrightarrow> list_ex (\<lambda>p. holds keys True p v) ps"
  by (auto simp: list_ex_iff intro: upper)

text \<open>After a complement the flag has to be inverted, and then the contract holds again.\<close>

lemma complement_lower:
  "keys \<subseteq>\<^sub>m keys' \<Longrightarrow> \<not> list_ex (\<lambda>p. holds keys (\<not> False) p v) ps \<Longrightarrow>
   \<not> list_ex (\<lambda>p. holds keys' (\<not> fc) p v) ps"
  using any_upper by auto

lemma complement_upper:
  "keys \<subseteq>\<^sub>m keys' \<Longrightarrow> \<not> list_ex (\<lambda>p. holds keys' (\<not> fc) p v) ps \<Longrightarrow>
   \<not> list_ex (\<lambda>p. holds keys (\<not> True) p v) ps"
  using any_lower by auto

end

interpretation pattern_match: fail_closed "\<lambda>keys fc p v. matchPattern p v keys fc"
  by unfold_locales
    (auto simp: matchPattern_template split: option.splits dest: template_mono)

section \<open>Splitting ARN patterns\<close>

text \<open>A string all of whose references are closed, and a join that creates no new reference.\<close>

definition closed :: "string \<Rightarrow> bool" where
  "closed s \<longleftrightarrow> (\<forall>t. OpenPiece t \<notin> set (pieces s))"

definition no_seam :: "string \<Rightarrow> string \<Rightarrow> bool" where
  "no_seam x y \<longleftrightarrow> \<not> (x \<noteq> [] \<and> last x = CHR ''$'' \<and> y \<noteq> [] \<and> hd y = CHR ''{'')"

fun opt_append :: "'a list option \<Rightarrow> 'a list option \<Rightarrow> 'a list option" where
  "opt_append (Some x) (Some y) = Some (x @ y)"
| "opt_append _ _ = None"

lemma opt_append_assoc [simp]: "opt_append (opt_append a b) c = opt_append a (opt_append b c)"
  by (cases a; cases b; cases c) auto

lemma opt_append_Nil [simp]: "opt_append (Some []) b = b"
  by (cases b) auto

lemma closed_Nil [simp]: "closed []"
  by (simp add: closed_def)

lemma template_Nil [simp]: "template keys [] = Some []"
  by (simp add: template_def)

lemma template_closed: "template keys s \<noteq> None \<Longrightarrow> closed s"
  by (auto simp: template_def closed_def list_all_iff split: if_splits)

text \<open>One byte of plain text in front of a string.\<close>

lemma index_of_text_byte:
  "\<not> has_prefix (c # s) VariablePrefix \<Longrightarrow>
   index_of (c # s) VariablePrefix = map_option Suc (index_of s VariablePrefix)"
  by simp

lemma pieces_text_byte:
  assumes "\<not> has_prefix (c # s) VariablePrefix"
  shows "template keys (c # s) = opt_append (Some (elems False [c])) (template keys s) \<and>
    (closed (c # s) \<longleftrightarrow> closed s)"
proof (cases "index_of s VariablePrefix")
  case None
  then have "index_of (c # s) VariablePrefix = None" using assms by simp
  then have "pieces (c # s) = [TextPiece (c # s)]" by (simp add: pieces_no_ref del: index_of.simps)
  moreover have "pieces s = (if s = [] then [] else [TextPiece s])" using None by (simp add: pieces_no_ref)
  ultimately show ?thesis by (auto simp: template_def closed_def)
next
  case (Some i)
  have idx: "index_of (c # s) VariablePrefix = Some (Suc i)" using Some assms by simp
  show ?thesis
  proof (cases "index_byte (drop (i + 2) s) (CHR ''}'')")
    case None
    then show ?thesis
      using pieces_open [OF Some None] pieces_open [OF idx] by (simp add: template_def closed_def)
  next
    case (Some e)
    then show ?thesis
      using pieces_ref [OF \<open>index_of s VariablePrefix = Some i\<close> Some] pieces_ref [OF idx, of e]
      by (auto simp: template_def closed_def)
  qed
qed

lemma append_text:
  "index_of x VariablePrefix = None \<Longrightarrow> no_seam x y \<Longrightarrow>
   template keys (x @ y) = opt_append (Some (elems False x)) (template keys y) \<and>
   (closed (x @ y) \<longleftrightarrow> closed y)"
proof (induction x)
  case (Cons c x)
  have "\<not> has_prefix (c # x @ y) VariablePrefix"
  proof (cases x)
    case Nil
    then show ?thesis using Cons.prems(2) by (cases y) (auto simp: no_seam_def VariablePrefix_def)
  next
    case (Cons d x')
    then show ?thesis using Cons.prems(1) by (auto simp: VariablePrefix_def split: if_splits)
  qed
  moreover have "index_of x VariablePrefix = None"
    using Cons.prems(1) by (auto split: if_splits)
  moreover have "no_seam x y" using Cons.prems(2) by (auto simp: no_seam_def split: if_splits)
  ultimately show ?case
    using Cons.IH pieces_text_byte [of c "x @ y" keys]
    by (auto simp flip: opt_append_assoc)
qed simp

lemma append_ref:
  assumes i: "index_of x VariablePrefix = Some i"
    and e: "index_byte (drop (i + 2) x) (CHR ''}'') = Some e"
  shows "pieces (x @ y) = TextPiece (take i x) # RefPiece (take e (drop (i + 2) x)) #
    pieces (drop (e + 1) (drop (i + 2) x) @ y)"
proof -
  have le: "i + 2 \<le> length x" using index_of_bound [OF i] by simp
  have split: "x = take i x @ VariablePrefix @ drop (i + 2) x"
    using index_of_split [OF i] by simp
  have "index_of (take i x @ VariablePrefix @ drop (i + 2) x @ y) VariablePrefix = Some i"
    using i by (rule index_of_window) (simp add: VariablePrefix_def)
  then have i': "index_of (x @ y) VariablePrefix = Some i"
    using split by (metis append.assoc)
  have lt: "e < length (drop (i + 2) x)" using index_byte_Some [OF e] by simp
  have "CHR ''}'' \<notin> set (take e (drop (i + 2) x))" using index_byte_Some [OF e] by simp
  then have "index_byte (take e (drop (i + 2) x) @ CHR ''}'' # drop (Suc e) (drop (i + 2) x) @ y)
      (CHR ''}'') = Some (length (take e (drop (i + 2) x)))"
    by (rule index_byte_append)
  then have e': "index_byte (drop (i + 2) (x @ y)) (CHR ''}'') = Some e"
    using le lt index_byte_split [OF e] by (metis append_Cons append_assoc drop_append diff_is_0_eq drop_0
        length_take min.absorb4)
  show ?thesis
    using pieces_ref [OF i' e'] le lt by simp
qed

lemma closed_append:
  "closed x \<Longrightarrow> no_seam x y \<Longrightarrow>
   template keys (x @ y) = opt_append (template keys x) (template keys y) \<and>
   (closed (x @ y) \<longleftrightarrow> closed y)"
proof (induction x rule: pieces_induct)
  case (Text x)
  then show ?case using append_text [of x y keys] by (simp add: template_literal contains_def)
next
  case (Open x i)
  then show ?case by (simp add: closed_def pieces_open)
next
  case (Ref x i e)
  let ?r = "drop (e + 1) (drop (i + 2) x)"
  have p: "pieces x = TextPiece (take i x) # RefPiece (take e (drop (i + 2) x)) # pieces ?r"
    using Ref.hyps by (simp add: pieces_ref)
  have q: "pieces (x @ y) = TextPiece (take i x) # RefPiece (take e (drop (i + 2) x)) # pieces (?r @ y)"
    using append_ref [OF Ref.hyps(2,3)] .
  have "closed ?r" using Ref.prems(1) p by (simp add: closed_def)
  moreover have "no_seam ?r y"
    using Ref.prems(2) by (auto simp: no_seam_def last_drop simp del: drop_drop)
  ultimately have IH: "template keys (?r @ y) = opt_append (template keys ?r) (template keys y)"
    "closed (?r @ y) \<longleftrightarrow> closed y"
    using Ref.IH by auto
  have "closed (x @ y) \<longleftrightarrow> closed y" using IH(2) q by (simp add: closed_def)
  moreover have "template keys (x @ y) = opt_append (template keys x) (template keys y)"
  proof -
    have ref: "template keys z = opt_append
        (if resolve_ref keys n = None then None
         else Some (elems False t @ map Lit (the (resolve_ref keys n)))) (template keys r)"
      if "pieces z = TextPiece t # RefPiece n # pieces r" for z t n r
      using that by (auto simp: template_def)
    show ?thesis unfolding ref [OF p] ref [OF q] IH(1) by simp
  qed
  ultimately show ?case by simp
qed simp

text \<open>
  The state of the split loop: everything before the current component has been cut at plain
  colons, and the current component is either closed or ends inside an open reference.
\<close>

definition split_inv :: "string \<Rightarrow> nat \<Rightarrow> nat \<Rightarrow> bool \<Rightarrow> string list \<Rightarrow> bool" where
  "split_inv s i start inVariable parts =
     (let cur = take (i - start) (drop start s) in
      start \<le> i \<and> i \<le> length s \<and> length parts \<le> 5 \<and>
      (\<forall>p\<in>set parts. closed p) \<and> join '':'' (parts @ [drop start s]) = s \<and>
      (if inVariable then \<exists>x n. cur = x @ ''${'' @ n \<and> closed x \<and> CHR ''}'' \<notin> set n
       else closed cur \<and> no_seam cur (drop i s)))"

lemma closed_ref: "CHR ''}'' \<notin> set n \<Longrightarrow> closed (''${'' @ n @ ''}'')"
proof -
  assume n: "CHR ''}'' \<notin> set n"
  let ?s = "''${'' @ n @ ''}''"
  have "index_of ?s VariablePrefix = Some 0" by (simp add: VariablePrefix_def)
  moreover have "index_byte (drop (0 + 2) ?s) (CHR ''}'') = Some (length n)"
    using index_byte_append [OF n, of "[]"] by simp
  ultimately have "pieces ?s = TextPiece [] # RefPiece n # pieces []"
    by (subst pieces_ref) auto
  then show ?thesis by (simp add: closed_def)
qed

lemma closed_close_ref: "closed x \<Longrightarrow> CHR ''}'' \<notin> set n \<Longrightarrow> closed (x @ ''${'' @ n @ ''}'')"
  using closed_append [of x "''${'' @ n @ ''}''"] closed_ref [of n] by (simp add: no_seam_def)

lemma closed_byte:
  "closed x \<Longrightarrow> no_seam x [c] \<Longrightarrow> closed (x @ [c])"
  using closed_append [of x "[c]"] pieces_text_byte [of c "[]"] by (simp add: VariablePrefix_def)

lemma take_grow: "start \<le> i \<Longrightarrow> i < length s \<Longrightarrow>
  take (i + 1 - start) (drop start s) = take (i - start) (drop start s) @ [s ! i]"
  by (simp add: Suc_diff_le take_Suc_conv_app_nth)

lemma take_grow2:
  assumes "start \<le> i" and "has_prefix (drop i s) VariablePrefix"
  shows "take (i + 2 - start) (drop start s) = take (i - start) (drop start s) @ ''${'' \<and> i + 2 \<le> length s"
proof -
  from assms(2) obtain t where t: "drop i s = ''${'' @ t"
    by (auto simp: VariablePrefix_def elim!: has_prefixE)
  from arg_cong [OF t, of length] have len: "i + 2 \<le> length s" by simp
  have "take (i + 2 - start) (drop start s) =
      take (i - start) (drop start s) @ take 2 (drop (i - start) (drop start s))"
    using assms(1) by (metis Nat.add_diff_assoc2 take_add)
  also have "drop (i - start) (drop start s) = drop i s" using assms(1) by simp
  finally show ?thesis using t len by simp
qed

lemma join_snoc_split:
  "join [b] (ps @ [x @ b # y]) = join [b] (ps @ [x, y])"
  by (induction "[b]" ps rule: join.induct) (auto simp: join_Cons)

lemma split_arn_loop_inv:
  "split_inv s i start inVariable parts \<Longrightarrow>
   split_arn_loop s i start inVariable parts = (start', parts') \<Longrightarrow>
   (\<forall>p\<in>set parts'. closed p) \<and> join '':'' (parts' @ [drop start' s]) = s \<and> length parts' \<le> 5"
proof (induction s i start inVariable parts rule: split_arn_loop.induct)
  case (1 s i start inVariable parts)
  let ?cur = "take (i - start) (drop start s)"
  note unfold = split_arn_loop.simps [of s i start inVariable parts]
  note inv = "1.prems"(1) [unfolded split_inv_def Let_def]
  show ?case
  proof (cases "i < length s \<and> length parts < arnComponents - 1")
    case False
    then have "start' = start" "parts' = parts" using "1.prems"(2) unfold by auto
    then show ?thesis using inv by simp
  next
    case go: True
    then have lt: "i < length s" by simp
    have seam: "no_seam (?cur @ [s ! i]) (drop (i + 1) s)"
      if "\<not> has_prefix (drop i s) VariablePrefix"
      using that lt drop_Cons_nth [OF lt]
      by (cases "drop (i + 1) s") (auto simp: no_seam_def VariablePrefix_def)
    consider (ref) "has_prefix (drop i s) VariablePrefix"
      | (close) "\<not> has_prefix (drop i s) VariablePrefix" "inVariable \<and> s ! i = CHR ''}''"
      | (colon) "\<not> has_prefix (drop i s) VariablePrefix" "\<not> inVariable \<and> s ! i = CHR '':''"
      | (other) "\<not> has_prefix (drop i s) VariablePrefix" "\<not> (inVariable \<and> s ! i = CHR ''}'')"
          "\<not> (\<not> inVariable \<and> s ! i = CHR '':'')"
      by blast
    then show ?thesis
    proof cases
      case ref
      have grow: "take (i + 2 - start) (drop start s) = ?cur @ ''${''" "i + 2 \<le> length s"
        using take_grow2 [of start i s] inv ref by auto
      have "\<exists>x n. ?cur @ ''${'' = x @ ''${'' @ n \<and> closed x \<and> CHR ''}'' \<notin> set n"
      proof (cases inVariable)
        case True
        then obtain x n where "?cur = x @ ''${'' @ n" "closed x" "CHR ''}'' \<notin> set n"
          using inv by auto
        then have "?cur @ ''${'' = x @ ''${'' @ (n @ ''${'')" "CHR ''}'' \<notin> set (n @ ''${'')" by auto
        then show ?thesis using \<open>closed x\<close> by blast
      next
        case False
        then have "closed ?cur" using inv by auto
        moreover have "?cur @ ''${'' = ?cur @ ''${'' @ []" by simp
        ultimately show ?thesis by (metis empty_iff empty_set)
      qed
      then have "split_inv s (i + 2) start True parts"
        using inv grow unfolding split_inv_def Let_def by simp
      then show ?thesis using "1.IH"(1) [OF go ref] "1.prems"(2) go ref unfold by simp
    next
      case close
      then obtain x n where xn: "?cur = x @ ''${'' @ n" "closed x" "CHR ''}'' \<notin> set n"
        using inv by auto
      then have "closed (?cur @ [s ! i])" using closed_close_ref [of x n] close by simp
      then have "split_inv s (i + 1) start False parts"
        using inv lt take_grow [of start i s] seam close unfolding split_inv_def Let_def by auto
      then show ?thesis using "1.IH"(2) [OF go close] "1.prems"(2) go close unfold by simp
    next
      case colon
      have "drop start s = ?cur @ CHR '':'' # drop (i + 1) s"
        using inv colon drop_Cons_nth [OF lt] take_drop_split [of start i s] by simp
      then have "join '':'' (parts @ [?cur] @ [drop (i + 1) s]) = s"
        using inv join_snoc_split [of "CHR '':''" parts ?cur "drop (i + 1) s"] by simp
      then have "split_inv s (i + 1) (i + 1) inVariable (parts @ [?cur])"
        using inv go colon unfolding split_inv_def Let_def by (auto simp: no_seam_def arnComponents_def)
      then show ?thesis using "1.IH"(3) [OF go colon(1) _ colon(2)] "1.prems"(2) go colon unfold by simp
    next
      case other
      have "split_inv s (i + 1) start inVariable parts"
      proof (cases inVariable)
        case True
        then obtain x n where "?cur = x @ ''${'' @ n" "closed x" "CHR ''}'' \<notin> set n"
          using inv by auto
        then have "take (i + 1 - start) (drop start s) = x @ ''${'' @ (n @ [s ! i])"
          "closed x" "CHR ''}'' \<notin> set (n @ [s ! i])"
          using True other inv lt take_grow [of start i s] by auto
        then have "\<exists>x n. take (i + 1 - start) (drop start s) = x @ ''${'' @ n \<and> closed x \<and>
            CHR ''}'' \<notin> set n"
          by blast
        then show ?thesis using True inv lt unfolding split_inv_def Let_def by simp
      next
        case False
        then have "closed ?cur" "no_seam ?cur (drop i s)" using inv by auto
        then have "closed (?cur @ [s ! i])"
          using drop_Cons_nth [OF lt] by (intro closed_byte) (auto simp: no_seam_def)
        then show ?thesis
          using False inv lt take_grow [of start i s] seam other unfolding split_inv_def Let_def by auto
      qed
      moreover have "split_arn_loop s i start inVariable parts = split_arn_loop s (i + 1) start inVariable parts"
        unfolding unfold using go other by (simp only: if_True if_False simp_thms)
      ultimately show ?thesis using "1.IH"(4) [OF go other] "1.prems"(2) by simp
    qed
  qed
qed

text \<open>\<open>SplitARN\<close> cuts its input at five plain colons: six components that join back to it.\<close>

lemma SplitARN_parts:
  assumes "SplitARN s = Some ps"
  shows "length ps = 6 \<and> join '':'' ps = s \<and> (\<forall>p\<in>set (butlast ps). closed p)"
proof -
  obtain start parts where run: "split_arn_loop s 0 0 False [] = (start, parts)"
    by (cases "split_arn_loop s 0 0 False []") auto
  have "split_inv s 0 0 False []" by (simp add: split_inv_def no_seam_def)
  from split_arn_loop_inv [OF this run]
  have inv: "\<forall>p\<in>set parts. closed p" "join '':'' (parts @ [drop start s]) = s" "length parts \<le> 5"
    by auto
  from assms run have "length parts \<ge> 5" "ps = parts @ [drop start s]"
    by (auto simp: SplitARN_def arnComponents_def split: if_splits)
  with inv show ?thesis by (simp only: butlast_snoc length_append_singleton) simp
qed

fun join_templates :: "glob_elem list option list \<Rightarrow> glob_elem list option" where
  "join_templates [] = Some []"
| "join_templates [t] = t"
| "join_templates (t # u # ts) = opt_append t (opt_append (Some [Lit (CHR '':'')]) (join_templates (u # ts)))"

lemma template_join:
  "ps \<noteq> [] \<Longrightarrow> \<forall>p\<in>set (butlast ps). closed p \<Longrightarrow>
   template keys (join '':'' ps) = join_templates (map (template keys) ps)"
proof (induction "'':''" ps rule: join.induct)
  case (3 w x ws)
  let ?r = "join '':'' (x # ws)"
  have "template keys (CHR '':'' # ?r) = opt_append (Some [Lit (CHR '':'')]) (template keys ?r)"
    using pieces_text_byte [of "CHR '':''" ?r keys] by (simp add: VariablePrefix_def)
  moreover have "template keys (w @ CHR '':'' # ?r) =
      opt_append (template keys w) (template keys (CHR '':'' # ?r))"
    using closed_append [of w "CHR '':'' # ?r" keys] 3 by (simp add: no_seam_def)
  moreover have "template keys ?r = join_templates (map (template keys) (x # ws))"
    using 3 by simp
  ultimately show ?case by simp
qed simp_all

lemma opt_append_None: "opt_append a b = None \<longleftrightarrow> a = None \<or> b = None"
  by (cases a; cases b) auto

lemma join_templates_None: "join_templates ts = None \<longleftrightarrow> None \<in> set ts"
  by (induction ts rule: join_templates.induct) (auto simp: opt_append_None)

lemma SplitARN_template:
  assumes "SplitARN s = Some ps"
  shows "template keys s = join_templates (map (template keys) ps)"
proof -
  from SplitARN_parts [OF assms] have "ps \<noteq> []" "\<forall>p\<in>set (butlast ps). closed p" "join '':'' ps = s"
    by auto
  then show ?thesis using template_join [of ps keys] by simp
qed

lemma SplitARN_no_unresolved:
  "SplitARN s = Some ps \<Longrightarrow> template keys s \<noteq> None \<Longrightarrow> p \<in> set ps \<Longrightarrow> template keys p \<noteq> None"
  using SplitARN_template [of s ps keys] join_templates_None [of "map (template keys) ps"]
  by (metis image_eqI image_set)

section \<open>Matching ARNs\<close>

definition component_match :: "condition_keys \<Rightarrow> string \<Rightarrow> string \<Rightarrow> bool" where
  "component_match keys p v = (case template keys p of None \<Rightarrow> False | Some es \<Rightarrow> globs es v)"

lemma list_all_upt_nth:
  "length xs = length ys \<Longrightarrow> list_all (\<lambda>i. P (xs ! i) (ys ! i)) [0..<length xs] = list_all2 P xs ys"
  by (auto simp: list_all_iff list_all2_conv_all_nth)

lemma matchARN_template:
  "matchARN pattern val keys failClosed =
     (if template keys pattern = None then failClosed
      else case SplitARN pattern of
        None \<Rightarrow> False
      | Some ps \<Rightarrow>
          (let vs = splitn_byte 6 (CHR '':'') val
           in if length vs < 6 then failClosed else list_all2 (component_match keys) ps vs))"
proof (cases "template keys pattern = None \<or> SplitARN pattern = None \<or>
    length (splitn_byte 6 (CHR '':'') val) < 6")
  case True
  then show ?thesis
    by (auto simp: matchARN_def unresolvable_iff_template arnComponents_def Let_def split: option.splits)
next
  case False
  then obtain ps where ps: "SplitARN pattern = Some ps" by auto
  let ?vs = "splitn_byte 6 (CHR '':'') val"
  have len: "length ps = length ?vs"
    using SplitARN_parts [OF ps] splitn_byte_length [of 6 "CHR '':''" val] False by simp
  have match: "matchPattern p v keys failClosed = component_match keys p v" if "p \<in> set ps" for p v
    using SplitARN_no_unresolved [OF ps _ that, of keys] False
    by (auto simp: matchPattern_template component_match_def split: option.splits)
  have "list_all2 (\<lambda>p v. matchPattern p v keys failClosed) ps ?vs = list_all2 (component_match keys) ps ?vs"
    using match by (intro list.rel_cong refl) auto
  then show ?thesis using False ps len
    by (auto simp: matchARN_def unresolvable_iff_template arnComponents_def Let_def
        simp flip: list_all_upt_nth [where P = "\<lambda>p v. matchPattern p v keys failClosed", OF len])
qed

lemma component_match_mono:
  "keys \<subseteq>\<^sub>m keys' \<Longrightarrow> component_match keys p v \<Longrightarrow> component_match keys' p v"
  by (auto simp: component_match_def split: option.splits dest: template_mono)

lemma component_match_eq:
  "keys \<subseteq>\<^sub>m keys' \<Longrightarrow> template keys p \<noteq> None \<Longrightarrow> component_match keys' p v = component_match keys p v"
  by (auto simp: component_match_def split: option.splits dest: template_mono)

lemma matchARN_ext:
  assumes le: "keys \<subseteq>\<^sub>m keys'" and t: "template keys pattern \<noteq> None"
  shows "matchARN pattern val keys' fc = matchARN pattern val keys fc"
proof -
  have t': "template keys' pattern \<noteq> None" using t template_mono [OF le] by auto
  have "list_all2 (component_match keys') ps vs = list_all2 (component_match keys) ps vs"
    if "SplitARN pattern = Some ps" for ps vs
    using SplitARN_no_unresolved [OF that t] component_match_eq [OF le]
    by (intro list.rel_cong refl) auto
  then show ?thesis using t t'
    by (cases "SplitARN pattern") (auto simp: matchARN_template Let_def)
qed

lemma matchARN_flag_mono: "matchARN pattern val keys False \<Longrightarrow> matchARN pattern val keys fc"
  by (auto simp: matchARN_template Let_def split: if_splits option.splits)

lemma matchARN_flag_mono': "matchARN pattern val keys fc \<Longrightarrow> matchARN pattern val keys True"
  by (auto simp: matchARN_template Let_def split: if_splits option.splits)

lemma matchARN_unresolved: "template keys pattern = None \<Longrightarrow> matchARN pattern val keys fc = fc"
  by (simp add: matchARN_template)

interpretation arn_match: fail_closed "\<lambda>keys fc p v. matchARN p v keys fc"
proof unfold_locales
  fix keys keys' :: condition_keys and p v fc
  assume le: "keys \<subseteq>\<^sub>m keys'"
  show "matchARN p v keys False \<Longrightarrow> matchARN p v keys' fc"
    using matchARN_ext [OF le] matchARN_unresolved [of keys p v False] matchARN_flag_mono
    by (cases "template keys p = None") auto
  show "matchARN p v keys' fc \<Longrightarrow> matchARN p v keys True"
    using matchARN_ext [OF le] matchARN_unresolved [of keys p v True] matchARN_flag_mono'
    by (cases "template keys p = None") auto
qed

text \<open>Component-wise matching is stricter than matching the whole string.\<close>

lemma globs_join:
  "list_all2 (component_match keys) ps vs \<Longrightarrow> ps \<noteq> [] \<Longrightarrow>
   \<exists>es. join_templates (map (template keys) ps) = Some es \<and> globs es (join '':'' vs)"
proof (induction ps arbitrary: vs rule: induct_list012)
  case (2 p)
  then show ?case by (auto simp: list_all2_Cons1 component_match_def split: option.splits)
next
  case (3 p q ps)
  then obtain v w vs' where vs: "vs = v # w # vs'" "component_match keys p v"
    "list_all2 (component_match keys) (q # ps) (w # vs')"
    by (auto simp: list_all2_Cons1)
  with 3 obtain fs where fs: "join_templates (map (template keys) (q # ps)) = Some fs"
    "globs fs (join '':'' (w # vs'))" by blast
  from vs obtain es where es: "template keys p = Some es" "globs es v"
    by (auto simp: component_match_def split: option.splits)
  have "globs (es @ Lit (CHR '':'') # fs) (v @ CHR '':'' # join '':'' (w # vs'))"
    using es(2) fs(2) globs_append [of es "Lit (CHR '':'') # fs"] by force
  then show ?case using es fs vs by simp
qed simp

section \<open>Properties\<close>

lemma template_reference:
  assumes k: "substitutableKeys k" and v: "keys k = Some v"
    and pre: "\<not> contains pre VariablePrefix" and suf: "\<not> contains suf VariablePrefix"
  shows "template keys (pre @ ''${'' @ k @ ''}'' @ suf) = Some (elems False pre @ map Lit v @ elems False suf)"
proof -
  have sub: "CHR ''}'' \<notin> set k" "literalVariables k = None"
    using k by (auto simp: substitutableKeys_def key_defs literalVariables_def)
  let ?r = "''${'' @ k @ ''}'' @ suf"
  have idx: "index_of ?r VariablePrefix = Some 0" by (simp add: VariablePrefix_def)
  have "index_byte (drop (0 + 2) ?r) (CHR ''}'') = Some (length k)"
    using sub(1) by (induction k) auto
  from pieces_ref [OF idx this] have "pieces ?r = TextPiece [] # RefPiece k # pieces suf" by simp
  then have "template keys ?r = Some (map Lit v @ elems False suf)"
    using k v sub(2) suf by (simp add: template_def pieces_literal resolve_ref_def)
  moreover have "template keys (pre @ ?r) = opt_append (Some (elems False pre)) (template keys ?r)"
    using append_text [of pre ?r keys] pre by (simp add: contains_def no_seam_def)
  ultimately show ?thesis by simp
qed

text \<open>C7: A substituted value never acts as a wildcard: a pattern with a reference to a supplied key
  matches exactly the values that spell the key's value, byte for byte, at the reference, with the
  pattern's own wildcards active around it.\<close>
theorem variable_value_is_literal:
  assumes "substitutableKeys k" and "keys k = Some v"
    and "\<not> contains pre VariablePrefix" and "\<not> contains suf VariablePrefix"
  shows "matchPattern (pre @ ''${'' @ k @ ''}'' @ suf) val keys failClosed =
    globs (elems False pre @ map Lit v @ elems False suf) val"
  using template_reference [where k = k and keys = keys and v = v, OF assms]
  by (simp only: matchPattern_template option.case)

theorem variable_value_is_literal_witness:
  "\<not> matchPattern ''home/${aws:username}/*'' ''home/alice/x'' [KeyUsername \<mapsto> ''*''] False"
proof -
  have "matchPattern (''home/'' @ ''${'' @ KeyUsername @ ''}'' @ ''/*'') ''home/alice/x'' [KeyUsername \<mapsto> ''*''] False =
      globs (elems False ''home/'' @ map Lit ''*'' @ elems False ''/*'') ''home/alice/x''"
    by (rule variable_value_is_literal) (simp_all add: substitutableKeys_def contains_def VariablePrefix_def)
  then show ?thesis by (simp add: KeyUsername_def)
qed

lemma matchPattern_no_flag: "matchPattern p v keys False = component_match keys p v"
  by (simp add: matchPattern_template component_match_def)

text \<open>ARN matching is component by component: the pattern is split at its first five colons outside
  references, the value at its first five colons, and each part matches its part, so a wildcard never
  crosses a colon outside the resource component.\<close>
theorem arn_matches_componentwise:
  "matchARN pattern val keys False \<longleftrightarrow>
     (\<exists>ps. SplitARN pattern = Some ps \<and> length ps = 6 \<and> join '':'' ps = pattern \<and>
        list_all2 (\<lambda>p v. matchPattern p v keys False) ps (splitn_byte 6 (CHR '':'') val))"
proof (cases "SplitARN pattern")
  case (Some ps)
  let ?vs = "splitn_byte 6 (CHR '':'') val"
  have resolved: "template keys pattern \<noteq> None" if "list_all2 (component_match keys) ps ?vs"
  proof -
    have "template keys p \<noteq> None" if "p \<in> set ps" for p
    proof -
      from that obtain i where "i < length ps" "p = ps ! i" by (auto simp: in_set_conv_nth)
      then have "component_match keys p (?vs ! i)"
        using \<open>list_all2 (component_match keys) ps ?vs\<close> by (auto simp: list_all2_conv_all_nth)
      then show ?thesis by (auto simp: component_match_def split: option.splits)
    qed
    then have "None \<notin> set (map (template keys) ps)" by force
    then show ?thesis using SplitARN_template [OF Some] join_templates_None by metis
  qed
  have "length ps = 6" using SplitARN_parts [OF Some] by simp
  then have len: "\<not> length ?vs < 6" if "list_all2 (component_match keys) ps ?vs"
    using list_all2_lengthD [OF that] by simp
  have "matchARN pattern val keys False \<longleftrightarrow> list_all2 (component_match keys) ps ?vs"
    unfolding matchARN_template Some option.case Let_def using resolved len by (cases "list_all2 (component_match keys) ps ?vs") simp_all
  then show ?thesis unfolding matchPattern_no_flag using Some SplitARN_parts [OF Some] by simp
qed (simp add: matchARN_template)

end
