(* ===== verification/Ordered.thy ===== *)
theory Ordered
  imports PolicyTypes
begin

text \<open>
  The interface the date and the numeric condition operators share: a parser for the operands, a
  three-way comparison on what it returns, the reading of an operator on the comparison's result,
  and the scan over the policy's values. The Numbers and Dates theories interpret it on
  \<^verbatim>\<open>numericHoldsAny\<close> and \<^verbatim>\<open>dateHoldsAny\<close>.
\<close>

text \<open>\<open>allDigits\<close> of \<^verbatim>\<open>dates.go\<close>, which both parsers call.\<close>

definition allDigits :: "string \<Rightarrow> bool" where
  "allDigits s = (if s = [] then False else list_all is_digit s)"

section \<open>Three-way comparisons\<close>

locale comparison =
  fixes valid :: "'a \<Rightarrow> bool" and cmp :: "'a \<Rightarrow> 'a \<Rightarrow> int"
  assumes cmp_refl: "valid x \<Longrightarrow> cmp x x = 0"
    and cmp_antisym: "valid x \<Longrightarrow> valid y \<Longrightarrow> cmp y x = - cmp x y"
    and cmp_trans: "valid x \<Longrightarrow> valid y \<Longrightarrow> valid z \<Longrightarrow> cmp x y \<le> 0 \<Longrightarrow> cmp y z \<le> 0 \<Longrightarrow> cmp x z \<le> 0"
begin

lemma cmp_eq_sym: "valid x \<Longrightarrow> valid y \<Longrightarrow> cmp x y = 0 \<longleftrightarrow> cmp y x = 0"
  using cmp_antisym [of x y] by auto

lemma cmp_less_swap: "valid x \<Longrightarrow> valid y \<Longrightarrow> cmp x y < 0 \<longleftrightarrow> 0 < cmp y x"
  using cmp_antisym [of x y] by auto

lemma cmp_le_swap: "valid x \<Longrightarrow> valid y \<Longrightarrow> cmp x y \<le> 0 \<longleftrightarrow> 0 \<le> cmp y x"
  using cmp_antisym [of x y] by auto

lemma cmp_less_trans:
  assumes v: "valid x" "valid y" "valid z" and xy: "cmp x y < 0" and yz: "cmp y z \<le> 0"
  shows "cmp x z < 0"
proof (rule ccontr)
  assume "\<not> cmp x z < 0"
  then have "cmp z x \<le> 0" using cmp_antisym [OF v(1,3)] by simp
  with cmp_trans [OF v(2,3,1) yz] have "cmp y x \<le> 0" by simp
  with xy cmp_antisym [OF v(1,2)] show False by simp
qed

end

section \<open>Operators over a comparison\<close>

locale ordered_operators = comparison valid cmp
  for valid :: "'a \<Rightarrow> bool" and cmp :: "'a \<Rightarrow> 'a \<Rightarrow> int" +
  fixes parse :: "string \<Rightarrow> 'a option"
    and compares :: "string \<Rightarrow> int \<Rightarrow> bool"
    and holds_any :: "string \<Rightarrow> string \<Rightarrow> string list \<Rightarrow> bool \<Rightarrow> bool"
    and op_eq op_lt op_le op_gt op_ge :: string
  assumes parse_valid: "parse s = Some x \<Longrightarrow> valid x"
    and holds_any_law: "holds_any oper actual vs fc =
      (case parse actual of None \<Rightarrow> fc
       | Some a \<Rightarrow> list_ex (\<lambda>v. case parse v of None \<Rightarrow> False | Some w \<Rightarrow> compares oper (cmp a w)) vs)"
    and compares_eq: "compares op_eq c = (c = 0)"
    and compares_lt: "compares op_lt c = (c < 0)"
    and compares_le: "compares op_le c = (c \<le> 0)"
    and compares_gt: "compares op_gt c = (0 < c)"
    and compares_ge: "compares op_ge c = (0 \<le> c)"
begin

lemmas compares_simps = compares_eq compares_lt compares_le compares_gt compares_ge

lemma le_is_lt_or_eq:
  "holds_any op_le a vs fc \<longleftrightarrow> holds_any op_lt a vs fc \<or> holds_any op_eq a vs fc"
proof (cases "parse a")
  case (Some x)
  then show ?thesis
    by (induction vs) (auto simp: holds_any_law compares_simps order_le_less split: option.splits)
qed (simp add: holds_any_law)

lemma ge_is_gt_or_eq:
  "holds_any op_ge a vs fc \<longleftrightarrow> holds_any op_gt a vs fc \<or> holds_any op_eq a vs fc"
proof (cases "parse a")
  case (Some x)
  then show ?thesis
    by (induction vs) (auto simp: holds_any_law compares_simps order_le_less split: option.splits)
qed (simp add: holds_any_law)

lemma swap:
  assumes "parse a = Some x" and "parse b = Some y"
  shows "holds_any op_lt a [b] fc \<longleftrightarrow> holds_any op_gt b [a] fc"
    and "holds_any op_le a [b] fc \<longleftrightarrow> holds_any op_ge b [a] fc"
    and "holds_any op_eq a [b] fc \<longleftrightarrow> holds_any op_eq b [a] fc"
  using assms cmp_antisym [of x y] parse_valid
  by (auto simp: holds_any_law compares_simps)

lemma trichotomy:
  assumes "parse a = Some x" and "parse b = Some y"
  shows "(holds_any op_le a [b] fc \<longleftrightarrow> \<not> holds_any op_gt a [b] fc) \<and>
    (holds_any op_ge a [b] fc \<longleftrightarrow> \<not> holds_any op_lt a [b] fc) \<and>
    (holds_any op_lt a [b] fc \<longrightarrow> \<not> holds_any op_eq a [b] fc)"
  using assms by (auto simp: holds_any_law compares_simps)

lemma transitive:
  assumes "parse a = Some x" and "parse b = Some y" and "parse c = Some z"
    and "holds_any op_lt a [b] fc" and "holds_any op_le b [c] fc"
  shows "holds_any op_lt a [c] fc"
  using assms cmp_less_trans [of x y z] parse_valid by (auto simp: holds_any_law compares_simps)

text \<open>Policy values that do not parse match nothing; a request value that does not parse takes the flag.\<close>

lemma bad_value: "parse b = None \<Longrightarrow> parse a = Some x \<Longrightarrow> holds_any oper a (b # vs) fc = holds_any oper a vs fc"
  by (simp add: holds_any_law)

lemma bad_actual: "parse a = None \<Longrightarrow> holds_any oper a vs fc = fc"
  by (simp add: holds_any_law)

lemma flag_only_unparseable: "parse a = Some x \<Longrightarrow> holds_any oper a vs fc = holds_any oper a vs fc'"
  by (simp add: holds_any_law)

lemma flag_mono: "holds_any oper a vs False \<Longrightarrow> holds_any oper a vs fc"
  by (auto simp: holds_any_law split: option.splits)

lemma flag_mono': "holds_any oper a vs fc \<Longrightarrow> holds_any oper a vs True"
  by (auto simp: holds_any_law split: option.splits)

end

end
