(* ===== verification/Numbers.thy ===== *)
theory Numbers
  imports Ordered Complex_Main
begin

text \<open>
  The exact decimals of \<^verbatim>\<open>pkg/iampolicy/numbers.go\<close>: \<open>ParseNumber\<close>, \<open>Compare\<close> and the numeric
  condition operators. The reference is the rational number a \<open>Number\<close> denotes. Go's int64 is
  modelled as \<open>int\<close>: the parsed exponent fits 32 bits and the string lengths fit the address space,
  so no int64 operation of this file can wrap.
\<close>

section \<open>The code\<close>

record number =
  num_neg :: bool
  num_digits :: string
  num_exp :: int

definition number_zero :: number where
  "number_zero = \<lparr>num_neg = False, num_digits = [], num_exp = 0\<rparr>"

definition MinInt32 :: int where "MinInt32 = -2147483648"
definition MaxInt32 :: int where "MaxInt32 = 2147483647"

definition ParseNumber :: "string \<Rightarrow> number option" where
  "ParseNumber s =
     (let signed = (s \<noteq> [] \<and> (hd s = CHR ''+'' \<or> hd s = CHR ''-''));
          neg = (signed \<and> hd s = CHR ''-'');
          s' = (if signed then tl s else s);
          (mantissa, exponent, hasExp) = cut (replace_all s' ''E'' ''e'') ''e'';
          (whole, frac, _) = cut mantissa ''.'';
          mant = whole @ frac
      in if \<not> allDigits mant then None
         else (case (if hasExp then parse_int 32 exponent else Some 0) of
             None \<Rightarrow> None
           | Some e \<Rightarrow>
               (let scale = int (length frac) - e
                in if scale < MinInt32 \<or> MaxInt32 < scale then None
                   else (let digits = trim_left mant (CHR ''0'');
                             trimmed = trim_right digits (CHR ''0'')
                         in if trimmed = [] then Some number_zero
                            else Some \<lparr>num_neg = neg, num_digits = trimmed,
                                       num_exp = int (length digits - length trimmed) - scale\<rparr>))))"

definition number_sign :: "number \<Rightarrow> int" where
  "number_sign n = (if num_digits n = [] then 0 else if num_neg n then -1 else 1)"

definition magnitudeCompare :: "number \<Rightarrow> number \<Rightarrow> int" where
  "magnitudeCompare n m =
     (let nTop = int (length (num_digits n)) + num_exp n;
          mTop = int (length (num_digits m)) + num_exp m
      in if nTop < mTop then -1 else if mTop < nTop then 1
         else compare_bytes (num_digits n) (num_digits m))"

definition number_compare :: "number \<Rightarrow> number \<Rightarrow> int" where
  "number_compare n m =
     (if number_sign n \<noteq> number_sign m then (if number_sign n < number_sign m then -1 else 1)
      else if num_digits n = [] then 0
      else (let cmp = magnitudeCompare n m in if num_neg n then - cmp else cmp))"

definition numericCompares :: "string \<Rightarrow> int \<Rightarrow> bool" where
  "numericCompares operator cmp =
     (if operator = OpNumericEquals then cmp = 0
      else if operator = OpNumericLessThan then cmp < 0
      else if operator = OpNumericLessThanEquals then cmp \<le> 0
      else if operator = OpNumericGreaterThan then cmp > 0
      else if operator = OpNumericGreaterThanEquals then cmp \<ge> 0
      else False)"

definition numericHoldsAny :: "string \<Rightarrow> string \<Rightarrow> string list \<Rightarrow> bool \<Rightarrow> bool" where
  "numericHoldsAny operator actual vs failClosed =
     (case ParseNumber actual of
        None \<Rightarrow> failClosed
      | Some got \<Rightarrow> list_ex (\<lambda>v. case ParseNumber v of
            None \<Rightarrow> False
          | Some want \<Rightarrow> numericCompares operator (number_compare got want)) vs)"

section \<open>The number a value denotes\<close>

definition decimal_value :: "bool \<Rightarrow> string \<Rightarrow> int \<Rightarrow> rat" where
  "decimal_value neg ds e = (if neg then -1 else 1) * of_nat (digits_nat ds) * 10 powi e"

definition number_value :: "number \<Rightarrow> rat" where
  "number_value n = decimal_value (num_neg n) (num_digits n) (num_exp n)"

text \<open>The representation invariant: digits only, no leading and no trailing zero, one zero.\<close>

definition number_wf :: "number \<Rightarrow> bool" where
  "number_wf n \<longleftrightarrow> list_all is_digit (num_digits n) \<and>
     (if num_digits n = [] then n = number_zero
      else hd (num_digits n) \<noteq> CHR ''0'' \<and> last (num_digits n) \<noteq> CHR ''0'')"

text \<open>The digits read as a fraction \<open>0.d1d2...\<close>.\<close>

definition fraction :: "string \<Rightarrow> rat" where
  "fraction ds = of_nat (digits_nat ds) / 10 ^ length ds"

lemma fraction_Nil [simp]: "fraction [] = 0"
  by (simp add: fraction_def)

lemma fraction_Cons: "fraction (d # ds) = (of_nat (digit_val d) + fraction ds) / 10"
  by (simp add: fraction_def digits_nat_Cons field_simps)

lemma fraction_range: "list_all is_digit ds \<Longrightarrow> 0 \<le> fraction ds \<and> fraction ds < 1"
proof (induction ds)
  case (Cons d ds)
  have "digit_val d \<le> 9" using Cons.prems digit_val_less [of d] by simp
  then have "(of_nat (digit_val d) :: rat) \<le> 9" by (metis of_nat_le_iff of_nat_numeral)
  then show ?case using Cons by (simp add: fraction_Cons)
qed simp

lemma digit_val_0: "is_digit d \<Longrightarrow> digit_val d = 0 \<longleftrightarrow> d = CHR ''0''"
  using digit_val_inject [of d "CHR ''0''"] by (auto simp: digit_val_def is_digit_def byte_def)

lemma fraction_pos:
  "list_all is_digit ds \<Longrightarrow> ds \<noteq> [] \<Longrightarrow> last ds \<noteq> CHR ''0'' \<Longrightarrow> 0 < fraction ds"
proof (induction ds)
  case (Cons d ds)
  show ?case
  proof (cases "ds = []")
    case True
    then have "digit_val d \<noteq> 0" using Cons.prems digit_val_0 by simp
    then show ?thesis using True by (simp add: fraction_Cons)
  next
    case False
    then have "0 < fraction ds" using Cons by simp
    then show ?thesis by (simp add: fraction_Cons add_nonneg_pos)
  qed
qed simp

lemma fraction_ge_tenth:
  assumes "list_all is_digit ds" and "ds \<noteq> []" and "hd ds \<noteq> CHR ''0''"
  shows "1 / 10 \<le> fraction ds"
proof -
  from assms obtain d es where ds: "ds = d # es" by (cases ds) auto
  then have "1 \<le> digit_val d" using assms digit_val_0 [of d] by simp
  then have "(1 :: rat) \<le> of_nat (digit_val d)" by (metis of_nat_1 of_nat_le_iff)
  then show ?thesis using fraction_range [of es] assms ds by (simp add: fraction_Cons)
qed

lemma fraction_less:
  "list_all is_digit ds \<Longrightarrow> list_all is_digit es \<Longrightarrow> (es = [] \<or> last es \<noteq> CHR ''0'') \<Longrightarrow>
   compare_bytes ds es < 0 \<Longrightarrow> fraction ds < fraction es"
proof (induction ds es rule: compare_bytes.induct)
  case (2 d t)
  then show ?case using fraction_pos [of "d # t"] by simp
next
  case (4 c s d t)
  show ?case
  proof (cases "byte c < byte d")
    case True
    then have "digit_val c < digit_val d" using 4 digit_val_less_iff by simp
    then have "(of_nat (digit_val c) + 1 :: rat) \<le> of_nat (digit_val d)"
      by (metis Suc_leI of_nat_Suc of_nat_le_iff add.commute)
    then show ?thesis using 4 fraction_range [of s] fraction_range [of t] by (simp add: fraction_Cons)
  next
    case False
    then have "c = d" "compare_bytes s t < 0" using 4 by (auto split: if_splits)
    moreover from this have "t \<noteq> [] " by (cases t; cases s) auto
    ultimately show ?thesis using 4 False by (simp add: fraction_Cons)
  qed
qed auto

lemma value_fraction:
  "decimal_value neg ds e = (if neg then -1 else 1) * fraction ds * 10 powi (int (length ds) + e)"
  by (simp add: decimal_value_def fraction_def power_int_add)

lemma powi_less_step: "m < n \<Longrightarrow> (10 :: rat) powi m \<le> 10 powi n / 10"
proof -
  assume "m < n"
  then have "(10 :: rat) powi m \<le> 10 powi (n - 1)" by (intro power_int_increasing) auto
  also have "\<dots> = 10 powi n / 10" by (simp add: power_int_diff)
  finally show ?thesis .
qed

section \<open>Comparison is comparison of values\<close>

lemma number_wfD:
  assumes "number_wf n" and "num_digits n \<noteq> []"
  shows "list_all is_digit (num_digits n)" "1 / 10 \<le> fraction (num_digits n)"
    "fraction (num_digits n) < 1" "last (num_digits n) \<noteq> CHR ''0''"
  using assms fraction_ge_tenth [of "num_digits n"] fraction_range [of "num_digits n"]
  by (auto simp: number_wf_def)

definition magnitude :: "number \<Rightarrow> rat" where
  "magnitude n = fraction (num_digits n) * 10 powi (int (length (num_digits n)) + num_exp n)"

lemma number_value_magnitude: "number_value n = (if num_neg n then - magnitude n else magnitude n)"
  by (simp add: number_value_def value_fraction magnitude_def)

lemma magnitude_pos: "number_wf n \<Longrightarrow> num_digits n \<noteq> [] \<Longrightarrow> 0 < magnitude n"
  using number_wfD [of n] by (simp add: magnitude_def)

lemma magnitude_less_top:
  assumes n: "number_wf n" "num_digits n \<noteq> []" and m: "number_wf m" "num_digits m \<noteq> []"
    and top: "int (length (num_digits n)) + num_exp n < int (length (num_digits m)) + num_exp m"
  shows "magnitude n < magnitude m"
proof -
  let ?a = "int (length (num_digits n)) + num_exp n" and ?b = "int (length (num_digits m)) + num_exp m"
  have "magnitude n < 10 powi ?a" using number_wfD [OF n] by (simp add: magnitude_def)
  also have "\<dots> \<le> 10 powi ?b / 10" using top by (rule powi_less_step)
  also have "\<dots> \<le> magnitude m"
    using number_wfD(2) [OF m] by (simp add: magnitude_def field_simps)
  finally show ?thesis .
qed

lemma magnitudeCompare_less:
  assumes n: "number_wf n" "num_digits n \<noteq> []" and m: "number_wf m" "num_digits m \<noteq> []"
    and less: "magnitudeCompare n m < 0"
  shows "magnitude n < magnitude m"
proof (cases "int (length (num_digits n)) + num_exp n < int (length (num_digits m)) + num_exp m")
  case True
  then show ?thesis by (rule magnitude_less_top [OF n m])
next
  case False
  with less have "int (length (num_digits n)) + num_exp n = int (length (num_digits m)) + num_exp m"
    and "compare_bytes (num_digits n) (num_digits m) < 0"
    by (auto simp: magnitudeCompare_def Let_def split: if_splits)
  then show ?thesis
    using fraction_less [of "num_digits n" "num_digits m"] number_wfD [OF n] number_wfD [OF m]
    by (simp add: magnitude_def)
qed

lemma magnitudeCompare_antisym: "magnitudeCompare m n = - magnitudeCompare n m"
  using compare_bytes_antisym [of "num_digits m" "num_digits n"]
  by (simp add: magnitudeCompare_def Let_def)

lemma compare_bytes_range: "compare_bytes s t \<in> {-1, 0, 1}"
  by (induction s t rule: compare_bytes.induct) auto

lemma magnitudeCompare_range: "magnitudeCompare n m \<in> {-1, 0, 1}"
  using compare_bytes_range by (simp add: magnitudeCompare_def Let_def)

lemma magnitudeCompare_eq:
  "magnitudeCompare n m = 0 \<longleftrightarrow> num_digits n = num_digits m \<and> num_exp n = num_exp m"
  by (auto simp: magnitudeCompare_def Let_def)

definition rat_compare :: "rat \<Rightarrow> rat \<Rightarrow> int" where
  "rat_compare x y = (if x < y then -1 else if x = y then 0 else 1)"

lemma magnitudeCompare_correct:
  assumes n: "number_wf n" "num_digits n \<noteq> []" and m: "number_wf m" "num_digits m \<noteq> []"
  shows "magnitudeCompare n m = rat_compare (magnitude n) (magnitude m)"
proof -
  consider "magnitudeCompare n m = -1" | "magnitudeCompare n m = 0" | "magnitudeCompare n m = 1"
    using magnitudeCompare_range [of n m] by auto
  then show ?thesis
  proof cases
    case 1
    then show ?thesis using magnitudeCompare_less [OF n m] by (simp add: rat_compare_def)
  next
    case 2
    then have "magnitude n = magnitude m" by (simp add: magnitudeCompare_eq magnitude_def)
    then show ?thesis using 2 by (simp add: rat_compare_def)
  next
    case 3
    then have "magnitude m < magnitude n"
      using magnitudeCompare_less [OF m n] magnitudeCompare_antisym [of m n] by simp
    then show ?thesis using 3 by (simp add: rat_compare_def)
  qed
qed

lemma number_wf_zero: "number_wf n \<Longrightarrow> num_digits n = [] \<Longrightarrow> n = number_zero"
  by (simp add: number_wf_def)

lemma number_sign_cases:
  assumes "number_wf n"
  obtains (zero) "num_digits n = []" "number_sign n = 0" "number_value n = 0"
    | (neg) "num_digits n \<noteq> []" "num_neg n" "number_sign n = -1" "number_value n < 0"
    | (pos) "num_digits n \<noteq> []" "\<not> num_neg n" "number_sign n = 1" "0 < number_value n"
proof (cases "num_digits n = []")
  case True
  then have "number_value n = 0" by (simp add: number_value_def decimal_value_def)
  then show ?thesis using True zero by (simp add: number_sign_def)
next
  case False
  then show ?thesis using magnitude_pos [OF assms False] neg pos
    by (cases "num_neg n") (auto simp: number_sign_def number_value_magnitude)
qed

lemma number_compare_same_sign:
  assumes n: "number_wf n" "num_digits n \<noteq> []" and m: "number_wf m" "num_digits m \<noteq> []"
    and s: "num_neg n = num_neg m"
  shows "number_compare n m = rat_compare (number_value n) (number_value m)"
proof -
  have "number_sign n = number_sign m" using n m s by (simp add: number_sign_def)
  then have "number_compare n m = (if num_neg n then - magnitudeCompare n m else magnitudeCompare n m)"
    using n by (simp add: number_compare_def Let_def)
  then show ?thesis
    using s magnitudeCompare_correct [OF n m]
    by (simp add: number_value_magnitude rat_compare_def)
qed

theorem number_compare_value:
  assumes n: "number_wf n" and m: "number_wf m"
  shows "number_compare n m = rat_compare (number_value n) (number_value m)"
proof (rule number_sign_cases [OF n]; rule number_sign_cases [OF m])
qed (simp_all add: number_compare_same_sign [OF n _ m], simp_all add: number_compare_def rat_compare_def)

lemma number_compare_eq:
  assumes n: "number_wf n" and m: "number_wf m"
  shows "number_compare n m = 0 \<longleftrightarrow> n = m"
proof
  assume 0: "number_compare n m = 0"
  show "n = m"
  proof (cases "num_digits n = []")
    case True
    moreover from 0 True have "num_digits m = []"
      by (auto simp: number_compare_def number_sign_def split: if_splits)
    ultimately show ?thesis using n m number_wf_zero by metis
  next
    case False
    then have "number_sign n = number_sign m" "magnitudeCompare n m = 0"
      using 0 by (auto simp: number_compare_def Let_def split: if_splits)
    then show ?thesis using False
      by (auto simp: magnitudeCompare_eq number_sign_def intro: number.equality split: if_splits)
  qed
qed (use number_compare_value n m in \<open>simp add: rat_compare_def\<close>)

text \<open>Equal values have one representation.\<close>

lemma number_value_inject: "number_wf n \<Longrightarrow> number_wf m \<Longrightarrow> number_value n = number_value m \<longleftrightarrow> n = m"
  using number_compare_value [of n m] number_compare_eq [of n m]
  by (auto simp: rat_compare_def split: if_splits)

interpretation number_order: comparison number_wf number_compare
  by unfold_locales (auto simp: number_compare_value rat_compare_def split: if_splits)

section \<open>Parsing\<close>

text \<open>
  The accepted spellings: an optional sign, digits with an optional point, an optional exponent
  that fits 32 bits. \<open>w\<close> are the digits before the point, \<open>f\<close> those after it, \<open>k\<close> the exponent.
\<close>

definition number_form :: "string \<Rightarrow> bool \<Rightarrow> string \<Rightarrow> string \<Rightarrow> int \<Rightarrow> bool" where
  "number_form s neg w f k \<longleftrightarrow> (\<exists>sg pt ex. s = sg @ w @ pt @ f @ ex \<and>
     (if neg then sg = ''-'' else sg = [] \<or> sg = ''+'') \<and>
     (pt = ''.'' \<or> pt = [] \<and> f = []) \<and>
     (ex = [] \<and> k = 0 \<or>
      (\<exists>m e. ex = m # e \<and> (m = CHR ''e'' \<or> m = CHR ''E'') \<and> parse_int 32 e = Some k)) \<and>
     allDigits (w @ f))"

text \<open>The end of \<open>ParseNumber\<close>: normalise a mantissa at a scale.\<close>

definition normalise :: "bool \<Rightarrow> string \<Rightarrow> int \<Rightarrow> number option" where
  "normalise neg mant scale =
     (if scale < MinInt32 \<or> MaxInt32 < scale then None
      else (let digits = trim_left mant (CHR ''0''); trimmed = trim_right digits (CHR ''0'')
            in if trimmed = [] then Some number_zero
               else Some \<lparr>num_neg = neg, num_digits = trimmed,
                          num_exp = int (length digits - length trimmed) - scale\<rparr>))"

lemma zeros_value: "set z \<subseteq> {CHR ''0''} \<Longrightarrow> digits_nat z = 0"
  by (induction z) (auto simp: digits_nat_Cons digit_val_def byte_def)

lemma trim_left_split: "\<exists>z. s = z @ trim_left s b \<and> set z \<subseteq> {b}"
  unfolding trim_left_def
  by (rule exI [of _ "takeWhile (\<lambda>c. c = b) s"]) (auto dest: set_takeWhileD)

lemma trim_right_split: "\<exists>z. s = trim_right s b @ z \<and> set z \<subseteq> {b}"
proof -
  obtain z where z: "rev s = z @ dropWhile (\<lambda>c. c = b) (rev s)" "set z \<subseteq> {b}"
    using trim_left_split [of "rev s" b] unfolding trim_left_def by blast
  then have "s = trim_right s b @ rev z" unfolding trim_right_def by (metis rev_append rev_rev_ident)
  then show ?thesis using z(2) by (metis set_rev)
qed

lemma normalise_value:
  assumes d: "list_all is_digit mant" and n: "normalise neg mant scale = Some n"
  shows "number_wf n \<and> number_value n = decimal_value neg mant (- scale)"
proof -
  let ?d = "trim_left mant (CHR ''0'')"
  let ?t = "trim_right ?d (CHR ''0'')"
  obtain z where z: "mant = z @ ?d" "set z \<subseteq> {CHR ''0''}" using trim_left_split by blast
  obtain y where y: "?d = ?t @ y" "set y \<subseteq> {CHR ''0''}" using trim_right_split by blast
  have "digits_nat mant = digits_nat ?d"
    using z by (metis add_0 digits_nat_append mult_0 zeros_value)
  also have "\<dots> = digits_nat ?t * 10 ^ length y"
    using y by (metis add.right_neutral digits_nat_append zeros_value)
  finally have nat: "digits_nat mant = digits_nat ?t * 10 ^ length y" .
  have len: "length ?d - length ?t = length y" using y(1) by (metis add_diff_cancel_left' length_append)
  show ?thesis
  proof (cases "?t = []")
    case True
    then have "n = number_zero" using n by (auto simp: normalise_def Let_def split: if_splits)
    then show ?thesis using nat True
      by (simp add: number_wf_def number_zero_def number_value_def decimal_value_def)
  next
    case False
    then have nn: "n = \<lparr>num_neg = neg, num_digits = ?t, num_exp = int (length y) - scale\<rparr>"
      using n len by (auto simp: normalise_def Let_def split: if_splits)
    have "list_all is_digit ?t" using d z(1) y(1) by (metis list_all_append)
    moreover have "?d \<noteq> []" using False y(1) by auto
    then have "hd ?d \<noteq> CHR ''0''" 
      using hd_dropWhile [of "\<lambda>c. c = CHR ''0''" mant] by (simp add: trim_left_def)
    then have "hd ?t \<noteq> CHR ''0''" using False y(1) by (metis hd_append2)
    moreover have "last ?t \<noteq> CHR ''0''"
      using False hd_dropWhile [of "\<lambda>c. c = CHR ''0''" "rev ?d"]
      unfolding trim_right_def by (auto simp: last_rev)
    ultimately have "number_wf n" using False nn by (simp add: number_wf_def)
    moreover have "number_value n = decimal_value neg mant (- scale)"
      using nat nn by (simp add: number_value_def decimal_value_def power_int_diff power_int_minus field_simps)
    ultimately show ?thesis by simp
  qed
qed

lemma normalise_None: "normalise neg mant scale = None \<longleftrightarrow> scale < MinInt32 \<or> MaxInt32 < scale"
  by (auto simp: normalise_def Let_def)

text \<open>The scan: sign, exponent mark, point.\<close>

definition lower_e :: "char \<Rightarrow> char" where
  "lower_e c = (if c = CHR ''E'' then CHR ''e'' else c)"

lemma lower_e_mark: "lower_e c = CHR ''e'' \<longleftrightarrow> c = CHR ''e'' \<or> c = CHR ''E''"
  by (simp add: lower_e_def)

lemma lower_e_id: "CHR ''e'' \<noteq> lower_e c \<Longrightarrow> lower_e c = c"
  by (simp add: lower_e_def split: if_splits)

lemma map_lower_e: "map lower_e x = y \<Longrightarrow> CHR ''e'' \<notin> set y \<Longrightarrow> x = y"
  by (induction x arbitrary: y) (auto intro: lower_e_id [symmetric])

lemma map_lower_e_id: "CHR ''E'' \<notin> set x \<Longrightarrow> map lower_e x = x"
  by (induction x) (auto simp: lower_e_def)

lemma digit_not_mark: "is_digit c \<Longrightarrow> c \<noteq> CHR ''e'' \<and> c \<noteq> CHR ''E'' \<and> c \<noteq> CHR ''.'' \<and> c \<noteq> CHR ''+'' \<and> c \<noteq> CHR ''-''"
  by (auto simp: is_digit_def byte_def)

lemma digits_no_mark: "list_all is_digit b \<Longrightarrow> CHR ''e'' \<notin> set b \<and> CHR ''E'' \<notin> set b"
  using digit_not_mark by (auto simp: list_all_iff)

lemma parse_int_chars:
  assumes "parse_int bits s = Some k"
  shows "CHR ''e'' \<notin> set s \<and> CHR ''E'' \<notin> set s"
proof (cases "s \<noteq> [] \<and> (hd s = CHR ''+'' \<or> hd s = CHR ''-'')")
  case True
  then have "list_all is_digit (tl s)"
    using assms by (auto simp: parse_int_def Let_def split: if_splits)
  moreover have "set s = insert (hd s) (set (tl s))" using True by (cases s) auto
  moreover have "hd s \<noteq> CHR ''e'' \<and> hd s \<noteq> CHR ''E''" using True by auto
  ultimately show ?thesis using digits_no_mark [of "tl s"] by auto
next
  case False
  then have "list_all is_digit s"
    using assms by (auto simp: parse_int_def Let_def split: if_splits)
  then show ?thesis by (rule digits_no_mark)
qed

definition parse_body :: "bool \<Rightarrow> string \<Rightarrow> number option" where
  "parse_body neg s =
     (let (mantissa, exponent, hasExp) = cut (map lower_e s) ''e'';
          (whole, frac, _) = cut mantissa ''.''
      in if \<not> allDigits (whole @ frac) then None
         else (case (if hasExp then parse_int 32 exponent else Some 0) of
             None \<Rightarrow> None
           | Some e \<Rightarrow> normalise neg (whole @ frac) (int (length frac) - e)))"

lemma ParseNumber_body:
  "ParseNumber s =
     (if s \<noteq> [] \<and> (hd s = CHR ''+'' \<or> hd s = CHR ''-'') then parse_body (hd s = CHR ''-'') (tl s)
      else parse_body False s)"
proof -
  let ?signed = "s \<noteq> [] \<and> (hd s = CHR ''+'' \<or> hd s = CHR ''-'')"
  have "ParseNumber s = parse_body (?signed \<and> hd s = CHR ''-'') (if ?signed then tl s else s)"
    unfolding ParseNumber_def parse_body_def normalise_def replace_all_byte Let_def lower_e_def
    by (rule refl)
  then show ?thesis by auto
qed

lemma parse_body_form:
  assumes pt: "pt = ''.'' \<or> pt = [] \<and> f = []" and d: "allDigits (w @ f)"
    and ex: "ex = [] \<and> k = 0 \<or>
      (\<exists>m e. ex = m # e \<and> (m = CHR ''e'' \<or> m = CHR ''E'') \<and> parse_int 32 e = Some k)"
  shows "parse_body neg (w @ pt @ f @ ex) = normalise neg (w @ f) (int (length f) - k)"
proof -
  have dig: "is_digit c" if "c \<in> set (w @ f)" for c
    using that d by (auto simp: allDigits_def list_all_iff split: if_splits)
  let ?m = "w @ pt @ f"
  have m: "CHR ''e'' \<notin> set ?m" "CHR ''E'' \<notin> set ?m" "CHR ''.'' \<notin> set w"
    using dig digit_not_mark pt by auto
  have point: "\<exists>pb. cut ?m ''.'' = (w, f, pb)"
    using pt m(3) by (auto simp: cut_byte_found cut_byte_missing)
  have "cut (map lower_e (?m @ ex)) ''e'' =
      (if ex = [] then (?m, [], False) else (?m, tl ex, True))"
  proof (cases "ex = []")
    case True
    then show ?thesis using m by (simp add: map_lower_e_id cut_byte_missing del: map_append)
  next
    case False
    with ex obtain mk e where e: "ex = mk # e" "mk = CHR ''e'' \<or> mk = CHR ''E''" "parse_int 32 e = Some k"
      by blast
    have "map lower_e (?m @ ex) = map lower_e ?m @ CHR ''e'' # map lower_e e"
      using e(1,2) lower_e_mark by simp
    then have "map lower_e (?m @ ex) = ?m @ CHR ''e'' # e"
      using map_lower_e_id m(2) parse_int_chars [OF e(3)] by metis
    then show ?thesis using cut_byte_found [OF m(1), of e] e(1) by (simp only: list.distinct if_False list.sel)
  qed
  then have "parse_body neg (?m @ ex) =
      (case (if ex = [] then Some 0 else parse_int 32 (tl ex)) of
         None \<Rightarrow> None | Some e \<Rightarrow> normalise neg (w @ f) (int (length f) - e))"
    using d point by (auto simp: parse_body_def)
  moreover have "(if ex = [] then Some 0 else parse_int 32 (tl ex)) = Some k"
    using ex by auto
  ultimately show ?thesis by simp
qed

lemma parse_body_Some:
  assumes "parse_body neg s = Some n"
  obtains w pt f ex k where "s = w @ pt @ f @ ex" "pt = ''.'' \<or> pt = [] \<and> f = []" "allDigits (w @ f)"
    "ex = [] \<and> k = 0 \<or>
      (\<exists>m e. ex = m # e \<and> (m = CHR ''e'' \<or> m = CHR ''E'') \<and> parse_int 32 e = Some k)"
    "normalise neg (w @ f) (int (length f) - k) = Some n"
proof -
  obtain m x hasExp where c: "cut (map lower_e s) ''e'' = (m, x, hasExp)"
    by (cases "cut (map lower_e s) ''e''") auto
  obtain w f pb where p: "cut m ''.'' = (w, f, pb)" by (cases "cut m ''.''") auto
  from assms c p have d: "allDigits (w @ f)" and k: "(if hasExp then parse_int 32 x else Some 0) \<noteq> None"
    by (auto simp: parse_body_def split: if_splits option.splits)
  then obtain k where k: "(if hasExp then parse_int 32 x else Some 0) = Some k" by auto
  let ?pt = "if pb then ''.'' else []"
  have m: "m = w @ ?pt @ f" "pb \<or> f = []" using cut_byte_cases [OF p] by (auto split: if_splits)
  have noe: "CHR ''e'' \<notin> set m" using cut_byte_cases [OF c] by simp
  have n: "normalise neg (w @ f) (int (length f) - k) = Some n"
    using assms c p d k by (simp add: parse_body_def)
  show ?thesis
  proof (cases hasExp)
    case False
    then have "map lower_e s = m" using cut_byte_cases [OF c] by simp
    then have "s = m" using noe by (rule map_lower_e)
    then have "s = w @ ?pt @ f @ []" using m(1) by simp
    then show ?thesis using that [of w ?pt f "[]" k] m(2) d n k False by auto
  next
    case True
    then have "map lower_e s = m @ CHR ''e'' # x" using cut_byte_cases [OF c] by simp
    then obtain m' mk x' where s: "s = m' @ mk # x'" "map lower_e m' = m" "lower_e mk = CHR ''e''"
      "map lower_e x' = x"
      by (auto simp: map_eq_append_conv map_eq_Cons_conv)
    have "m' = m" using map_lower_e [OF s(2) noe] .
    moreover have "x' = x" using map_lower_e [OF s(4)] k True parse_int_chars by auto
    ultimately have "s = w @ ?pt @ f @ (mk # x)" using s(1) m(1) by simp
    moreover have "mk = CHR ''e'' \<or> mk = CHR ''E''" using s(3) lower_e_mark by simp
    ultimately show ?thesis using that [of w ?pt f "mk # x" k] m(2) d n k True by auto
  qed
qed

lemma digit_head:
  assumes "allDigits (w @ f)" and "pt = ''.'' \<or> pt = [] \<and> f = []"
  shows "w @ pt @ f @ ex \<noteq> [] \<and> hd (w @ pt @ f @ ex) \<noteq> CHR ''+'' \<and> hd (w @ pt @ f @ ex) \<noteq> CHR ''-''"
  using assms digit_not_mark by (cases w) (auto simp: allDigits_def split: if_splits)

lemma ParseNumber_form:
  assumes "number_form s neg w f k"
  shows "ParseNumber s = normalise neg (w @ f) (int (length f) - k)"
proof -
  from assms obtain sg pt ex where s: "s = sg @ w @ pt @ f @ ex"
    and sg: "if neg then sg = ''-'' else sg = [] \<or> sg = ''+''"
    and pt: "pt = ''.'' \<or> pt = [] \<and> f = []" and d: "allDigits (w @ f)"
    and ex: "ex = [] \<and> k = 0 \<or>
      (\<exists>m e. ex = m # e \<and> (m = CHR ''e'' \<or> m = CHR ''E'') \<and> parse_int 32 e = Some k)"
    unfolding number_form_def by blast
  note body = parse_body_form [OF pt d ex]
  show ?thesis
    using sg body digit_head [OF d pt, of ex]
    by (auto simp: ParseNumber_body s split: if_splits)
qed

lemma ParseNumber_Some_form:
  assumes "ParseNumber s = Some n"
  shows "\<exists>neg w f k. number_form s neg w f k \<and> normalise neg (w @ f) (int (length f) - k) = Some n"
proof -
  define signed where "signed = (s \<noteq> [] \<and> (hd s = CHR ''+'' \<or> hd s = CHR ''-''))"
  define neg where "neg = (signed \<and> hd s = CHR ''-'')"
  define body where "body = (if signed then tl s else s)"
  have "parse_body neg body = Some n"
    using assms by (auto simp: ParseNumber_body signed_def neg_def body_def split: if_splits)
  then obtain w pt f ex k where b: "body = w @ pt @ f @ ex" "pt = ''.'' \<or> pt = [] \<and> f = []"
    "allDigits (w @ f)" "ex = [] \<and> k = 0 \<or>
      (\<exists>m e. ex = m # e \<and> (m = CHR ''e'' \<or> m = CHR ''E'') \<and> parse_int 32 e = Some k)"
    "normalise neg (w @ f) (int (length f) - k) = Some n"
    by (rule parse_body_Some)
  let ?sg = "if signed then [hd s] else []"
  have "s = ?sg @ w @ pt @ f @ ex" using b(1) by (cases s) (auto simp: body_def signed_def)
  moreover have "if neg then ?sg = ''-'' else ?sg = [] \<or> ?sg = ''+''"
    by (auto simp: neg_def signed_def)
  ultimately have "number_form s neg w f k" unfolding number_form_def using b(2-4) by blast
  then show ?thesis using b(5) by blast
qed

lemma number_form_digits: "number_form s neg w f k \<Longrightarrow> list_all is_digit (w @ f)"
  by (auto simp: number_form_def allDigits_def split: if_splits)

lemma ParseNumber_wf: "ParseNumber s = Some n \<Longrightarrow> number_wf n"
  using ParseNumber_Some_form normalise_value number_form_digits by blast

section \<open>Properties\<close>

text \<open>An accepted numeral denotes the number it spells: whatever \<open>ParseNumber\<close> accepts has the form
  sign, digits with an optional point, optional 32-bit exponent, its scale fits 32 bits, and the result
  is the normalised representation of exactly that decimal.\<close>
theorem parsed_number_denotes:
  assumes "ParseNumber s = Some n"
  shows "number_wf n \<and> (\<exists>neg w f k. number_form s neg w f k \<and>
    MinInt32 \<le> int (length f) - k \<and> int (length f) - k \<le> MaxInt32 \<and>
    number_value n = decimal_value neg (w @ f) (k - int (length f)))"
proof -
  obtain neg w f k where f: "number_form s neg w f k"
    and n: "normalise neg (w @ f) (int (length f) - k) = Some n"
    using ParseNumber_Some_form [OF assms] by blast
  have "\<not> (int (length f) - k < MinInt32 \<or> MaxInt32 < int (length f) - k)"
    using n normalise_None by (metis option.distinct(1))
  then show ?thesis using f normalise_value [OF number_form_digits [OF f] n] by fastforce
qed

theorem parsed_number_denotes_witness:
  "number_wf \<lparr>num_neg = True, num_digits = ''125'', num_exp = -1\<rparr> \<and>
   (\<exists>neg w f k. number_form ''-0.1250E2'' neg w f k \<and>
     MinInt32 \<le> int (length f) - k \<and> int (length f) - k \<le> MaxInt32 \<and>
     number_value \<lparr>num_neg = True, num_digits = ''125'', num_exp = -1\<rparr> =
       decimal_value neg (w @ f) (k - int (length f)))"
  by (rule parsed_number_denotes) code_simp

text \<open>Every numeral of the accepted form is accepted unless its scale leaves 32 bits.\<close>
theorem number_form_accepted:
  assumes "number_form s neg w f k"
  shows "ParseNumber s \<noteq> None \<longleftrightarrow> MinInt32 \<le> int (length f) - k \<and> int (length f) - k \<le> MaxInt32"
  by (auto simp: ParseNumber_form [OF assms] normalise_None)

theorem number_form_accepted_witness: "ParseNumber ''1e-2147483648'' = None"
proof -
  have "number_form ''1e-2147483648'' False ''1'' [] (- 2147483648)"
    unfolding number_form_def
    by (intro exI [of _ "[]"] exI [of _ "''e-2147483648''"])
      (simp add: allDigits_def parse_int_def digits_nat_def is_digit_def digit_val_def byte_def)
  from number_form_accepted [OF this] show ?thesis by (simp add: MaxInt32_def MinInt32_def)
qed

text \<open>C39: Comparison is exact: comparing two parsed numerals compares the rationals they denote, with no
  rounding, and equal values have one representation.\<close>
theorem number_compare_exact:
  assumes "ParseNumber s = Some n" and "ParseNumber t = Some m"
  shows "number_compare n m = (if number_value n < number_value m then -1
      else if number_value n = number_value m then 0 else 1) \<and>
    (number_value n = number_value m \<longleftrightarrow> n = m)"
  using assms number_compare_value number_value_inject ParseNumber_wf
  by (metis rat_compare_def)

theorem number_compare_exact_witness:
  "number_compare \<lparr>num_neg = False, num_digits = ''1'', num_exp = -1\<rparr> \<lparr>num_neg = False, num_digits = ''1'', num_exp = -1\<rparr> = 0"
proof -
  have "ParseNumber ''0.1'' = Some \<lparr>num_neg = False, num_digits = ''1'', num_exp = -1\<rparr>"
    "ParseNumber ''10E-2'' = Some \<lparr>num_neg = False, num_digits = ''1'', num_exp = -1\<rparr>"
    by code_simp+
  from number_compare_exact [OF this] show ?thesis by simp
qed

end
