(* ===== verification/GoTime.thy ===== *)
theory GoTime
  imports GoStrings
begin

text \<open>
  The part of Go's \<^verbatim>\<open>time\<close> package the code relies on: instants, the Gregorian calendar, and
  \<^verbatim>\<open>time.Parse\<close> on layouts made of the chunks that occur in the modelled layouts. \<^verbatim>\<open>time.Parse\<close> first
  tries a strict reader on the RFC 3339 layout; whatever that reader accepts the general one
  accepts with the same instant, so only the general one is modelled. Note its leniency: an hour
  may have one digit, and zone offsets may be as large as 24:60.
\<close>

section \<open>Instants\<close>

datatype go_time = Time (unix_secs: int) (nanos: nat)

definition time_compare :: "go_time \<Rightarrow> go_time \<Rightarrow> int" where
  "time_compare t u =
     (if unix_secs t < unix_secs u \<or> unix_secs t = unix_secs u \<and> nanos t < nanos u then -1
      else if t = u then 0 else 1)"

instantiation go_time :: linorder
begin

definition "(t :: go_time) \<le> u \<longleftrightarrow>
  unix_secs t < unix_secs u \<or> unix_secs t = unix_secs u \<and> nanos t \<le> nanos u"

definition "(t :: go_time) < u \<longleftrightarrow>
  unix_secs t < unix_secs u \<or> unix_secs t = unix_secs u \<and> nanos t < nanos u"

instance
  by standard (auto simp: less_eq_go_time_def less_go_time_def intro: go_time.expand)

end

lemma time_compare_order: "time_compare t u = (if t < u then -1 else if t = u then 0 else 1)"
  by (simp add: time_compare_def less_go_time_def)

section \<open>The calendar\<close>

definition is_leap :: "nat \<Rightarrow> bool" where
  "is_leap y \<longleftrightarrow> y mod 4 = 0 \<and> (y mod 100 \<noteq> 0 \<or> y mod 400 = 0)"

fun days_in :: "nat \<Rightarrow> nat \<Rightarrow> nat" where
  "days_in m y = (if m = 2 then (if is_leap y then 29 else 28)
     else if m = 4 \<or> m = 6 \<or> m = 9 \<or> m = 11 then 30 else 31)"

definition days_before_year :: "nat \<Rightarrow> nat" where
  "days_before_year y = 365 * y + (y + 3) div 4 - (y + 99) div 100 + (y + 399) div 400"

definition days_before_month :: "nat \<Rightarrow> nat \<Rightarrow> nat" where
  "days_before_month m y = sum_list (map (\<lambda>k. days_in k y) [1..<m])"

text \<open>Days since 1970-01-01; 719528 is the number of days before 1970 from year 0.\<close>

definition civil_days :: "nat \<Rightarrow> nat \<Rightarrow> nat \<Rightarrow> int" where
  "civil_days y m d = int (days_before_year y + days_before_month m y + (d - 1)) - 719528"

definition civil_secs :: "nat \<Rightarrow> nat \<Rightarrow> nat \<Rightarrow> nat \<Rightarrow> nat \<Rightarrow> nat \<Rightarrow> int" where
  "civil_secs y m d h mi s = civil_days y m d * 86400 + int (h * 3600 + mi * 60 + s)"

section \<open>time.Parse\<close>

datatype chunk = Literal char | LongYear | ZeroMonth | ZeroDay | Hour | ZeroMinute | ZeroSecond
  | ISO8601ColonTZ

datatype zone = NoZone | ZoneUTC | ZoneOffset int

record parse_state =
  ps_year :: nat
  ps_month :: nat
  ps_day :: nat
  ps_hour :: nat
  ps_min :: nat
  ps_sec :: nat
  ps_nsec :: nat
  ps_zone :: zone

text \<open>A month or a day that the layout does not name counts as 1.\<close>

definition parse_start :: parse_state where
  "parse_start = \<lparr>ps_year = 0, ps_month = 1, ps_day = 1, ps_hour = 0, ps_min = 0, ps_sec = 0,
     ps_nsec = 0, ps_zone = NoZone\<rparr>"

fun getnum :: "bool \<Rightarrow> string \<Rightarrow> (nat \<times> string) option" where
  "getnum fixed (c # d # s) =
     (if \<not> is_digit c then None
      else if is_digit d then Some (digit_val c * 10 + digit_val d, s)
      else if fixed then None else Some (digit_val c, d # s))"
| "getnum fixed [c] = (if is_digit c \<and> \<not> fixed then Some (digit_val c, []) else None)"
| "getnum fixed [] = None"

text \<open>The fractional seconds Go accepts where the layout has none: at most nine digits count.\<close>

definition fractional :: "string \<Rightarrow> nat \<times> string" where
  "fractional s = (case s of
      p # c # r \<Rightarrow>
        if (p = CHR ''.'' \<or> p = CHR '','') \<and> is_digit c then
          (let ds = takeWhile is_digit (c # r); kept = take 9 ds
           in (digits_nat kept * 10 ^ (9 - length kept), dropWhile is_digit (c # r)))
        else (0, s)
    | _ \<Rightarrow> (0, s))"

definition parse_offset :: "string \<Rightarrow> (int \<times> string) option" where
  "parse_offset s =
     (if length s < 6 \<or> s ! 3 \<noteq> CHR '':'' then None
      else (case (getnum True (take 2 (drop 1 s)), getnum True (take 2 (drop 4 s))) of
          (Some (hr, _), Some (mm, _)) \<Rightarrow>
            if hr > 24 \<or> mm > 60 then None
            else (let off = int ((hr * 60 + mm) * 60) in
              if hd s = CHR ''+'' then Some (off, drop 6 s)
              else if hd s = CHR ''-'' then Some (- off, drop 6 s) else None)
        | _ \<Rightarrow> None))"

fun parse_chunk :: "chunk \<Rightarrow> string \<Rightarrow> parse_state \<Rightarrow> (string \<times> parse_state) option" where
  "parse_chunk (Literal c) s st = (case s of d # r \<Rightarrow> if d = c then Some (r, st) else None | [] \<Rightarrow> None)"
| "parse_chunk LongYear s st =
     (if length s < 4 \<or> \<not> list_all is_digit (take 4 s) then None
      else Some (drop 4 s, st\<lparr>ps_year := digits_nat (take 4 s)\<rparr>))"
| "parse_chunk ZeroMonth s st = (case getnum True s of None \<Rightarrow> None | Some (n, r) \<Rightarrow>
     if n = 0 \<or> 12 < n then None else Some (r, st\<lparr>ps_month := n\<rparr>))"
| "parse_chunk ZeroDay s st = (case getnum True s of None \<Rightarrow> None | Some (n, r) \<Rightarrow>
     Some (r, st\<lparr>ps_day := n\<rparr>))"
| "parse_chunk Hour s st = (case getnum False s of None \<Rightarrow> None | Some (n, r) \<Rightarrow>
     if 24 \<le> n then None else Some (r, st\<lparr>ps_hour := n\<rparr>))"
| "parse_chunk ZeroMinute s st = (case getnum True s of None \<Rightarrow> None | Some (n, r) \<Rightarrow>
     if 60 \<le> n then None else Some (r, st\<lparr>ps_min := n\<rparr>))"
| "parse_chunk ZeroSecond s st = (case getnum True s of None \<Rightarrow> None | Some (n, r) \<Rightarrow>
     if 60 \<le> n then None
     else (case fractional r of (ns, r') \<Rightarrow> Some (r', st\<lparr>ps_sec := n, ps_nsec := ns\<rparr>)))"
| "parse_chunk ISO8601ColonTZ s st =
     (if s \<noteq> [] \<and> hd s = CHR ''Z'' then Some (tl s, st\<lparr>ps_zone := ZoneUTC\<rparr>)
      else (case parse_offset s of None \<Rightarrow> None
        | Some (off, r) \<Rightarrow> Some (r, st\<lparr>ps_zone := ZoneOffset off\<rparr>)))"

fun parse_chunks :: "chunk list \<Rightarrow> string \<Rightarrow> parse_state \<Rightarrow> parse_state option" where
  "parse_chunks [] s st = (if s = [] then Some st else None)"
| "parse_chunks (c # cs) s st = (case parse_chunk c s st of None \<Rightarrow> None
     | Some (r, st') \<Rightarrow> parse_chunks cs r st')"

definition zone_shift :: "zone \<Rightarrow> int" where
  "zone_shift z = (case z of ZoneOffset off \<Rightarrow> off | _ \<Rightarrow> 0)"

definition time_parse :: "chunk list \<Rightarrow> string \<Rightarrow> go_time option" where
  "time_parse layout s = (case parse_chunks layout s parse_start of
      None \<Rightarrow> None
    | Some st \<Rightarrow>
        if ps_day st < 1 \<or> days_in (ps_month st) (ps_year st) < ps_day st then None
        else Some (Time (civil_secs (ps_year st) (ps_month st) (ps_day st)
                           (ps_hour st) (ps_min st) (ps_sec st) - zone_shift (ps_zone st))
                        (ps_nsec st)))"

section \<open>Printing padded numbers\<close>

text \<open>\<^verbatim>\<open>time.Format\<close> writes a number zero-padded to two or four digits.\<close>

fun padded :: "nat \<Rightarrow> nat \<Rightarrow> string" where
  "padded 0 n = []"
| "padded (Suc k) n = padded k (n div 10) @ [digit_char (n mod 10)]"

lemma padded_length [simp]: "length (padded k n) = k"
  by (induction k arbitrary: n) auto

lemma padded_digits: "list_all is_digit (padded k n)"
  by (induction k arbitrary: n) (auto simp: digit_char_digit)

lemma padded_value: "n < 10 ^ k \<Longrightarrow> digits_nat (padded k n) = n"
proof (induction k arbitrary: n)
  case (Suc k)
  then have "n div 10 < 10 ^ k" by (simp add: less_mult_imp_div_less mult.commute)
  then show ?case
    using Suc.IH [of "n div 10"] digit_char_digit [of "n mod 10"]
    by (simp add: digits_nat_append digits_nat_Cons)
qed simp

lemma getnum_padded: "n < 100 \<Longrightarrow> getnum fixed (padded 2 n @ s) = Some (n, s)"
proof -
  assume "n < 100"
  then have "n div 10 < 10" by simp
  then show ?thesis
    using digit_char_digit [of "n div 10"] digit_char_digit [of "n mod 10"]
    by (simp add: numeral_2_eq_2)
qed

lemma year_padded:
  assumes "y < 10000"
  shows "parse_chunk LongYear (padded 4 y @ s) st = Some (s, st\<lparr>ps_year := y\<rparr>)"
  using padded_value [of y 4] padded_digits [of 4 y] assms by simp

section \<open>Reading an instant back as a date\<close>

text \<open>
  The year, month and day of a day number counted from year 0. \<^verbatim>\<open>time\<close> computes them in closed form;
  searching upwards from a low estimate gives the same numbers.
\<close>

lemma ceiling_div_Suc:
  fixes k y :: nat
  assumes k: "0 < k"
  shows "(Suc y + (k - 1)) div k = (y + (k - 1)) div k + (if k dvd y then 1 else 0)"
proof -
  define q r where "q = y div k" and "r = y mod k"
  then have y: "y = q * k + r" "r < k" "k dvd y \<longleftrightarrow> r = 0"
    using k by (auto simp: mod_eq_0_iff_dvd)
  show ?thesis
  proof (cases "r = 0")
    case True
    then have "Suc y + (k - 1) = 0 + (q + 1) * k" "y + (k - 1) = (k - 1) + q * k"
      using y k by auto
    moreover have "(0 + (q + 1) * k) div k = q + 1" "((k - 1) + q * k) div k = q"
      using k by (simp_all only: div_mult_self1) auto
    ultimately show ?thesis using True y(3) by (simp only:) simp
  next
    case False
    then have "Suc y + (k - 1) = r + (q + 1) * k" "y + (k - 1) = (r - 1) + (q + 1) * k"
      using y k by auto
    moreover have "(r + (q + 1) * k) div k = q + 1" "((r - 1) + (q + 1) * k) div k = q + 1"
      using k y(2) by (simp_all only: div_mult_self1) auto
    ultimately show ?thesis using False y(3) by (simp only:) simp
  qed
qed

lemma days_before_year_Suc: "days_before_year (Suc y) = days_before_year y + (if is_leap y then 366 else 365)"
proof -
  define A B C where "A = (y + 3) div 4" and "B = (y + 99) div 100" and "C = (y + 399) div 400"
  define a b c where "a = (4 dvd y)" and "b = (100 dvd y)" and "c = (400 dvd y)"
  have step: "(Suc y + 3) div 4 = A + (if a then 1 else 0)"
    "(Suc y + 99) div 100 = B + (if b then 1 else 0)"
    "(Suc y + 399) div 400 = C + (if c then 1 else 0)"
    using ceiling_div_Suc [of 4 y] ceiling_div_Suc [of 100 y] ceiling_div_Suc [of 400 y]
    by (simp_all only: A_def B_def C_def a_def b_def c_def) simp_all
  have "c \<longrightarrow> b" "b \<longrightarrow> a"
    unfolding a_def b_def c_def by (auto elim: dvd_trans [rotated])
  moreover have "B \<le> A" unfolding A_def B_def by linarith
  ultimately have "365 * Suc y + (A + (if a then 1 else 0)) - (B + (if b then 1 else 0)) + (C + (if c then 1 else 0))
      = 365 * y + A - B + C + (if a \<and> (\<not> b \<or> c) then 366 else 365)"
    by (cases a; cases b; cases c) simp_all
  then show ?thesis
    by (simp only: days_before_year_def is_leap_def mod_eq_0_iff_dvd step A_def [symmetric] B_def [symmetric]
        C_def [symmetric] a_def [symmetric] b_def [symmetric] c_def [symmetric])
qed

lemma days_before_year_bounds: "365 * y \<le> days_before_year y \<and> days_before_year y \<le> 366 * y"
proof (induction y)
  case 0
  show ?case by (simp add: days_before_year_def)
next
  case (Suc y)
  then show ?case by (simp add: days_before_year_Suc)
qed

function find_year :: "nat \<Rightarrow> nat \<Rightarrow> nat" where
  "find_year n y = (if days_before_year (Suc y) \<le> n then find_year n (Suc y) else y)"
  by pat_completeness auto
termination
proof (relation "measure (\<lambda>(n, y). n - y)", goal_cases)
  case (2 n y)
  then have "Suc y \<le> n" using days_before_year_bounds [of "Suc y"] by simp
  then show ?case by simp
qed simp

declare find_year.simps [simp del]

fun find_month :: "nat \<Rightarrow> nat \<Rightarrow> nat list \<Rightarrow> nat \<times> nat" where
  "find_month y n [] = (12, n + 1)"
| "find_month y n [m] = (m, n + 1)"
| "find_month y n (m # k # ms) =
     (if n < days_in m y then (m, n + 1) else find_month y (n - days_in m y) (k # ms))"

definition civil_of_days :: "nat \<Rightarrow> nat \<times> nat \<times> nat" where
  "civil_of_days n =
     (let y = find_year n (n div 366); (m, d) = find_month y (n - days_before_year y) [1..<13]
      in (y, m, d))"

lemma find_year_spec:
  "days_before_year y \<le> n \<Longrightarrow>
   days_before_year (find_year n y) \<le> n \<and> n < days_before_year (Suc (find_year n y))"
proof (induction n y rule: find_year.induct)
  case (1 n y)
  then show ?case by (subst (1 2) find_year.simps) auto
qed

lemma find_month_spec:
  "find_month y n [k..<13] = (m, d) \<Longrightarrow> 1 \<le> k \<Longrightarrow> k < 13 \<Longrightarrow>
   n < sum_list (map (\<lambda>i. days_in i y) [k..<13]) \<Longrightarrow>
   k \<le> m \<and> m \<le> 12 \<and> 1 \<le> d \<and> d \<le> days_in m y \<and>
   n = sum_list (map (\<lambda>i. days_in i y) [k..<m]) + (d - 1)"
proof (induction "12 - k" arbitrary: k n)
  case 0
  then have "k = 12" by simp
  then show ?case using 0 by auto
next
  case (Suc j)
  then have k: "[k..<13] = k # [Suc k..<13]" "[Suc k..<13] = Suc k # [Suc (Suc k)..<13]"
    by (simp_all add: upt_conv_Cons)
  show ?case
  proof (cases "n < days_in k y")
    case True
    then have "m = k" "d = n + 1" using Suc.prems(1) k by auto
    then show ?thesis using True Suc.prems by auto
  next
    case False
    then have "find_month y (n - days_in k y) [Suc k..<13] = (m, d)"
      using Suc.prems(1) k by auto
    moreover have "n - days_in k y < sum_list (map (\<lambda>i. days_in i y) [Suc k..<13])"
      using Suc.prems(4) False k(1) by (auto simp del: days_in.simps)
    ultimately have IH: "Suc k \<le> m \<and> m \<le> 12 \<and> 1 \<le> d \<and> d \<le> days_in m y \<and>
        n - days_in k y = sum_list (map (\<lambda>i. days_in i y) [Suc k..<m]) + (d - 1)"
      using Suc.hyps Suc.prems by (intro Suc.hyps(1)) auto
    then have "[k..<m] = k # [Suc k..<m]" by (simp add: upt_conv_Cons)
    then show ?thesis using IH False by (auto simp del: days_in.simps)
  qed
qed

lemma days_in_year: "sum_list (map (\<lambda>i. days_in i y) [1..<13]) = (if is_leap y then 366 else 365)"
  by (simp add: upt_conv_Cons)

lemma civil_of_days_spec:
  assumes "civil_of_days n = (y, m, d)"
  shows "1 \<le> m \<and> m \<le> 12 \<and> 1 \<le> d \<and> d \<le> days_in m y \<and> civil_days y m d = int n - 719528 \<and>
    days_before_year y \<le> n \<and> n < days_before_year (Suc y)"
proof -
  have "366 * (n div 366) \<le> n" by simp
  then have "days_before_year (n div 366) \<le> n"
    using days_before_year_bounds [of "n div 366"] by linarith
  from find_year_spec [OF this] assms
  have y: "days_before_year y \<le> n" "n < days_before_year (Suc y)"
    and md: "find_month y (n - days_before_year y) [1..<13] = (m, d)"
    by (auto simp: civil_of_days_def Let_def split: prod.splits)
  have "n - days_before_year y < sum_list (map (\<lambda>i. days_in i y) [1..<13])"
    using y unfolding days_in_year days_before_year_Suc by linarith
  from find_month_spec [OF md _ _ this] y show ?thesis
    by (auto simp: civil_days_def days_before_month_def simp del: days_in.simps)
qed

end
