(* ===== verification/Calendar.thy ===== *)
theory Calendar
  imports GoTime
begin

text \<open>
  Go's \<^verbatim>\<open>time.Format\<close> in UTC on the layouts of the code, and its inverse \<^verbatim>\<open>time.Parse\<close>: the
  calendar date of an instant, its uniqueness, and the two round trips between text and instant.
\<close>

section \<open>time.Format\<close>

text \<open>The calendar date of a day number from 0000-01-01, by 400-year eras, as \<^verbatim>\<open>time\<close> counts it.\<close>

definition civil_of :: "int \<Rightarrow> int \<times> nat \<times> nat" where
  "civil_of n = (case civil_of_days (nat (n mod 146097)) of
      (y, m, d) \<Rightarrow> (400 * (n div 146097) + int y, m, d))"

definition format_year :: "int \<Rightarrow> string" where
  "format_year y =
     (if y < 0 then ''-'' else []) @
     (if \<bar>y\<bar> < 10000 then padded 4 (nat \<bar>y\<bar>) else nat_string (nat \<bar>y\<bar>))"

text \<open>Year, month, day, hour, minute and second of an instant in UTC.\<close>

definition civil_fields :: "go_time \<Rightarrow> int \<times> nat \<times> nat \<times> nat \<times> nat \<times> nat" where
  "civil_fields t = (case civil_of (unix_secs t div 86400 + 719528) of
      (y, m, d) \<Rightarrow> (let r = nat (unix_secs t mod 86400) in (y, m, d, r div 3600, r div 60 mod 60, r mod 60)))"

fun format_chunk :: "int \<times> nat \<times> nat \<times> nat \<times> nat \<times> nat \<Rightarrow> chunk \<Rightarrow> string" where
  "format_chunk (y, m, d, h, mi, s) (Literal c) = [c]"
| "format_chunk (y, m, d, h, mi, s) LongYear = format_year y"
| "format_chunk (y, m, d, h, mi, s) ZeroMonth = padded 2 m"
| "format_chunk (y, m, d, h, mi, s) ZeroDay = padded 2 d"
| "format_chunk (y, m, d, h, mi, s) Hour = padded 2 h"
| "format_chunk (y, m, d, h, mi, s) ZeroMinute = padded 2 mi"
| "format_chunk (y, m, d, h, mi, s) ZeroSecond = padded 2 s"
| "format_chunk (y, m, d, h, mi, s) ISO8601ColonTZ = ''Z''"

definition time_format :: "chunk list \<Rightarrow> go_time \<Rightarrow> string" where
  "time_format layout t = concat (map (format_chunk (civil_fields t)) layout)"

section \<open>Valid dates\<close>

definition valid_date :: "nat \<Rightarrow> nat \<Rightarrow> nat \<Rightarrow> bool" where
  "valid_date y m d \<longleftrightarrow> y < 10000 \<and> 1 \<le> m \<and> m \<le> 12 \<and> 1 \<le> d \<and> d \<le> days_in m y"

definition valid_clock :: "nat \<Rightarrow> nat \<Rightarrow> nat \<Rightarrow> bool" where
  "valid_clock h mi s \<longleftrightarrow> h < 24 \<and> mi < 60 \<and> s < 60"

lemma days_in_31: "days_in m y \<le> 31"
  by simp

section \<open>The calendar date of an instant\<close>

lemma days_before_year_era: "days_before_year (400 * e + y) = 146097 * e + days_before_year y"
proof -
  have arith: "365 * (400 * e + y) + (100 * e + p) - (4 * e + q) + (e + r) = 146097 * e + (365 * y + p - q + r)"
    if "q \<le> p" for p q r :: nat
    using that by arith
  have "(400 * e + y + 3) div 4 = 100 * e + (y + 3) div 4"
    "(400 * e + y + 99) div 100 = 4 * e + (y + 99) div 100"
    "(400 * e + y + 399) div 400 = e + (y + 399) div 400" by simp_all
  moreover have "(y + 99) div 100 \<le> (y + 3) div 4" by linarith
  ultimately show ?thesis using arith by (simp only: days_before_year_def)
qed

lemma is_leap_era: "is_leap (400 * e + y) = is_leap y"
proof -
  have "(400 * e + y) mod 4 = y mod 4" "(400 * e + y) mod 100 = y mod 100" "(400 * e + y) mod 400 = y mod 400"
    using mod_mult_self4 [of 4 "100 * e" y] mod_mult_self4 [of 100 "4 * e" y] mod_mult_self4 [of 400 e y]
    by simp_all
  then show ?thesis by (simp add: is_leap_def)
qed

lemma civil_of_spec:
  assumes "0 \<le> n" and "n < 3652425"
  shows "\<exists>y m d. civil_of n = (int y, m, d) \<and> valid_date y m d \<and> civil_days y m d = n - 719528"
proof -
  define e r where "e = nat (n div 146097)" and "r = nat (n mod 146097)"
  have n: "n = 146097 * int e + int r" and "r < 146097"
    using assms by (simp_all add: e_def r_def pos_imp_zdiv_nonneg_iff)
  obtain y m d where c: "civil_of_days r = (y, m, d)" by (cases "civil_of_days r")
  note spec = civil_of_days_spec [OF c]
  let ?y = "400 * e + y"
  have days: "days_in k ?y = days_in k y" for k by (simp add: is_leap_era)
  then have "days_before_month m ?y = days_before_month m y"
    by (simp add: days_before_month_def del: days_in.simps)
  then have civ: "civil_days ?y m d = n - 719528"
    using spec n by (simp only: civil_days_def days_before_year_era) linarith
  have "days_before_year ?y \<le> 146097 * e + r"
    using spec by (simp add: days_before_year_era)
  also have "146097 * e + r < 3652425" using n assms by linarith
  finally have less: "days_before_year ?y < 3652425" .
  have "?y < 10000"
  proof (rule ccontr)
    assume "\<not> ?y < 10000"
    then have "10000 \<le> ?y" by simp
    then obtain k where "?y = 10000 + k" by (rule less_eqE)
    then have "?y = 400 * 25 + k" by simp
    then show False using less days_before_year_era [of 25 k] by simp
  qed
  then have "valid_date ?y m d" using spec days by (simp add: valid_date_def)
  moreover have "civil_of n = (int ?y, m, d)"
  proof -
    have "int e = n div 146097" using assms by (simp add: e_def pos_imp_zdiv_nonneg_iff)
    then show ?thesis using c by (simp add: civil_of_def r_def)
  qed
  ultimately show ?thesis using civ by blast
qed

lemma clock_split: "k div 3600 * 3600 + k div 60 mod 60 * 60 + k mod 60 = (k :: nat)"
proof -
  define q where "q = k div 60"
  have "k div 3600 = q div 60" by (simp add: q_def div_mult2_eq [symmetric])
  moreover have "60 * (q div 60) + q mod 60 = q" by simp
  moreover have "60 * q + k mod 60 = k" by (simp add: q_def)
  ultimately show ?thesis unfolding q_def [symmetric] by linarith
qed

lemma civil_fields_spec:
  assumes "-62167219200 \<le> unix_secs t" and "unix_secs t \<le> 253402300799"
  shows "\<exists>y m d h mi s. civil_fields t = (int y, m, d, h, mi, s) \<and>
    valid_date y m d \<and> valid_clock h mi s \<and> civil_secs y m d h mi s = unix_secs t"
proof -
  let ?n = "unix_secs t div 86400 + 719528" and ?r = "nat (unix_secs t mod 86400)"
  have "0 \<le> ?n" "?n < 3652425" using assms by auto
  then obtain y m d where c: "civil_of ?n = (int y, m, d)" "valid_date y m d"
      "civil_days y m d = ?n - 719528"
    using civil_of_spec by blast
  have r: "?r < 86400" by simp
  have "valid_clock (?r div 3600) (?r div 60 mod 60) (?r mod 60)"
    using r by (simp add: valid_clock_def less_mult_imp_div_less)
  moreover have "?r div 3600 * 3600 + ?r div 60 mod 60 * 60 + ?r mod 60 = ?r"
    by (rule clock_split)
  then have "civil_secs y m d (?r div 3600) (?r div 60 mod 60) (?r mod 60) = unix_secs t"
    unfolding civil_secs_def c(3) by (simp only:) simp
  moreover have "civil_fields t = (int y, m, d, ?r div 3600, ?r div 60 mod 60, ?r mod 60)"
    by (simp only: civil_fields_def c(1) prod.case Let_def)
  ultimately show ?thesis using c(2) by blast
qed

section \<open>Uniqueness of the calendar date\<close>

lemma days_before_year_mono: "y \<le> y' \<Longrightarrow> days_before_year y \<le> days_before_year y'"
  by (rule lift_Suc_mono_le) (simp_all add: days_before_year_Suc)

lemma days_before_month_Suc: "1 \<le> m \<Longrightarrow> days_before_month (Suc m) y = days_before_month m y + days_in m y"
  by (simp add: days_before_month_def del: days_in.simps)

lemma days_before_month_mono:
  assumes "m \<le> m'"
  shows "days_before_month m y \<le> days_before_month m' y"
proof (rule lift_Suc_mono_le [of "\<lambda>m. days_before_month m y", OF _ assms])
  show "days_before_month n y \<le> days_before_month (Suc n) y" for n
    by (cases "1 \<le> n") (simp_all add: days_before_month_def del: days_in.simps)
qed

lemma days_before_month_bound:
  assumes "1 \<le> m" and "m \<le> 12"
  shows "days_before_month m y + days_in m y \<le> (if is_leap y then 366 else 365)"
proof -
  have "days_before_month (Suc m) y \<le> days_before_month 13 y"
    using assms by (intro days_before_month_mono) simp
  then show ?thesis using assms days_in_year [of y] by (simp add: days_before_month_Suc days_before_month_def del: days_in.simps)
qed

lemma day_of_year:
  assumes "valid_date y m d"
  shows "days_before_year y + (days_before_month m y + (d - 1)) < days_before_year (Suc y)"
proof -
  note v = assms [unfolded valid_date_def]
  define a b where "a = days_before_month m y" and "b = days_in m y"
  have "a + b \<le> (if is_leap y then 366 else 365)"
    using v days_before_month_bound [of m y] unfolding a_def b_def by blast
  moreover have "1 \<le> d" "d \<le> b" using v by (simp_all add: b_def)
  ultimately have "a + (d - 1) < (if is_leap y then 366 else 365)" by linarith
  then show ?thesis unfolding days_before_year_Suc a_def by linarith
qed

lemma civil_days_inject:
  assumes "valid_date y m d" and "valid_date y' m' d'" and "civil_days y m d = civil_days y' m' d'"
  shows "y = y' \<and> m = m' \<and> d = d'"
proof -
  note v = assms(1,2) [unfolded valid_date_def]
  define k k' where "k = days_before_month m y + (d - 1)" and "k' = days_before_month m' y' + (d' - 1)"
  have eq: "days_before_year y + k = days_before_year y' + k'"
    using assms(3) by (simp add: civil_days_def k_def k'_def)
  have "days_before_year y + k < days_before_year (Suc y)"
    "days_before_year y' + k' < days_before_year (Suc y')"
    using day_of_year [OF assms(1)] day_of_year [OF assms(2)] by (simp_all only: k_def k'_def)
  then have y: "y = y'"
    using eq days_before_year_mono [of "Suc y" y'] days_before_year_mono [of "Suc y'" y]
    by (cases y y' rule: linorder_cases) auto
  then have kk: "days_before_month m y + (d - 1) = days_before_month m' y + (d' - 1)"
    using eq by (simp add: k_def k'_def)
  moreover have "d - 1 < days_in m y" "d' - 1 < days_in m' y" using v y by auto
  ultimately have "m = m'"
    using v days_before_month_mono [of "Suc m" m' y] days_before_month_mono [of "Suc m'" m y]
    by (cases m m' rule: linorder_cases) (auto simp: days_before_month_Suc simp del: days_in.simps)
  moreover from this have "d - 1 = d' - 1" using kk by simp
  moreover have "1 \<le> d" "1 \<le> d'" using v by blast+
  ultimately show ?thesis using y by linarith
qed

lemma civil_secs_range:
  assumes "valid_date y m d" and "valid_clock h mi s"
  shows "-62167219200 \<le> civil_secs y m d h mi s" and "civil_secs y m d h mi s \<le> 253402300799"
proof -
  note v = assms(1) [unfolded valid_date_def]
  have clock: "h * 3600 + mi * 60 + s < 86400" using assms(2) unfolding valid_clock_def by linarith
  have "days_before_year y + (days_before_month m y + (d - 1)) < days_before_year (Suc y)"
    by (rule day_of_year [OF assms(1)])
  moreover have "days_before_year (Suc y) \<le> days_before_year 10000"
    using v by (intro days_before_year_mono) simp
  moreover have "days_before_year 10000 = 3652425" by (simp add: days_before_year_def)
  ultimately have "civil_days y m d + 719528 < 3652425" by (simp add: civil_days_def)
  moreover have "0 \<le> civil_days y m d + 719528" by (simp add: civil_days_def)
  ultimately show "-62167219200 \<le> civil_secs y m d h mi s" "civil_secs y m d h mi s \<le> 253402300799"
    using clock unfolding civil_secs_def by linarith+
qed

lemma clock_inject:
  assumes "valid_clock h mi s" and "valid_clock h' mi' s'"
    and eq: "h * 3600 + mi * 60 + s = h' * 3600 + mi' * 60 + s'"
  shows "h = h' \<and> mi = mi' \<and> s = s'"
proof -
  note v = assms(1,2) [unfolded valid_clock_def]
  have "h = h'" using v eq by (cases h h' rule: linorder_cases) linarith+
  moreover from this have "mi = mi'" using v eq by (cases mi mi' rule: linorder_cases) linarith+
  ultimately show ?thesis using eq by simp
qed

lemma civil_fields_unique:
  assumes "valid_date y m d" and "valid_clock h mi s" and "unix_secs t = civil_secs y m d h mi s"
  shows "civil_fields t = (int y, m, d, h, mi, s)"
proof -
  have "-62167219200 \<le> unix_secs t" "unix_secs t \<le> 253402300799"
    using civil_secs_range [OF assms(1,2)] by (simp_all add: assms(3))
  then obtain y' m' d' h' mi' s' where c: "civil_fields t = (int y', m', d', h', mi', s')"
      "valid_date y' m' d'" "valid_clock h' mi' s'" "civil_secs y' m' d' h' mi' s' = unix_secs t"
    using civil_fields_spec [of t] by blast
  have "h * 3600 + mi * 60 + s < 86400" "h' * 3600 + mi' * 60 + s' < 86400"
    using assms(2) c(3) unfolding valid_clock_def by linarith+
  moreover have secs: "civil_days y' m' d' * 86400 + int (h' * 3600 + mi' * 60 + s') =
      civil_days y m d * 86400 + int (h * 3600 + mi * 60 + s)"
    using c(4) unfolding assms(3) civil_secs_def .
  ultimately have days: "civil_days y m d = civil_days y' m' d'" by linarith
  then have "int (h * 3600 + mi * 60 + s) = int (h' * 3600 + mi' * 60 + s')"
    using secs by linarith
  then have "h * 3600 + mi * 60 + s = h' * 3600 + mi' * 60 + s'" by (simp only: of_nat_eq_iff)
  then show ?thesis
    using civil_days_inject [OF assms(1) c(2) days] clock_inject [OF assms(2) c(3)] c(1) by simp
qed

end
