(* ===== verification/Dates.thy ===== *)
theory Dates
  imports Ordered Calendar
begin

text \<open>
  \<^verbatim>\<open>pkg/iampolicy/dates.go\<close>: reading a date condition value or a date-valued request key
  (\<open>ParseDate\<close>), the two keys written from one instant (\<open>SetRequestTime\<close>) and the date
  operators. Logging has no effect on the results and is left out.
\<close>

section \<open>The code\<close>

definition date_chunks :: "chunk list" where
  "date_chunks = [LongYear, Literal CHR ''-'', ZeroMonth, Literal CHR ''-'', ZeroDay]"

text \<open>\<open>dateLayouts\<close>: \<^verbatim>\<open>2006-01\<close>, \<^verbatim>\<open>2006-01-02\<close>, \<^verbatim>\<open>2006-01-02T15:04Z07:00\<close> and RFC 3339.\<close>

definition dateLayouts :: "chunk list list" where
  "dateLayouts =
     [[LongYear, Literal CHR ''-'', ZeroMonth],
      date_chunks,
      date_chunks @ [Literal CHR ''T'', Hour, Literal CHR '':'', ZeroMinute, ISO8601ColonTZ],
      date_chunks @ [Literal CHR ''T'', Hour, Literal CHR '':'', ZeroMinute, Literal CHR '':'',
        ZeroSecond, ISO8601ColonTZ]]"

definition minEpochSeconds :: int where "minEpochSeconds = -62135596800"
definition maxEpochSeconds :: int where "maxEpochSeconds = 253402300799"

fun first_parse :: "chunk list list \<Rightarrow> string \<Rightarrow> go_time option" where
  "first_parse [] s = None"
| "first_parse (layout # layouts) s =
     (case time_parse layout s of Some t \<Rightarrow> Some t | None \<Rightarrow> first_parse layouts s)"

definition ParseDate :: "string \<Rightarrow> go_time option" where
  "ParseDate s =
     (if allDigits (trim_prefix s ''-'') then
        (case parse_int 64 s of
           None \<Rightarrow> None
         | Some secs \<Rightarrow>
             if secs < minEpochSeconds \<or> secs > maxEpochSeconds then None else Some (Time secs 0))
      else if contains s '','' then None
      else first_parse dateLayouts s)"

text \<open>The layout's \<^verbatim>\<open>Z\<close> is a literal, so the caller has to pass an instant in UTC; the code does.\<close>

definition currentTimeLayout :: "chunk list" where
  "currentTimeLayout = date_chunks @ [Literal CHR ''T'', Hour, Literal CHR '':'', ZeroMinute,
     Literal CHR '':'', ZeroSecond, Literal CHR ''Z'']"

definition format_utc :: "go_time \<Rightarrow> string" where
  "format_utc t = time_format currentTimeLayout t"

definition SetRequestTime :: "condition_keys \<Rightarrow> go_time \<Rightarrow> condition_keys" where
  "SetRequestTime k now =
     k(KeyCurrentTime \<mapsto> format_utc now, KeyEpochTime \<mapsto> format_int (unix_secs now))"

definition dateCompares :: "string \<Rightarrow> int \<Rightarrow> bool" where
  "dateCompares operator cmp =
     (if operator = OpDateEquals then cmp = 0
      else if operator = OpDateLessThan then cmp < 0
      else if operator = OpDateLessThanEquals then cmp \<le> 0
      else if operator = OpDateGreaterThan then cmp > 0
      else if operator = OpDateGreaterThanEquals then cmp \<ge> 0
      else False)"

definition dateHoldsAny :: "string \<Rightarrow> string \<Rightarrow> string list \<Rightarrow> bool \<Rightarrow> bool" where
  "dateHoldsAny operator actual vs failClosed =
     (case ParseDate actual of
        None \<Rightarrow> failClosed
      | Some t \<Rightarrow> list_ex (\<lambda>v. case ParseDate v of
            None \<Rightarrow> False
          | Some want \<Rightarrow> dateCompares operator (time_compare t want)) vs)"

section \<open>The date operators\<close>

interpretation time_order: comparison "\<lambda>_ :: go_time. True" time_compare
  by unfold_locales (auto simp: time_compare_order split: if_splits)

interpretation date_ops: ordered_operators "\<lambda>_. True" time_compare ParseDate dateCompares dateHoldsAny
  OpDateEquals OpDateLessThan OpDateLessThanEquals OpDateGreaterThan OpDateGreaterThanEquals
  by unfold_locales (simp_all add: dateHoldsAny_def dateCompares_def op_neq)

section \<open>Dates written out parse back\<close>

lemma parse_date_chunks:
  assumes "y < 10000" and "1 \<le> m" and "m \<le> 12" and "d \<le> 31"
  shows "parse_chunks (date_chunks @ cs) (padded 4 y @ ''-'' @ padded 2 m @ ''-'' @ padded 2 d @ s) parse_start =
    parse_chunks cs s (parse_start\<lparr>ps_year := y, ps_month := m, ps_day := d\<rparr>)"
  using assms
  by (simp add: date_chunks_def year_padded getnum_padded del: parse_chunk.simps(2) padded.simps)

lemma year_month_padded:
  assumes "y < 10000" and "1 \<le> m" and "m \<le> 12"
  shows "parse_chunks [LongYear, Literal CHR ''-'', ZeroMonth] (padded 4 y @ ''-'' @ padded 2 m @ s) parse_start =
    (if s = [] then Some (parse_start\<lparr>ps_year := y, ps_month := m\<rparr>) else None)"
  using assms by (simp add: year_padded getnum_padded del: parse_chunk.simps(2) padded.simps)

text \<open>The full form: everything up to the seconds, then the rest and the zone.\<close>

definition date_text :: "nat \<Rightarrow> nat \<Rightarrow> nat \<Rightarrow> string" where
  "date_text y m d = padded 4 y @ ''-'' @ padded 2 m @ ''-'' @ padded 2 d"

definition clock_text :: "nat \<Rightarrow> nat \<Rightarrow> nat \<Rightarrow> string" where
  "clock_text h mi s = ''T'' @ padded 2 h @ '':'' @ padded 2 mi @ '':'' @ padded 2 s @ ''Z''"

lemma padded_2: "n < 100 \<Longrightarrow> padded 2 n = [digit_char (n div 10), digit_char (n mod 10)]"
  by (simp add: numeral_2_eq_2)

lemma getnum_free: "n < 100 \<Longrightarrow> getnum False (padded 2 n @ s) = Some (n, s)"
  by (rule getnum_padded)

lemma not_epoch_form: "\<not> allDigits (trim_prefix (date_text y m d @ s) ''-'')"
proof -
  have "padded 4 y \<noteq> []" using padded_length [of 4 y] by (metis list.size(3) zero_neq_numeral)
  then obtain a b where ab: "padded 4 y = a # b" by (auto simp: neq_Nil_conv)
  then have "is_digit a" using padded_digits [of 4 y] by simp
  then have "a \<noteq> CHR ''-''" using sign_not_digit by blast
  then have "trim_prefix (date_text y m d @ s) ''-'' = date_text y m d @ s"
    by (simp add: ab date_text_def trim_prefix_def cut_prefix_def)
  moreover have "\<not> list_all is_digit (date_text y m d @ s)"
    by (simp add: date_text_def is_digit_def byte_def)
  ultimately show ?thesis by (simp add: allDigits_def)
qed

lemma no_comma:
  assumes "CHR '','' \<notin> set s"
  shows "\<not> contains s '',''"
  using assms by (auto simp: contains_def index_of_byte index_byte_None)

lemma padded_no_comma: "CHR '','' \<notin> set (padded k n)"
  using padded_digits [of k n] by (auto simp: list_all_iff is_digit_def byte_def)


text \<open>The first three forms fail on a full one; the fourth reads it.\<close>

lemma time_parse_full:
  assumes "valid_date y m d" and "valid_clock h mi s"
  shows "first_parse dateLayouts (date_text y m d @ clock_text h mi s) =
    Some (Time (civil_secs y m d h mi s) 0)"
proof -
  have v: "y < 10000" "1 \<le> m" "m \<le> 12" "1 \<le> d" "d \<le> 31" "h < 24" "mi < 60" "s < 60"
    "d \<le> days_in m y" "h < 100" "mi < 100" "s < 100"
    using assms days_in_31 [of m y] by (auto simp: valid_date_def valid_clock_def simp del: days_in.simps)
  note read = parse_date_chunks [OF v(1-3,5)] year_month_padded [OF v(1-3)]
  define str where "str = date_text y m d @ clock_text h mi s"
  have str: "str = padded 4 y @ ''-'' @ padded 2 m @ ''-'' @ padded 2 d @ clock_text h mi s"
    by (simp add: str_def date_text_def)
  have 1: "time_parse [LongYear, Literal CHR ''-'', ZeroMonth] str = None"
    by (simp only: time_parse_def str read) simp
  have 2: "time_parse date_chunks str = None"
    using read(1) [of "[]" "clock_text h mi s"]
    by (simp add: time_parse_def str clock_text_def)
  have 3: "time_parse (date_chunks @ [Literal CHR ''T'', Hour, Literal CHR '':'', ZeroMinute, ISO8601ColonTZ]) str = None"
    using v by (simp only: time_parse_def str read)
      (simp add: clock_text_def getnum_padded parse_offset_def del: padded.simps)
  have 4: "time_parse (date_chunks @ [Literal CHR ''T'', Hour, Literal CHR '':'', ZeroMinute, Literal CHR '':'',
        ZeroSecond, ISO8601ColonTZ]) str = Some (Time (civil_secs y m d h mi s) 0)"
    using v by (simp only: time_parse_def str read)
      (simp add: clock_text_def getnum_padded fractional_def zone_shift_def parse_start_def
        del: padded.simps days_in.simps)
  show ?thesis
    unfolding str_def [symmetric] dateLayouts_def by (simp add: 1 2 3 4)
qed

lemma ParseDate_full:
  assumes "valid_date y m d" and "valid_clock h mi s"
  shows "ParseDate (date_text y m d @ clock_text h mi s) = Some (Time (civil_secs y m d h mi s) 0)"
proof -
  have "CHR '','' \<notin> set (date_text y m d @ clock_text h mi s)"
    using padded_no_comma by (auto simp: date_text_def clock_text_def)
  then show ?thesis
    using time_parse_full [OF assms] not_epoch_form no_comma by (simp add: ParseDate_def)
qed

lemma time_parse_date:
  assumes "valid_date y m d"
  shows "ParseDate (date_text y m d) = Some (Time (civil_secs y m d 0 0 0) 0)"
proof -
  have v: "y < 10000" "1 \<le> m" "m \<le> 12" "1 \<le> d" "d \<le> 31" "d \<le> days_in m y"
    using assms days_in_31 [of m y] by (auto simp: valid_date_def simp del: days_in.simps)
  have str: "date_text y m d = padded 4 y @ ''-'' @ padded 2 m @ ''-'' @ padded 2 d @ []"
    by (simp add: date_text_def)
  have 1: "time_parse [LongYear, Literal CHR ''-'', ZeroMonth] (date_text y m d) = None"
    by (simp only: time_parse_def str year_month_padded [OF v(1-3)]) simp
  have 2: "time_parse date_chunks (date_text y m d) = Some (Time (civil_secs y m d 0 0 0) 0)"
    using parse_date_chunks [OF v(1-3,5), of "[]" "[]"] v(4,6)
    by (simp add: time_parse_def str zone_shift_def parse_start_def del: days_in.simps)
  have "CHR '','' \<notin> set (date_text y m d)"
    using padded_no_comma by (auto simp: date_text_def)
  then show ?thesis
    using not_epoch_form [of y m d "[]"] no_comma 1 2 by (simp add: ParseDate_def dateLayouts_def)
qed

lemma format_utc_text:
  assumes "-62167219200 \<le> unix_secs t" and "unix_secs t \<le> maxEpochSeconds"
  shows "\<exists>y m d h mi s. format_utc t = date_text y m d @ clock_text h mi s \<and>
    valid_date y m d \<and> valid_clock h mi s \<and> civil_secs y m d h mi s = unix_secs t"
proof -
  from civil_fields_spec [of t] assms obtain y m d h mi s where
    c: "civil_fields t = (int y, m, d, h, mi, s)" "valid_date y m d" "valid_clock h mi s"
      "civil_secs y m d h mi s = unix_secs t"
    unfolding maxEpochSeconds_def by blast
  then have "format_utc t = date_text y m d @ clock_text h mi s"
    by (simp add: format_utc_def time_format_def currentTimeLayout_def date_chunks_def format_year_def
        valid_date_def date_text_def clock_text_def del: padded.simps)
  then show ?thesis using c by blast
qed

lemma format_int_all_digits: "allDigits (trim_prefix (format_int v) ''-'')"
proof (cases "v < 0")
  case True
  then show ?thesis using nat_string_spec [of "nat (- v)"]
    by (simp add: format_int_def trim_prefix_def cut_prefix_def allDigits_def)
next
  case False
  obtain c s where s: "nat_string (nat v) = c # s"
    using nat_string_spec [of "nat v"] by (cases "nat_string (nat v)") auto
  then have "is_digit c" "list_all is_digit s" using nat_string_spec [of "nat v"] by auto
  moreover from this have "c \<noteq> CHR ''-''" using sign_not_digit by blast
  ultimately show ?thesis using False s
    by (simp add: format_int_def trim_prefix_def cut_prefix_def allDigits_def)
qed

lemma ParseDate_epoch:
  "ParseDate (format_int v) = (if minEpochSeconds \<le> v \<and> v \<le> maxEpochSeconds then Some (Time v 0) else None)"
  using parse_int_format [of 64 v] format_int_all_digits [of v]
  by (auto simp: ParseDate_def minEpochSeconds_def maxEpochSeconds_def)

section \<open>Properties\<close>

text \<open>The two keys \<open>SetRequestTime\<close> writes denote one instant: for any server clock in the years the
  epoch bounds span, both read back through \<open>ParseDate\<close> as that instant truncated to the second, and no
  other key changes.\<close>
theorem SetRequestTime_roundtrip:
  assumes "minEpochSeconds \<le> unix_secs now" and "unix_secs now \<le> maxEpochSeconds"
  shows "map_option ParseDate (SetRequestTime k now KeyCurrentTime) = Some (Some (Time (unix_secs now) 0)) \<and>
    map_option ParseDate (SetRequestTime k now KeyEpochTime) = Some (Some (Time (unix_secs now) 0)) \<and>
    (\<forall>key. key = KeyCurrentTime \<or> key = KeyEpochTime \<or> SetRequestTime k now key = k key)"
proof -
  have "-62167219200 \<le> unix_secs now" using assms by (simp add: minEpochSeconds_def)
  from format_utc_text [OF this assms(2)] obtain y m d h mi s where
    "format_utc now = date_text y m d @ clock_text h mi s" "valid_date y m d" "valid_clock h mi s"
    "civil_secs y m d h mi s = unix_secs now" by blast
  then have "ParseDate (format_utc now) = Some (Time (unix_secs now) 0)" using ParseDate_full by simp
  then show ?thesis
    using assms by (simp add: SetRequestTime_def ParseDate_epoch key_neq)
qed

theorem SetRequestTime_roundtrip_witness:
  "map_option ParseDate (SetRequestTime Map.empty (Time 1718000000 5) KeyCurrentTime) = Some (Some (Time 1718000000 0))"
proof -
  have "minEpochSeconds \<le> unix_secs (Time 1718000000 5)" "unix_secs (Time 1718000000 5) \<le> maxEpochSeconds"
    by (simp_all add: minEpochSeconds_def maxEpochSeconds_def)
  from SetRequestTime_roundtrip [OF this, of Map.empty] show ?thesis by simp
qed

lemmas civil_defs = civil_secs_def civil_days_def days_before_year_def days_before_month_def
  is_leap_def upt_conv_Cons

text \<open>A full ISO 8601 timestamp in UTC reads as the instant of the Gregorian calendar it names, and a
  bare date as its midnight, for every valid date of the years 0000 to 9999 (the calendar counts days
  from 1970-01-01 by the leap-year rule).\<close>
theorem iso_date_reads:
  assumes "valid_date y m d" and "valid_clock h mi s"
  shows "ParseDate (date_text y m d @ clock_text h mi s) = Some (Time (civil_secs y m d h mi s) 0) \<and>
    ParseDate (date_text y m d) = Some (Time (civil_days y m d * 86400) 0)"
  using ParseDate_full [OF assms] time_parse_date [OF assms(1)] by (simp add: civil_secs_def)

theorem iso_date_reads_witness:
  "ParseDate (date_text 2024 2 29 @ clock_text 23 59 59) = Some (Time 1709251199 0)"
proof -
  have "valid_date 2024 2 29" "valid_clock 23 59 59" by (simp_all add: valid_date_def valid_clock_def is_leap_def)
  moreover have "civil_secs 2024 2 29 23 59 59 = 1709251199" by (simp add: civil_defs)
  ultimately show ?thesis using iso_date_reads [of 2024 2 29 23 59 59] by simp
qed

text \<open>The epoch form covers the years 0001 to 9999 and nothing else: a decimal integer is accepted
  exactly between 0001-01-01T00:00:00Z and 9999-12-31T23:59:59Z. The ISO form reaches further down: it
  spells year 0000, whose epoch seconds are refused.\<close>
theorem epoch_bounds:
  "ParseDate (format_int v) = (if minEpochSeconds \<le> v \<and> v \<le> maxEpochSeconds then Some (Time v 0) else None) \<and>
   minEpochSeconds = civil_secs 1 1 1 0 0 0 \<and> maxEpochSeconds = civil_secs 9999 12 31 23 59 59 \<and>
   ParseDate ''0000-01-01'' = Some (Time (civil_secs 0 1 1 0 0 0) 0) \<and>
   ParseDate (format_int (civil_secs 0 1 1 0 0 0)) = None"
proof -
  have bounds: "civil_secs 1 1 1 0 0 0 = -62135596800" "civil_secs 9999 12 31 23 59 59 = 253402300799"
    "civil_secs 0 1 1 0 0 0 = -62167219200"
    by (simp_all add: civil_defs)
  have "valid_date 0 1 1" by (simp add: valid_date_def is_leap_def)
  then have "ParseDate (date_text 0 1 1) = Some (Time (civil_secs 0 1 1 0 0 0) 0)" by (rule time_parse_date)
  moreover have "date_text 0 1 1 = ''0000-01-01''" by code_simp
  ultimately have "ParseDate ''0000-01-01'' = Some (Time (civil_secs 0 1 1 0 0 0) 0)" by (simp only:)
  then show ?thesis
    using bounds by (simp add: ParseDate_epoch minEpochSeconds_def maxEpochSeconds_def)
qed

end
