(* ===== verification/Netip.thy ===== *)
theory Netip
  imports GoStrings "HOL-Library.Word"
begin

unbundle bit_operations_syntax

text \<open>
  The part of Go's \<^verbatim>\<open>net/netip\<close> the condition evaluator uses: \<^verbatim>\<open>ParseAddr\<close>, \<^verbatim>\<open>Unmap\<close>,
  \<^verbatim>\<open>ParsePrefix\<close>, \<^verbatim>\<open>Masked\<close> and \<^verbatim>\<open>Contains\<close>. An address is a 32-bit word, or a 128-bit word with a
  zone; the empty string is the absent zone. Addresses are compared as Go compares them, kind,
  bits and zone.
\<close>

section \<open>Addresses and prefixes\<close>

datatype addr = V4 "32 word" | V6 "128 word" string

record net_prefix =
  prefix_addr :: addr
  prefix_bits :: nat

fun has_zone :: "addr \<Rightarrow> bool" where
  "has_zone (V4 _) = False"
| "has_zone (V6 _ z) = (z \<noteq> [])"

text \<open>\<^verbatim>\<open>Unmap\<close>: an IPv4-mapped IPv6 address becomes the IPv4 one and loses its zone.\<close>

fun Unmap :: "addr \<Rightarrow> addr" where
  "Unmap (V4 a) = V4 a"
| "Unmap (V6 a z) = (if drop_bit 32 a = 0xffff then V4 (ucast a) else V6 a z)"

fun Masked :: "net_prefix \<Rightarrow> net_prefix" where
  "Masked p = (case prefix_addr p of
      V4 a \<Rightarrow> p\<lparr>prefix_addr := V4 (push_bit (32 - prefix_bits p) (drop_bit (32 - prefix_bits p) a))\<rparr>
    | V6 a z \<Rightarrow> p\<lparr>prefix_addr := V6 (push_bit (128 - prefix_bits p) (drop_bit (128 - prefix_bits p) a)) z\<rparr>)"

fun Contains :: "net_prefix \<Rightarrow> addr \<Rightarrow> bool" where
  "Contains p a = (case (prefix_addr p, a) of
      (V4 b, V4 c) \<Rightarrow> drop_bit (32 - prefix_bits p) (c XOR b) = 0
    | (V6 b _, V6 c z) \<Rightarrow> z = [] \<and> drop_bit (128 - prefix_bits p) (c XOR b) = 0
    | _ \<Rightarrow> False)"

section \<open>Parsing\<close>

text \<open>
  \<^verbatim>\<open>parseIPv4Fields\<close>: the octet being read, its digits so far and the finished octets.
\<close>

fun ipv4_fields :: "nat \<Rightarrow> nat \<Rightarrow> nat list \<Rightarrow> string \<Rightarrow> nat list option" where
  "ipv4_fields v digs octets [] = (if length octets < 3 then None else Some (octets @ [v]))"
| "ipv4_fields v digs octets (c # s) =
     (if is_digit c then
        (if digs = 1 \<and> v = 0 then None
         else if 255 < v * 10 + digit_val c then None
         else ipv4_fields (v * 10 + digit_val c) (Suc digs) octets s)
      else if c = CHR ''.'' then
        (if digs = 0 \<or> s = [] then None
         else if length octets = 3 then None
         else ipv4_fields 0 0 (octets @ [v]) s)
      else None)"

definition from_base :: "nat \<Rightarrow> nat list \<Rightarrow> nat" where
  "from_base b = foldl (\<lambda>n d. n * b + d) 0"

definition parse_ipv4 :: "string \<Rightarrow> addr option" where
  "parse_ipv4 s = map_option (\<lambda>fs. V4 (word_of_nat (from_base 256 fs))) (ipv4_fields 0 0 [] s)"

definition hex_val :: "char \<Rightarrow> nat option" where
  "hex_val c = (if is_digit c then Some (digit_val c)
     else if byte CHR ''a'' \<le> byte c \<and> byte c \<le> byte CHR ''f'' then Some (byte c - byte CHR ''a'' + 10)
     else if byte CHR ''A'' \<le> byte c \<and> byte c \<le> byte CHR ''F'' then Some (byte c - byte CHR ''A'' + 10)
     else None)"

definition hex_group :: "string \<Rightarrow> (nat \<times> string \<times> string) option" where
  "hex_group s =
     (let ds = takeWhile (\<lambda>c. hex_val c \<noteq> None) s
      in if ds = [] \<or> 4 < length ds then None
         else Some (from_base 16 (map (\<lambda>c. the (hex_val c)) ds), ds, drop (length ds) s))"

text \<open>
  The loop of \<^verbatim>\<open>parseIPv6\<close>: the 16-bit groups read so far, where the ellipsis was, the rest of the
  text. The code stores bytes, two per group, and stops at sixteen.
\<close>

function ipv6_loop :: "nat list \<Rightarrow> nat option \<Rightarrow> string \<Rightarrow> (nat list \<times> nat option \<times> string) option" where
  "ipv6_loop gs ell s =
     (if 8 \<le> length gs then Some (gs, ell, s)
      else (case hex_group s of
          None \<Rightarrow> None
        | Some (v, ds, r) \<Rightarrow>
            if r \<noteq> [] \<and> hd r = CHR ''.'' then
              (if ell = None \<and> length gs \<noteq> 6 then None
               else if 8 < length gs + 2 then None
               else (case ipv4_fields 0 0 [] s of
                   Some [a, b, c, d] \<Rightarrow> Some (gs @ [a * 256 + b, c * 256 + d], ell, [])
                 | _ \<Rightarrow> None))
            else (case r of
                [] \<Rightarrow> Some (gs @ [v], ell, [])
              | k # r' \<Rightarrow>
                  if k \<noteq> CHR '':'' \<or> r' = [] then None
                  else if hd r' = CHR '':'' then
                    (if ell \<noteq> None then None
                     else if tl r' = [] then Some (gs @ [v], Some (length gs + 1), [])
                     else ipv6_loop (gs @ [v]) (Some (length gs + 1)) (tl r'))
                  else ipv6_loop (gs @ [v]) ell r')))"
  by pat_completeness auto
termination by (relation "measure (\<lambda>(gs, _). 8 - length gs)") auto

declare ipv6_loop.simps [simp del]

definition fill_ellipsis :: "nat list \<Rightarrow> nat option \<Rightarrow> nat list option" where
  "fill_ellipsis gs ell =
     (if length gs < 8 then
        (case ell of None \<Rightarrow> None
         | Some e \<Rightarrow> Some (take e gs @ replicate (8 - length gs) 0 @ drop e gs))
      else if ell \<noteq> None then None else Some gs)"

definition parse_ipv6 :: "string \<Rightarrow> addr option" where
  "parse_ipv6 s =
     (let (body, zone, zoned) = cut s ''%''
      in if zoned \<and> zone = [] then None
         else if body = ''::'' then Some (V6 0 zone)
         else (case (if has_prefix body ''::'' then ipv6_loop [] (Some 0) (drop 2 body)
                     else ipv6_loop [] None body) of
             None \<Rightarrow> None
           | Some (gs, ell, rest) \<Rightarrow>
               if rest \<noteq> [] then None
               else map_option (\<lambda>all. V6 (word_of_nat (from_base 65536 all)) zone) (fill_ellipsis gs ell)))"

definition ParseAddr :: "string \<Rightarrow> addr option" where
  "ParseAddr s = (case dropWhile (\<lambda>c. c \<notin> set ''.:%'') s of
      [] \<Rightarrow> None
    | c # _ \<Rightarrow> if c = CHR ''.'' then parse_ipv4 s else if c = CHR '':'' then parse_ipv6 s else None)"

definition ParsePrefix :: "string \<Rightarrow> net_prefix option" where
  "ParsePrefix s =
     (if CHR ''/'' \<notin> set s then None
      else (let bits = after_last (CHR ''/'') s; ip = take (length s - length bits - 1) s
        in case ParseAddr ip of
             None \<Rightarrow> None
           | Some a \<Rightarrow>
               if has_zone a then None
               else if 1 < length bits \<and> \<not> (is_digit (hd bits) \<and> hd bits \<noteq> CHR ''0'') then None
               else (case parse_int 64 bits of
                   None \<Rightarrow> None
                 | Some n \<Rightarrow>
                     if n < 0 \<or> n > (case a of V4 _ \<Rightarrow> 32 | V6 _ _ \<Rightarrow> 128) then None
                     else Some \<lparr>prefix_addr = a, prefix_bits = nat n\<rparr>)))"

section \<open>Membership in a block\<close>

lemma xor_0_iff: "a XOR b = 0 \<longleftrightarrow> a = (b :: 'a :: len word)"
proof
  assume "a XOR b = 0"
  then have "(a XOR b) XOR b = b" by simp
  then show "a = b" by (simp add: xor.assoc)
qed simp

lemma drop_bit_xor_0: "drop_bit n (a XOR b) = 0 \<longleftrightarrow> drop_bit n a = drop_bit n (b :: 'a :: len word)"
  by (simp add: xor_0_iff)

lemma drop_bit_eq_iff: "drop_bit n a = drop_bit n (b :: 'a :: len word) \<longleftrightarrow> unat a div 2 ^ n = unat b div 2 ^ n"
  by (simp only: word_unat_eq_iff unat_drop_bit_eq) (simp only: drop_bit_eq_div)

lemma keep_top: "drop_bit n (push_bit n (drop_bit n a)) = drop_bit n (a :: 'a :: len word)"
  by (rule bit_eqI) (auto simp: bit_simps dest: bit_imp_le_length)

lemma Contains_V4:
  "Contains \<lparr>prefix_addr = V4 b, prefix_bits = n\<rparr> (V4 a) \<longleftrightarrow> unat a div 2 ^ (32 - n) = unat b div 2 ^ (32 - n)"
  by (simp add: drop_bit_xor_0 drop_bit_eq_iff del: drop_bit_xor)

lemma Contains_V6:
  "Contains \<lparr>prefix_addr = V6 b z, prefix_bits = n\<rparr> (V6 a []) \<longleftrightarrow> unat a div 2 ^ (128 - n) = unat b div 2 ^ (128 - n)"
  by (simp add: drop_bit_xor_0 drop_bit_eq_iff del: drop_bit_xor)

text \<open>Masking clears exactly the bits that membership ignores.\<close>

lemma Contains_Masked: "Contains (Masked p) a = Contains p a"
  by (auto simp: drop_bit_xor_0 keep_top split: addr.splits simp del: drop_bit_xor)

section \<open>Dotted quads\<close>

definition quad :: "nat \<Rightarrow> nat \<Rightarrow> nat \<Rightarrow> nat \<Rightarrow> string" where
  "quad a b c d = nat_string a @ ''.'' @ nat_string b @ ''.'' @ nat_string c @ ''.'' @ nat_string d"

definition quad_word :: "nat \<Rightarrow> nat \<Rightarrow> nat \<Rightarrow> nat \<Rightarrow> nat" where
  "quad_word a b c d = ((a * 256 + b) * 256 + c) * 256 + d"

lemma ipv4_digits:
  "list_all is_digit ds \<Longrightarrow> 1 \<le> v \<Longrightarrow> v * 10 ^ length ds + digits_nat ds \<le> 255 \<Longrightarrow>
   ipv4_fields v k fs (ds @ r) = ipv4_fields (v * 10 ^ length ds + digits_nat ds) (k + length ds) fs r"
proof (induction ds arbitrary: v k)
  case (Cons c ds)
  have "v * 10 + digit_val c \<le> (v * 10 + digit_val c) * 10 ^ length ds" by simp
  moreover have eq: "v * 10 ^ length (c # ds) + digits_nat (c # ds) = (v * 10 + digit_val c) * 10 ^ length ds + digits_nat ds"
    by (simp add: digits_nat_Cons algebra_simps)
  ultimately have "v * 10 + digit_val c \<le> 255" using Cons.prems(3) by linarith
  then have "ipv4_fields v k fs ((c # ds) @ r) = ipv4_fields (v * 10 + digit_val c) (Suc k) fs (ds @ r)"
    using Cons.prems by simp
  also have "\<dots> = ipv4_fields ((v * 10 + digit_val c) * 10 ^ length ds + digits_nat ds) (Suc k + length ds) fs r"
    using Cons.prems eq by (intro Cons.IH) auto
  finally show ?case unfolding eq by simp
qed simp

lemma nat_string_head: "n \<noteq> 0 \<Longrightarrow> digit_val (hd (nat_string n)) \<noteq> 0"
proof (induction n rule: nat_string.induct)
  case (1 n)
  show ?case
  proof (cases "n < 10")
    case True
    then show ?thesis using 1 digit_char_digit [of n] by (simp add: nat_string.simps [of n])
  next
    case False
    then have "nat_string n = nat_string (n div 10) @ [digit_char (n mod 10)]"
      by (simp add: nat_string.simps [of n])
    then show ?thesis using 1 False nat_string_spec [of "n div 10"] by simp
  qed
qed

lemma nat_string_length: "n < 256 \<Longrightarrow> 1 \<le> length (nat_string n) \<and> length (nat_string n) \<le> 3"
proof -
  assume "n < 256"
  then have "n div 10 div 10 < 10" by simp
  then show ?thesis
    by (simp add: nat_string.simps [of n] nat_string.simps [of "n div 10"] nat_string.simps [of "n div 10 div 10"])
qed

lemma ipv4_octet:
  assumes n: "n < 256"
  shows "ipv4_fields 0 0 fs (nat_string n @ r) = ipv4_fields n (length (nat_string n)) fs r"
proof (cases "n = 0")
  case True
  then have "nat_string n = [digit_char 0]" by (simp add: nat_string.simps [of 0])
  then show ?thesis using True digit_char_digit [of 0] by simp
next
  case False
  obtain c ds where s: "nat_string n = c # ds"
    using nat_string_spec [of n] by (cases "nat_string n") auto
  have d: "is_digit c" "list_all is_digit ds" "digit_val c * 10 ^ length ds + digits_nat ds = n"
    using nat_string_spec [of n] s by (auto simp: digits_nat_Cons)
  moreover have c: "1 \<le> digit_val c" using nat_string_head [OF False] s by simp
  moreover have "digit_val c \<le> 255" using digit_val_less [OF d(1)] by simp
  ultimately show ?thesis using s n ipv4_digits [of ds "digit_val c" 1 fs r] by simp
qed

lemma octet_dot: "n < 256 \<Longrightarrow> r \<noteq> [] \<Longrightarrow> length fs < 3 \<Longrightarrow>
  ipv4_fields 0 0 fs (nat_string n @ CHR ''.'' # r) = ipv4_fields 0 0 (fs @ [n]) r"
  using nat_string_spec [of n] by (simp add: ipv4_octet is_digit_def byte_def)

lemma quad_fields:
  assumes "a < 256" and "b < 256" and "c < 256" and "d < 256"
  shows "ipv4_fields 0 0 [] (quad a b c d) = Some [a, b, c, d]"
  using assms nat_string_spec ipv4_octet [of d "[a, b, c]" "[]"]
  by (simp add: quad_def octet_dot)

lemma quad_split: "quad a b c d = nat_string a @ CHR ''.'' # drop (Suc (length (nat_string a))) (quad a b c d)"
  by (simp add: quad_def)

lemma digits_stop: "list_all is_digit ds \<Longrightarrow> \<not> is_digit c \<Longrightarrow> (\<And>x. is_digit x \<Longrightarrow> P x) \<Longrightarrow> \<not> P c \<Longrightarrow>
  takeWhile P (ds @ c # r) = ds"
  by (induction ds) auto

lemma ParseAddr_quad:
  assumes "a < 256" and "b < 256" and "c < 256" and "d < 256"
  shows "ParseAddr (quad a b c d) = Some (V4 (word_of_nat (quad_word a b c d)))"
proof -
  define r where "r = drop (Suc (length (nat_string a))) (quad a b c d)"
  have "dropWhile (\<lambda>c. c \<notin> set ''.:%'') (ds @ CHR ''.'' # r) = CHR ''.'' # r" if "list_all is_digit ds" for ds
    using that by (induction ds) (auto simp: is_digit_def byte_def)
  then have "dropWhile (\<lambda>c. c \<notin> set ''.:%'') (quad a b c d) = CHR ''.'' # r"
    using quad_split [of a b c d] nat_string_spec [of a] r_def by metis
  then show ?thesis
    using quad_fields [OF assms] by (simp add: ParseAddr_def parse_ipv4_def from_base_def quad_word_def)
qed

lemma quad_chars: "x \<in> set (quad a b c d) \<Longrightarrow> is_digit x \<or> x = CHR ''.''"
  using nat_string_spec by (auto simp: quad_def list_all_iff)

definition mapped :: "string \<Rightarrow> string" where
  "mapped q = ''::ffff:'' @ q"

lemma hex_group_quad:
  assumes "a < 256"
  shows "hex_group (quad a b c d) = Some (from_base 16 (map (\<lambda>c. the (hex_val c)) (nat_string a)),
    nat_string a, CHR ''.'' # drop (Suc (length (nat_string a))) (quad a b c d))"
proof -
  have "takeWhile (\<lambda>c. hex_val c \<noteq> None) (quad a b c d) = nat_string a"
    by (subst quad_split, rule digits_stop) (auto simp: nat_string_spec hex_val_def is_digit_def byte_def)
  moreover have "drop (length (nat_string a)) (quad a b c d) = CHR ''.'' # drop (Suc (length (nat_string a))) (quad a b c d)"
    by (simp add: quad_def)
  ultimately show ?thesis
    using nat_string_length [OF assms] nat_string_spec [of a] by (simp add: hex_group_def Let_def)
qed

lemma fill_mapped: "fill_ellipsis [65535, p, q] (Some 0) = Some [0, 0, 0, 0, 0, 65535, p, q]"
proof -
  have "replicate 5 (0 :: nat) = [0, 0, 0, 0, 0]" by code_simp
  then show ?thesis by (simp add: fill_ellipsis_def)
qed

lemma groups_mapped:
  "from_base 65536 [0, 0, 0, 0, 0, 65535, a * 256 + b, c * 256 + d] = 0xffff * 2 ^ 32 + quad_word a b c d"
  by (simp add: from_base_def quad_word_def)

lemma ParseAddr_mapped:
  assumes q: "a < 256" "b < 256" "c < 256" "d < 256"
  shows "ParseAddr (mapped (quad a b c d)) =
    Some (V6 (word_of_nat (0xffff * 2 ^ 32 + quad_word a b c d)) [])"
proof -
  let ?q = "quad a b c d"
  have ne: "?q \<noteq> []" by (simp add: quad_def)
  have colon: "hd ?q \<noteq> CHR '':''"
    using quad_chars [OF hd_in_set [OF ne]] by (auto simp: is_digit_def byte_def)
  have "CHR ''%'' \<notin> set (mapped ?q)"
    using quad_chars [of "CHR ''%''"] by (auto simp: mapped_def is_digit_def byte_def)
  then have "cut (mapped ?q) ''%'' = (mapped ?q, [], False)" by (rule cut_byte_missing)
  moreover have "hex_group (''ffff:'' @ ?q) = Some (65535, ''ffff'', CHR '':'' # ?q)"
    by (simp add: hex_group_def hex_val_def is_digit_def byte_def from_base_def Let_def)
  then have "ipv6_loop [] (Some 0) (''ffff:'' @ ?q) = ipv6_loop [65535] (Some 0) ?q"
    using ne colon by (subst ipv6_loop.simps) simp
  moreover have "ipv6_loop [65535] (Some 0) ?q = Some ([65535, a * 256 + b, c * 256 + d], Some 0, [])"
    using hex_group_quad [OF q(1)] quad_fields [OF q] by (subst ipv6_loop.simps) simp
  ultimately have "parse_ipv6 (mapped ?q) = Some (V6 (word_of_nat (0xffff * 2 ^ 32 + quad_word a b c d)) [])"
    unfolding groups_mapped [symmetric] by (simp add: parse_ipv6_def mapped_def fill_mapped)
  then show ?thesis by (simp add: ParseAddr_def mapped_def)
qed

lemma Unmap_mapped:
  assumes "v < 2 ^ 32"
  shows "Unmap (V6 (word_of_nat (0xffff * 2 ^ 32 + v)) z) = V4 (word_of_nat v)"
proof -
  define w where "w = 0xffff * 2 ^ 32 + v"
  have "w < 2 ^ LENGTH(128)" using assms by (simp add: w_def)
  then have unat: "unat (word_of_nat w :: 128 word) = w"
    by (simp only: unat_of_nat mod_less)
  have "w div 2 ^ 32 = 0xffff" "w mod 2 ^ 32 = v"
    using assms div_mult_self3 [of "2 ^ 32" "0xffff" v] mod_mult_self3 [of "0xffff" "2 ^ 32" v]
    unfolding w_def by simp_all
  then have "unat (drop_bit 32 (word_of_nat w :: 128 word)) = unat (0xffff :: 128 word)"
    by (simp add: unat_drop_bit_eq drop_bit_eq_div [where 'a = nat] unat)
  then have "drop_bit 32 (word_of_nat w :: 128 word) = 0xffff"
    by (rule word_unat_eq_iff [THEN iffD2])
  moreover have "unat (ucast (word_of_nat w :: 128 word) :: 32 word) = v"
    using \<open>w mod 2 ^ 32 = v\<close> by (simp only: unsigned_ucast_eq unat take_bit_eq_mod) simp
  then have "(ucast (word_of_nat w :: 128 word) :: 32 word) = word_of_nat v"
    using assms by (intro word_unat_eq_iff [THEN iffD2]) (simp add: unat_of_nat)
  ultimately show ?thesis unfolding w_def by simp
qed

end
