(* ===== verification/Conditions.thy ===== *)
theory Conditions
  imports Match Numbers Dates Netip
begin

text \<open>
  \<^verbatim>\<open>pkg/iampolicy/conditions.go\<close>: the registry of supported conditions, the operators with their
  negated and IfExists forms, and the evaluation of a statement's condition blocks. The Go maps of
  the registry are association lists and lists used through lookup and membership only. Logging
  has no effect on the results and is left out.
\<close>

section \<open>The registry\<close>

definition negatedOperators :: "string \<Rightarrow> string option" where
  "negatedOperators = map_of
     [(OpStringNotEquals, OpStringEquals),
      (OpStringNotEqualsIgnoreCase, OpStringEqualsIgnoreCase),
      (OpStringNotLike, OpStringLike),
      (OpNotIPAddress, OpIPAddress),
      (OpArnNotEquals, OpArnEquals),
      (OpArnNotLike, OpArnLike),
      (OpDateNotEquals, OpDateEquals),
      (OpNumericNotEquals, OpNumericEquals)]"

definition stringEqualsOps :: "string list" where
  "stringEqualsOps =
     [OpStringEquals, OpStringNotEquals, OpStringEqualsIgnoreCase, OpStringNotEqualsIgnoreCase]"

definition stringLikeOps :: "string list" where
  "stringLikeOps = [OpStringLike, OpStringNotLike]"

definition dateOps :: "string list" where
  "dateOps = [OpDateEquals, OpDateNotEquals, OpDateLessThan, OpDateLessThanEquals,
     OpDateGreaterThan, OpDateGreaterThanEquals]"

definition numericOps :: "string list" where
  "numericOps = [OpNumericEquals, OpNumericNotEquals, OpNumericLessThan, OpNumericLessThanEquals,
     OpNumericGreaterThan, OpNumericGreaterThanEquals]"

definition operators :: "string list list \<Rightarrow> string list" where
  "operators sets = concat sets"

definition supportedConditions :: "string \<Rightarrow> string list option" where
  "supportedConditions = map_of
     [(KeySourceIP, [OpIPAddress, OpNotIPAddress]),
      (KeyS3Prefix, operators [stringEqualsOps, stringLikeOps]),
      (KeyS3MaxKeys, operators [numericOps]),
      (KeySecureTransport, [OpBool]),
      (KeyUsername, operators [stringEqualsOps]),
      (KeyPrincipalAccount, operators [stringEqualsOps]),
      (KeyUserID, operators [stringEqualsOps, stringLikeOps]),
      (KeyPrincipalType, operators [stringEqualsOps, stringLikeOps]),
      (KeyPassedToService, operators [stringEqualsOps, stringLikeOps]),
      (KeyCurrentTime, operators [dateOps]),
      (KeyEpochTime, operators [dateOps, numericOps])]"

definition BaseOperator :: "string \<Rightarrow> string \<times> bool" where
  "BaseOperator operator = cut_suffix operator IfExistsSuffix"

definition SupportedCondition :: "string \<Rightarrow> string \<Rightarrow> bool" where
  "SupportedCondition operator key =
     (case BaseOperator operator of (base, ifExists) \<Rightarrow>
        if base = OpNull then supportedConditions key \<noteq> None \<and> \<not> ifExists
        else (case supportedConditions key of None \<Rightarrow> False | Some ops \<Rightarrow> base \<in> set ops))"

section \<open>The operators\<close>

definition nullHolds :: "unicode \<Rightarrow> bool \<Rightarrow> string list \<Rightarrow> bool" where
  "nullHolds U present vs =
     list_ex (\<lambda>v. equal_fold U v ''true'' \<and> \<not> present \<or> equal_fold U v ''false'' \<and> present) vs"

fun equalsAny :: "unicode \<Rightarrow> string \<Rightarrow> string list \<Rightarrow> condition_keys \<Rightarrow> bool \<Rightarrow> bool \<Rightarrow> bool" where
  "equalsAny U actual [] keys failClosed foldCase = False"
| "equalsAny U actual (v # vs) keys failClosed foldCase =
     (case expandVariables v keys False of (resolved, result) \<Rightarrow>
        if result = ExpansionUnresolvable then
          (if failClosed then True else equalsAny U actual vs keys failClosed foldCase)
        else if foldCase \<and> equal_fold U resolved actual \<or> \<not> foldCase \<and> resolved = actual then True
        else equalsAny U actual vs keys failClosed foldCase)"

definition ip_value_holds :: "addr \<Rightarrow> string \<Rightarrow> bool" where
  "ip_value_holds a v =
     (case ParsePrefix v of
        Some p \<Rightarrow> Contains (Masked p) a
      | None \<Rightarrow> (case ParseAddr v of None \<Rightarrow> False | Some other \<Rightarrow> Unmap other = a))"

definition ipInAny :: "string \<Rightarrow> string list \<Rightarrow> bool \<Rightarrow> bool" where
  "ipInAny actual vs failClosed =
     (case ParseAddr actual of
        None \<Rightarrow> failClosed
      | Some a \<Rightarrow> list_ex (ip_value_holds (Unmap a)) vs)"

lemma positive_operator: "negatedOperators oper = Some positive \<Longrightarrow> negatedOperators positive = None"
  by (auto simp: negatedOperators_def op_neq split: if_splits)

function conditionHolds ::
  "unicode \<Rightarrow> string \<Rightarrow> string \<Rightarrow> string list \<Rightarrow> condition_keys \<Rightarrow> bool \<Rightarrow> bool" where
  "conditionHolds U operator actual vs keys failClosed =
     (case negatedOperators operator of
        Some positive \<Rightarrow> \<not> conditionHolds U positive actual vs keys (\<not> failClosed)
      | None \<Rightarrow>
          if operator = OpStringEquals then equalsAny U actual vs keys failClosed False
          else if operator = OpStringEqualsIgnoreCase then equalsAny U actual vs keys failClosed True
          else if operator = OpArnEquals \<or> operator = OpArnLike then
            list_ex (\<lambda>v. matchARN v actual keys failClosed) vs
          else if operator = OpBool then list_ex (\<lambda>v. equal_fold U v actual) vs
          else if operator = OpStringLike then
            list_ex (\<lambda>v. matchPattern v actual keys failClosed) vs
          else if operator = OpIPAddress then ipInAny actual vs failClosed
          else if operator \<in> {OpDateEquals, OpDateLessThan, OpDateLessThanEquals,
              OpDateGreaterThan, OpDateGreaterThanEquals} then
            dateHoldsAny operator actual vs failClosed
          else if operator \<in> {OpNumericEquals, OpNumericLessThan, OpNumericLessThanEquals,
              OpNumericGreaterThan, OpNumericGreaterThanEquals} then
            numericHoldsAny operator actual vs failClosed
          else False)"
  by pat_completeness auto
termination
  by (relation "measure (\<lambda>(U, operator, _). if negatedOperators operator = None then 0 else 1)")
    (auto dest: positive_operator)

declare conditionHolds.simps [simp del]

text \<open>One key of one condition block, and all of them.\<close>

definition entry_holds ::
  "unicode \<Rightarrow> string \<Rightarrow> condition_keys \<Rightarrow> bool \<Rightarrow> string \<times> string list \<Rightarrow> bool" where
  "entry_holds U operator keys failClosed e =
     (case BaseOperator operator of (base, ifExists) \<Rightarrow> case e of (key, vs) \<Rightarrow>
        if base = OpNull then nullHolds U (keys key \<noteq> None) vs
        else (case keys key of
            None \<Rightarrow> negatedOperators base \<noteq> None \<or> ifExists
          | Some actual \<Rightarrow> conditionHolds U base actual vs keys failClosed))"

definition conditionsHold :: "unicode \<Rightarrow> statement \<Rightarrow> condition_keys \<Rightarrow> bool \<Rightarrow> bool" where
  "conditionsHold U s keys failClosed =
     list_all (\<lambda>(operator, byKey). list_all (entry_holds U operator keys failClosed) byKey) (Condition s)"

section \<open>Interpretations of the operator interfaces\<close>

interpretation numeric_ops: ordered_operators number_wf number_compare ParseNumber numericCompares
  numericHoldsAny OpNumericEquals OpNumericLessThan OpNumericLessThanEquals OpNumericGreaterThan
  OpNumericGreaterThanEquals
proof unfold_locales
  show "ParseNumber s = Some x \<Longrightarrow> number_wf x" for s x by (rule ParseNumber_wf)
  show "numericHoldsAny oper actual vs fc = (case ParseNumber actual of None \<Rightarrow> fc
      | Some a \<Rightarrow> list_ex (\<lambda>v. case ParseNumber v of None \<Rightarrow> False
          | Some w \<Rightarrow> numericCompares oper (number_compare a w)) vs)" for oper actual vs fc
    by (rule numericHoldsAny_def)
qed (simp_all only: numericCompares_def op_neq if_True if_False simp_thms)

lemma equalsAny_template:
  "equalsAny U actual vs keys failClosed foldCase =
     list_ex (\<lambda>v. case template_text keys v of None \<Rightarrow> failClosed
       | Some t \<Rightarrow> foldCase \<and> equal_fold U t actual \<or> \<not> foldCase \<and> t = actual) vs"
proof (induction vs)
  case (Cons v vs)
  obtain r k where e: "expandVariables v keys False = (r, k)" by (cases "expandVariables v keys False")
  then have "template_text keys v = None \<and> k = ExpansionUnresolvable \<or>
      template_text keys v = Some r \<and> k \<noteq> ExpansionUnresolvable"
    using template_text_literal [of v keys]
    by (auto simp: expand_plain split: if_splits option.splits)
  then show ?case using Cons.IH e by auto
qed simp

interpretation equals_match: fail_closed "\<lambda>keys fc p v. equalsAny U v [p] keys fc foldCase"
  by unfold_locales
    (auto simp: equalsAny_template split: option.splits dest: template_text_mono)

lemma ipInAny_flag: "ipInAny a vs False \<Longrightarrow> ipInAny a vs fc" "ipInAny a vs fc \<Longrightarrow> ipInAny a vs True"
  by (auto simp: ipInAny_def split: option.splits)

lemma matchPattern_flag:
  "matchPattern p v keys False \<Longrightarrow> matchPattern p v keys fc" "matchPattern p v keys fc \<Longrightarrow> matchPattern p v keys True"
  by (auto intro: pattern_match.lower pattern_match.upper map_le_refl)

section \<open>Operators resolve against more keys, and only narrow\<close>

text \<open>
  The law of the \<^verbatim>\<open>fail_closed\<close> interface for a whole operator: what holds with the flag off keeps
  holding when more keys are supplied, and what holds with more keys holds with the flag on. The
  negated operators obey it because the flag is inverted inside them.
\<close>

lemma if_mono:
  "(if c then P else Q) \<Longrightarrow> (c \<Longrightarrow> P \<Longrightarrow> P') \<Longrightarrow> (\<not> c \<Longrightarrow> Q \<Longrightarrow> Q') \<Longrightarrow> (if c then P' else Q')"
  by (cases c) simp_all

lemma equalsAny_lower:
  "keys \<subseteq>\<^sub>m keys' \<Longrightarrow> equalsAny U a vs keys False foldCase \<Longrightarrow> equalsAny U a vs keys' fc foldCase"
  unfolding equalsAny_template by (erule list_ex_mono) (auto split: option.splits dest: template_text_mono)

lemma equalsAny_upper:
  "keys \<subseteq>\<^sub>m keys' \<Longrightarrow> equalsAny U a vs keys' fc foldCase \<Longrightarrow> equalsAny U a vs keys True foldCase"
  unfolding equalsAny_template by (erule list_ex_mono) (auto split: option.splits dest: template_text_mono)

lemma positive_lower:
  assumes le: "keys \<subseteq>\<^sub>m keys'" and pos: "negatedOperators oper = None"
    and h: "conditionHolds U oper a vs keys False"
  shows "conditionHolds U oper a vs keys' fc"
proof -
  note e = conditionHolds.simps [of U oper, unfolded pos option.case]
  note rules = equalsAny_lower [OF le] ipInAny_flag(1) date_ops.flag_mono numeric_ops.flag_mono
    arn_match.any_lower [OF le] pattern_match.any_lower [OF le]
  from h show ?thesis unfolding e by (elim if_mono) (erule rules | assumption)+
qed

lemma positive_upper:
  assumes le: "keys \<subseteq>\<^sub>m keys'" and pos: "negatedOperators oper = None"
    and h: "conditionHolds U oper a vs keys' fc"
  shows "conditionHolds U oper a vs keys True"
proof -
  note e = conditionHolds.simps [of U oper, unfolded pos option.case]
  note rules = equalsAny_upper [OF le] ipInAny_flag(2) date_ops.flag_mono' numeric_ops.flag_mono'
    arn_match.any_upper [OF le] pattern_match.any_upper [OF le]
  from h show ?thesis unfolding e by (elim if_mono) (erule rules | assumption)+
qed

lemma conditionHolds_negated:
  "negatedOperators oper = Some positive \<Longrightarrow>
   conditionHolds U oper a vs keys fc \<longleftrightarrow> \<not> conditionHolds U positive a vs keys (\<not> fc)"
  by (simp add: conditionHolds.simps [of U oper])

lemma conditionHolds_lower:
  assumes le: "keys \<subseteq>\<^sub>m keys'" and h: "conditionHolds U oper a vs keys False"
  shows "conditionHolds U oper a vs keys' fc"
  using h positive_lower [OF le] positive_upper [OF le] positive_operator
  by (cases "negatedOperators oper") (auto simp: conditionHolds_negated)

lemma conditionHolds_upper:
  assumes le: "keys \<subseteq>\<^sub>m keys'" and h: "conditionHolds U oper a vs keys' fc"
  shows "conditionHolds U oper a vs keys True"
  using h positive_lower [OF le] positive_upper [OF le] positive_operator
  by (cases "negatedOperators oper") (auto simp: conditionHolds_negated)

interpretation condition: fail_closed "\<lambda>keys fc (oper, vs) a. conditionHolds U oper a vs keys fc"
  by unfold_locales (auto intro: conditionHolds_lower conditionHolds_upper)

section \<open>Whole condition blocks\<close>

definition condition_keys_of :: "statement \<Rightarrow> string set" where
  "condition_keys_of s = {key. \<exists>oper byKey vs. (oper, byKey) \<in> set (Condition s) \<and> (key, vs) \<in> set byKey}"

lemma conditionsHold_entries:
  "conditionsHold U s keys fc \<longleftrightarrow>
   (\<forall>oper byKey e. (oper, byKey) \<in> set (Condition s) \<longrightarrow> e \<in> set byKey \<longrightarrow> entry_holds U oper keys fc e)"
  by (fastforce simp: conditionsHold_def list_all_iff)

lemma entry_lower:
  assumes le: "keys \<subseteq>\<^sub>m keys'" and k: "keys' key = keys key" and h: "entry_holds U oper keys False (key, vs)"
  shows "entry_holds U oper keys' fc (key, vs)"
  using h k conditionHolds_lower [OF le]
  by (auto simp: entry_holds_def split: prod.splits option.splits if_splits)

lemma entry_upper:
  assumes le: "keys \<subseteq>\<^sub>m keys'" and k: "keys' key = keys key" and h: "entry_holds U oper keys' fc (key, vs)"
  shows "entry_holds U oper keys True (key, vs)"
  using h k conditionHolds_upper [OF le]
  by (auto simp: entry_holds_def split: prod.splits option.splits if_splits)

lemma conditionsHold_lower:
  assumes "keys \<subseteq>\<^sub>m keys'" and "\<And>k. k \<in> condition_keys_of s \<Longrightarrow> keys' k = keys k"
    and "conditionsHold U s keys False"
  shows "conditionsHold U s keys' fc"
  unfolding conditionsHold_entries
proof (intro allI impI)
  fix oper byKey e
  assume o: "(oper, byKey) \<in> set (Condition s)" "e \<in> set byKey"
  obtain key vs where e: "e = (key, vs)" by (cases e)
  with o have "keys' key = keys key" by (intro assms(2)) (auto simp: condition_keys_of_def)
  with assms(1,3) o show "entry_holds U oper keys' fc e"
    unfolding e conditionsHold_entries by (metis entry_lower)
qed

lemma conditionsHold_upper:
  assumes "keys \<subseteq>\<^sub>m keys'" and "\<And>k. k \<in> condition_keys_of s \<Longrightarrow> keys' k = keys k"
    and "conditionsHold U s keys' fc"
  shows "conditionsHold U s keys True"
  unfolding conditionsHold_entries
proof (intro allI impI)
  fix oper byKey e
  assume o: "(oper, byKey) \<in> set (Condition s)" "e \<in> set byKey"
  obtain key vs where e: "e = (key, vs)" by (cases e)
  with o have "keys' key = keys key" by (intro assms(2)) (auto simp: condition_keys_of_def)
  with assms(1,3) o show "entry_holds U oper keys True e"
    unfolding e conditionsHold_entries by (metis entry_upper)
qed

section \<open>Properties\<close>

text \<open>The switch, operator by operator.\<close>

lemma positive_simps:
  "conditionHolds U OpStringEquals a vs keys fc = equalsAny U a vs keys fc False"
  "conditionHolds U OpStringEqualsIgnoreCase a vs keys fc = equalsAny U a vs keys fc True"
  "conditionHolds U OpArnEquals a vs keys fc = list_ex (\<lambda>v. matchARN v a keys fc) vs"
  "conditionHolds U OpArnLike a vs keys fc = list_ex (\<lambda>v. matchARN v a keys fc) vs"
  "conditionHolds U OpBool a vs keys fc = list_ex (\<lambda>v. equal_fold U v a) vs"
  "conditionHolds U OpStringLike a vs keys fc = list_ex (\<lambda>v. matchPattern v a keys fc) vs"
  "conditionHolds U OpIPAddress a vs keys fc = ipInAny a vs fc"
  "conditionHolds U OpDateEquals a vs keys fc = dateHoldsAny OpDateEquals a vs fc"
  "conditionHolds U OpDateLessThan a vs keys fc = dateHoldsAny OpDateLessThan a vs fc"
  "conditionHolds U OpDateLessThanEquals a vs keys fc = dateHoldsAny OpDateLessThanEquals a vs fc"
  "conditionHolds U OpDateGreaterThan a vs keys fc = dateHoldsAny OpDateGreaterThan a vs fc"
  "conditionHolds U OpDateGreaterThanEquals a vs keys fc = dateHoldsAny OpDateGreaterThanEquals a vs fc"
  "conditionHolds U OpNumericEquals a vs keys fc = numericHoldsAny OpNumericEquals a vs fc"
  "conditionHolds U OpNumericLessThan a vs keys fc = numericHoldsAny OpNumericLessThan a vs fc"
  "conditionHolds U OpNumericLessThanEquals a vs keys fc = numericHoldsAny OpNumericLessThanEquals a vs fc"
  "conditionHolds U OpNumericGreaterThan a vs keys fc = numericHoldsAny OpNumericGreaterThan a vs fc"
  "conditionHolds U OpNumericGreaterThanEquals a vs keys fc = numericHoldsAny OpNumericGreaterThanEquals a vs fc"
  by (simp_all add: conditionHolds.simps [of U] negatedOperators_def op_neq)

lemma negated_simps:
  "conditionHolds U OpStringNotEquals a vs keys fc \<longleftrightarrow> \<not> conditionHolds U OpStringEquals a vs keys (\<not> fc)"
  "conditionHolds U OpStringNotEqualsIgnoreCase a vs keys fc \<longleftrightarrow> \<not> conditionHolds U OpStringEqualsIgnoreCase a vs keys (\<not> fc)"
  "conditionHolds U OpStringNotLike a vs keys fc \<longleftrightarrow> \<not> conditionHolds U OpStringLike a vs keys (\<not> fc)"
  "conditionHolds U OpNotIPAddress a vs keys fc \<longleftrightarrow> \<not> conditionHolds U OpIPAddress a vs keys (\<not> fc)"
  "conditionHolds U OpArnNotEquals a vs keys fc \<longleftrightarrow> \<not> conditionHolds U OpArnEquals a vs keys (\<not> fc)"
  "conditionHolds U OpArnNotLike a vs keys fc \<longleftrightarrow> \<not> conditionHolds U OpArnLike a vs keys (\<not> fc)"
  "conditionHolds U OpDateNotEquals a vs keys fc \<longleftrightarrow> \<not> conditionHolds U OpDateEquals a vs keys (\<not> fc)"
  "conditionHolds U OpNumericNotEquals a vs keys fc \<longleftrightarrow> \<not> conditionHolds U OpNumericEquals a vs keys (\<not> fc)"
  by (simp_all add: conditionHolds_negated negatedOperators_def op_neq)

lemmas operator_simps = positive_simps negated_simps

text \<open>For each operator of the registry a policy value, a request value it holds on and one it does not.\<close>

definition operator_samples :: "(string \<times> string \<times> string \<times> string) list" where
  "operator_samples =
     [(OpStringEquals, ''b'', ''b'', ''a''), (OpStringNotEquals, ''b'', ''a'', ''b''),
      (OpStringEqualsIgnoreCase, ''b'', ''B'', ''a''), (OpStringNotEqualsIgnoreCase, ''b'', ''a'', ''B''),
      (OpStringLike, ''b*'', ''bc'', ''a''), (OpStringNotLike, ''b*'', ''a'', ''bc''),
      (OpIPAddress, ''1.2.0.0/16'', ''1.2.3.4'', ''1.3.3.4''), (OpNotIPAddress, ''1.2.0.0/16'', ''1.3.3.4'', ''1.2.3.4''),
      (OpBool, ''true'', ''True'', ''false''),
      (OpDateEquals, ''2'', ''2'', ''1''), (OpDateNotEquals, ''2'', ''1'', ''2''),
      (OpDateLessThan, ''2'', ''1'', ''2''), (OpDateLessThanEquals, ''2'', ''2'', ''3''),
      (OpDateGreaterThan, ''2'', ''3'', ''2''), (OpDateGreaterThanEquals, ''2'', ''2'', ''1''),
      (OpNumericEquals, ''2'', ''2.0'', ''1''), (OpNumericNotEquals, ''2'', ''1'', ''2e0''),
      (OpNumericLessThan, ''2'', ''1'', ''2''), (OpNumericLessThanEquals, ''2'', ''2'', ''3''),
      (OpNumericGreaterThan, ''2'', ''3'', ''2''), (OpNumericGreaterThanEquals, ''2'', ''2'', ''1'')]"

lemma quad_text: "''1.2.3.4'' = quad 1 2 3 4" "''1.3.3.4'' = quad 1 3 3 4" "''1.2.0.0'' = quad 1 2 0 0"
  by code_simp+

lemma prefix_text:
  "ParsePrefix ''1.2.0.0/16'' = Some \<lparr>prefix_addr = V4 (word_of_nat (quad_word 1 2 0 0)), prefix_bits = 16\<rparr>"
proof -
  have "after_last (CHR ''/'') ''1.2.0.0/16'' = ''16''" by simp
  moreover have "parse_int 64 ''16'' = Some 16" by code_simp
  ultimately show ?thesis
    by (simp add: ParsePrefix_def Let_def quad_text ParseAddr_quad is_digit_def byte_def
        del: after_last.simps One_nat_def)
qed

lemma samples_ip:
  "ipInAny ''1.2.3.4'' [''1.2.0.0/16''] fc" "\<not> ipInAny ''1.3.3.4'' [''1.2.0.0/16''] fc"
  by (simp_all add: ipInAny_def quad_text(1,2) ParseAddr_quad ip_value_holds_def prefix_text
      Contains_Masked Contains_V4 quad_word_def)

lemma samples_text:
  "equalsAny U ''b'' [''b''] Map.empty False False" "\<not> equalsAny U ''a'' [''b''] Map.empty True False"
  "equalsAny U ''B'' [''b''] Map.empty False True" "\<not> equalsAny U ''a'' [''b''] Map.empty True True"
  "matchPattern ''b*'' ''bc'' Map.empty False" "\<not> matchPattern ''b*'' ''a'' Map.empty True"
  "equal_fold U ''true'' ''True''" "\<not> equal_fold U ''true'' ''false''"
  by code_simp+

lemma samples_date:
  "ParseDate ''1'' = Some (Time 1 0)" "ParseDate ''2'' = Some (Time 2 0)" "ParseDate ''3'' = Some (Time 3 0)"
  by code_simp+

lemma samples_number:
  "ParseNumber ''1'' = Some \<lparr>num_neg = False, num_digits = ''1'', num_exp = 0\<rparr>"
  "ParseNumber ''2'' = Some \<lparr>num_neg = False, num_digits = ''2'', num_exp = 0\<rparr>"
  "ParseNumber ''2.0'' = Some \<lparr>num_neg = False, num_digits = ''2'', num_exp = 0\<rparr>"
  "ParseNumber ''2e0'' = Some \<lparr>num_neg = False, num_digits = ''2'', num_exp = 0\<rparr>"
  "ParseNumber ''3'' = Some \<lparr>num_neg = False, num_digits = ''3'', num_exp = 0\<rparr>"
  by code_simp+

lemma operator_samples_hold:
  assumes "(oper, v, yes, no) \<in> set operator_samples"
  shows "conditionHolds U oper yes [v] Map.empty False \<and> \<not> conditionHolds U oper no [v] Map.empty True"
proof -
  have "list_all (\<lambda>(oper, v, yes, no). conditionHolds U oper yes [v] Map.empty False \<and>
      \<not> conditionHolds U oper no [v] Map.empty True) operator_samples"
    unfolding operator_samples_def list.pred_inject prod.case operator_simps
    by (simp add: samples_ip samples_text date_ops.holds_any_law numeric_ops.holds_any_law date_ops.compares_simps
        numeric_ops.compares_simps samples_date samples_number time_compare_def number_compare_def
        number_sign_def magnitudeCompare_def byte_def del: equal_fold.simps equalsAny.simps)
  then show ?thesis using assms by (auto simp: list_all_iff)
qed

lemma operator_samples_cover:
  "fst ` set operator_samples = {OpIPAddress, OpNotIPAddress, OpBool} \<union> set stringEqualsOps
    \<union> set stringLikeOps \<union> set dateOps \<union> set numericOps"
  by (auto simp: operator_samples_def stringEqualsOps_def stringLikeOps_def dateOps_def numericOps_def)

lemma supported_operator:
  assumes "SupportedCondition oper key" and "fst (BaseOperator oper) \<noteq> OpNull"
  shows "fst (BaseOperator oper) \<in> {OpIPAddress, OpNotIPAddress, OpBool} \<union> set stringEqualsOps
    \<union> set stringLikeOps \<union> set dateOps \<union> set numericOps"
proof -
  obtain b e where b: "BaseOperator oper = (b, e)" by (cases "BaseOperator oper")
  with assms obtain ops where "supportedConditions key = Some ops" "b \<in> set ops"
    by (auto simp: SupportedCondition_def split: option.splits)
  then show ?thesis using b
    by (auto simp: supportedConditions_def operators_def split: if_splits)
qed

text \<open>C11: No condition the write path accepts is inert: for every supported operator and key (Null
  apart, which compares presence) there is a policy value that some request values satisfy and others do
  not, whatever the fail-closed flag. So a registered pair always reaches a branch of the operator switch
  that compares.\<close>
theorem supported_condition_discriminates:
  assumes "SupportedCondition oper key" and "fst (BaseOperator oper) \<noteq> OpNull"
  shows "\<exists>v yes no. \<forall>fc. entry_holds U oper [key \<mapsto> yes] fc (key, [v]) \<and>
    \<not> entry_holds U oper [key \<mapsto> no] fc (key, [v])"
proof -
  obtain b e where b: "BaseOperator oper = (b, e)" by (cases "BaseOperator oper")
  from supported_operator [OF assms] b obtain v yes no where
    s: "(b, v, yes, no) \<in> set operator_samples"
    unfolding operator_samples_cover [symmetric] by force
  have "conditionHolds U b yes [v] [key \<mapsto> yes] fc" for fc
    using operator_samples_hold [OF s] by (auto intro: conditionHolds_lower [where keys = Map.empty])
  moreover have "\<not> conditionHolds U b no [v] [key \<mapsto> no] fc" for fc
    using operator_samples_hold [OF s] conditionHolds_upper [of Map.empty "[key \<mapsto> no]" U b no "[v]" fc]
    by auto
  ultimately show ?thesis using assms b
    by (intro exI [of _ v] exI [of _ yes] exI [of _ no]) (simp add: entry_holds_def)
qed

theorem supported_condition_discriminates_witness:
  "\<exists>v yes no. \<forall>fc. entry_holds \<lparr>lower_runes = (\<lambda>s. s), fold_runes = (=)\<rparr> ''NumericLessThanIfExists''
      [KeyS3MaxKeys \<mapsto> yes] fc (KeyS3MaxKeys, [v]) \<and>
    \<not> entry_holds \<lparr>lower_runes = (\<lambda>s. s), fold_runes = (=)\<rparr> ''NumericLessThanIfExists''
      [KeyS3MaxKeys \<mapsto> no] fc (KeyS3MaxKeys, [v])"
  by (rule supported_condition_discriminates) code_simp+

text \<open>C10: Every operator narrows: what holds with the fail-closed flag off keeps holding, under either
  flag, when the door supplies more keys; and what holds with more keys holds with the flag on. Negated
  operators keep the law because they invert the flag inside.\<close>
theorem operator_narrows:
  assumes "keys \<subseteq>\<^sub>m keys'"
  shows "(conditionHolds U oper a vs keys False \<longrightarrow> conditionHolds U oper a vs keys' fc) \<and>
    (conditionHolds U oper a vs keys' fc \<longrightarrow> conditionHolds U oper a vs keys True)"
  using condition.lower [OF assms, where U = U and p = "(oper, vs)" and v = a and fc = fc]
    condition.upper [OF assms, where U = U and p = "(oper, vs)" and v = a and fc = fc]
  by auto

theorem operator_narrows_witness:
  "conditionHolds \<lparr>lower_runes = (\<lambda>s. s), fold_runes = (=)\<rparr> OpStringEquals ''b'' [''b''] [KeyUserID \<mapsto> ''x''] True"
  using operator_narrows [of Map.empty "[KeyUserID \<mapsto> ''x'']" "\<lparr>lower_runes = (\<lambda>s. s), fold_runes = (=)\<rparr>"
      OpStringEquals "''b''" "[''b'']" True] samples_text(1)
  by (simp add: operator_simps)

text \<open>A request value the operator cannot read takes the fail-closed flag under every date, numeric and
  address operator, the negated ones included: negation inverts the flag twice, so an Allow never fires
  and a Deny always does.\<close>
theorem unreadable_request_value:
  assumes "oper \<in> set numericOps \<and> ParseNumber actual = None \<or> oper \<in> set dateOps \<and> ParseDate actual = None \<or>
    oper \<in> {OpIPAddress, OpNotIPAddress} \<and> ParseAddr actual = None"
  shows "conditionHolds U oper actual vs keys failClosed = failClosed"
  using assms
  by (auto simp: numericOps_def dateOps_def operator_simps numericHoldsAny_def dateHoldsAny_def ipInAny_def)

theorem unreadable_request_value_witness:
  "conditionHolds \<lparr>lower_runes = (\<lambda>s. s), fold_runes = (=)\<rparr> OpNumericNotEquals ''ten'' [''10''] Map.empty True"
proof -
  have "ParseNumber ''ten'' = None" by code_simp
  then show ?thesis by (subst unreadable_request_value) (simp_all add: numericOps_def)
qed

text \<open>The numeric operators order requests as the rational numbers the two numerals denote are ordered.\<close>
theorem numeric_operators_order:
  assumes "ParseNumber a = Some x" and "ParseNumber b = Some y"
  shows "(conditionHolds U OpNumericLessThan a [b] keys fc \<longleftrightarrow> number_value x < number_value y) \<and>
    (conditionHolds U OpNumericLessThanEquals a [b] keys fc \<longleftrightarrow> number_value x \<le> number_value y) \<and>
    (conditionHolds U OpNumericGreaterThan a [b] keys fc \<longleftrightarrow> number_value x > number_value y) \<and>
    (conditionHolds U OpNumericGreaterThanEquals a [b] keys fc \<longleftrightarrow> number_value x \<ge> number_value y) \<and>
    (conditionHolds U OpNumericEquals a [b] keys fc \<longleftrightarrow> number_value x = number_value y) \<and>
    (conditionHolds U OpNumericNotEquals a [b] keys fc \<longleftrightarrow> number_value x \<noteq> number_value y)"
  using assms number_compare_value [OF ParseNumber_wf ParseNumber_wf, OF assms]
  by (auto simp: operator_simps numeric_ops.holds_any_law numeric_ops.compares_simps rat_compare_def)

theorem numeric_operators_order_witness:
  "conditionHolds \<lparr>lower_runes = (\<lambda>s. s), fold_runes = (=)\<rparr> OpNumericEquals ''2.0'' [''2e0''] Map.empty False"
  using numeric_operators_order [OF samples_number(3,4)] by simp

text \<open>The date operators order requests as the instants the two texts name are ordered, whichever of
  the accepted forms each is written in.\<close>
theorem date_operators_order:
  assumes "ParseDate a = Some t" and "ParseDate b = Some u"
  shows "(conditionHolds U OpDateLessThan a [b] keys fc \<longleftrightarrow> t < u) \<and>
    (conditionHolds U OpDateLessThanEquals a [b] keys fc \<longleftrightarrow> t \<le> u) \<and>
    (conditionHolds U OpDateGreaterThan a [b] keys fc \<longleftrightarrow> t > u) \<and>
    (conditionHolds U OpDateGreaterThanEquals a [b] keys fc \<longleftrightarrow> t \<ge> u) \<and>
    (conditionHolds U OpDateEquals a [b] keys fc \<longleftrightarrow> t = u) \<and>
    (conditionHolds U OpDateNotEquals a [b] keys fc \<longleftrightarrow> t \<noteq> u)"
  using assms
  by (auto simp: operator_simps date_ops.holds_any_law date_ops.compares_simps time_compare_order)

theorem date_operators_order_witness:
  "conditionHolds \<lparr>lower_runes = (\<lambda>s. s), fold_runes = (=)\<rparr> OpDateLessThan ''1'' [''2''] Map.empty False"
  using date_operators_order [OF samples_date(1,2)] by (simp add: less_go_time_def)

lemma div_block: "0 < k \<Longrightarrow> x div k = q \<longleftrightarrow> q * k \<le> x \<and> x < (q + 1) * k" for x k q :: nat
  using div_times_less_eq_dividend [of x k] dividend_less_div_times [of k x]
  by (auto intro: div_nat_eqI simp: mult.commute)

text \<open>An IPv4 request address is inside a CIDR block exactly when it agrees with the block's address on
  the prefix bits, so a block of n bits covers one aligned run of two to the 32-n addresses; host bits
  set in the policy value do not matter.\<close>
theorem ipv4_block_membership:
  assumes "ParseAddr actual = Some a" and "Unmap a = V4 x"
    and "ParsePrefix v = Some \<lparr>prefix_addr = V4 b, prefix_bits = n\<rparr>"
  shows "conditionHolds U OpIPAddress actual [v] keys fc \<longleftrightarrow>
      unat b div 2 ^ (32 - n) * 2 ^ (32 - n) \<le> unat x \<and>
      unat x < (unat b div 2 ^ (32 - n) + 1) * 2 ^ (32 - n)"
proof -
  have "unat x div 2 ^ (32 - n) = q \<longleftrightarrow> q * 2 ^ (32 - n) \<le> unat x \<and> unat x < (q + 1) * 2 ^ (32 - n)" for q
    by (rule div_block) simp
  then show ?thesis using assms
    by (simp add: operator_simps ipInAny_def ip_value_holds_def Contains_Masked Contains_V4
        del: Unmap.simps Contains.simps Masked.simps)
qed

theorem ipv4_block_membership_witness:
  "conditionHolds \<lparr>lower_runes = (\<lambda>s. s), fold_runes = (=)\<rparr> OpIPAddress ''1.2.3.4'' [''1.2.0.0/16''] Map.empty False"
proof -
  have "ParseAddr ''1.2.3.4'' = Some (V4 (word_of_nat (quad_word 1 2 3 4)))"
    unfolding quad_text(1) by (rule ParseAddr_quad) simp_all
  from ipv4_block_membership [OF this _ prefix_text] show ?thesis by (simp add: quad_word_def)
qed

text \<open>A dual-stack listener's spelling of a client changes nothing: an IPv4 client reported as an
  IPv4-mapped IPv6 address decides every address condition as its dotted quad does.\<close>
theorem mapped_client_same:
  assumes "a < 256" and "b < 256" and "c < 256" and "d < 256"
  shows "conditionHolds U OpIPAddress (mapped (quad a b c d)) vs keys fc =
    conditionHolds U OpIPAddress (quad a b c d) vs keys fc"
proof -
  have "quad_word a b c d < 2 ^ 32" using assms by (simp add: quad_word_def)
  then show ?thesis
    by (simp only: operator_simps ipInAny_def ParseAddr_quad [OF assms] ParseAddr_mapped [OF assms]
        option.case Unmap_mapped Unmap.simps(1))
qed

theorem mapped_client_same_witness:
  "conditionHolds \<lparr>lower_runes = (\<lambda>s. s), fold_runes = (=)\<rparr> OpIPAddress (mapped (quad 1 2 3 4)) [''1.2.0.0/16''] Map.empty False"
  by (subst mapped_client_same) (simp_all add: quad_text(1) [symmetric] operator_simps samples_ip del: One_nat_def)

text \<open>IfExists and absence: on a key the request does not carry, an IfExists operator always holds and
  a plain one holds exactly when it is negated; on a key it carries, the suffix changes nothing.\<close>
theorem if_exists_law:
  assumes "BaseOperator oper = (oper, False)" and "oper \<noteq> OpNull"
  shows "(entry_holds U (oper @ IfExistsSuffix) keys fc (key, vs) \<longleftrightarrow>
      keys key = None \<or> entry_holds U oper keys fc (key, vs)) \<and>
    (keys key = None \<longrightarrow> (entry_holds U oper keys fc (key, vs) \<longleftrightarrow> negatedOperators oper \<noteq> None))"
proof -
  have "BaseOperator (oper @ IfExistsSuffix) = (oper, True)" by (simp add: BaseOperator_def)
  then show ?thesis using assms by (auto simp: entry_holds_def split: option.splits)
qed

theorem if_exists_law_witness:
  "entry_holds \<lparr>lower_runes = (\<lambda>s. s), fold_runes = (=)\<rparr> (OpBool @ IfExistsSuffix) Map.empty False (KeySecureTransport, [''true''])"
proof -
  have "BaseOperator OpBool = (OpBool, False)" by code_simp
  from if_exists_law [OF this] show ?thesis by (simp add: op_neq)
qed

end
