(* ===== verification/Evaluator.thy ===== *)
theory Evaluator
  imports Conditions
begin

text \<open>
  \<^verbatim>\<open>pkg/iampolicy/evaluator.go\<close>: selection of statements, the constructs the evaluator cannot
  enforce, and the decision. The evaluation order of the loops is the code's, early returns
  included; the reference is the set of matching statements.
\<close>

section \<open>The code\<close>

datatype decision = Deny | Allow

text \<open>
  \<^verbatim>\<open>bytes.TrimSpace\<close>: the white space of Unicode, as the byte sequences that encode it in UTF-8.
\<close>

definition white_space :: "string list" where
  "white_space =
     [[CHR 0x09], [CHR 0x0A], [CHR 0x0B], [CHR 0x0C], [CHR 0x0D], [CHR 0x20],
      [CHR 0xC2, CHR 0x85], [CHR 0xC2, CHR 0xA0], [CHR 0xE1, CHR 0x9A, CHR 0x80]]
     @ map (\<lambda>b. [CHR 0xE2, CHR 0x80, b])
         [CHR 0x80, CHR 0x81, CHR 0x82, CHR 0x83, CHR 0x84, CHR 0x85, CHR 0x86, CHR 0x87, CHR 0x88,
          CHR 0x89, CHR 0x8A, CHR 0xA8, CHR 0xA9, CHR 0xAF]
     @ [[CHR 0xE2, CHR 0x81, CHR 0x9F], [CHR 0xE3, CHR 0x80, CHR 0x80]]"

fun strip_one :: "string list \<Rightarrow> string \<Rightarrow> string option" where
  "strip_one [] s = None"
| "strip_one (w # ws) s =
     (if w \<noteq> [] \<and> has_prefix s w then Some (drop (length w) s) else strip_one ws s)"

lemma strip_one_length: "strip_one ws s = Some r \<Longrightarrow> length r < length s"
  by (induction ws) (auto split: if_splits elim!: has_prefixE)

function strip_all :: "string list \<Rightarrow> string \<Rightarrow> string" where
  "strip_all ws s = (case strip_one ws s of None \<Rightarrow> s | Some r \<Rightarrow> strip_all ws r)"
  by pat_completeness auto
termination by (relation "measure (\<lambda>(ws, s). length s)") (auto dest: strip_one_length)

declare strip_all.simps [simp del]

definition trim_space :: "string \<Rightarrow> string" where
  "trim_space s = rev (strip_all (map rev white_space) (rev (strip_all white_space s)))"

definition wellFormedActions :: "statement \<Rightarrow> bool" where
  "wellFormedActions s \<longleftrightarrow> length (Action s) = 0 \<or> length (NotAction s) = 0"

definition wellFormedResources :: "statement \<Rightarrow> bool" where
  "wellFormedResources s \<longleftrightarrow> length (Resource s) = 0 \<or> length (NotResource s) = 0"

fun unsupported_key :: "string \<Rightarrow> (string \<times> string list) list \<Rightarrow> string option" where
  "unsupported_key operator [] = None"
| "unsupported_key operator ((key, vs) # byKey) =
     (if \<not> SupportedCondition operator key then Some key else unsupported_key operator byKey)"

fun unsupported_condition :: "condition_block \<Rightarrow> (string \<times> string) option" where
  "unsupported_condition [] = None"
| "unsupported_condition ((operator, byKey) # blocks) =
     (case unsupported_key operator byKey of
        Some key \<Rightarrow> Some (operator, key)
      | None \<Rightarrow> unsupported_condition blocks)"

definition unenforceable :: "statement \<Rightarrow> (string \<times> string) option" where
  "unenforceable s =
     (if \<not> wellFormedActions s then Some (''Action/NotAction'', [])
      else if \<not> wellFormedResources s then Some (''Resource/NotResource'', [])
      else (let p = trim_space (Principal s)
        in if length p > 0 \<and> p \<noteq> ''null'' then Some (''Principal'', [])
           else unsupported_condition (Condition s)))"

definition matchesAction :: "unicode \<Rightarrow> statement \<Rightarrow> string \<Rightarrow> bool" where
  "matchesAction U s action =
     (if length (NotAction s) > 0 then \<not> matchesAny U (NotAction s) action True
      else matchesAny U (Action s) action True)"

definition matchesResource :: "statement \<Rightarrow> string \<Rightarrow> condition_keys \<Rightarrow> bool \<Rightarrow> bool" where
  "matchesResource s resource keys failClosed =
     (if length (NotResource s) > 0
      then \<not> matchesAnyResource (NotResource s) resource keys (\<not> failClosed)
      else matchesAnyResource (Resource s) resource keys failClosed)"

definition matches :: "unicode \<Rightarrow> statement \<Rightarrow> string \<Rightarrow> string \<Rightarrow> condition_keys \<Rightarrow> bool" where
  "matches U s action resource keys =
     (let failClosed = (Effect s \<noteq> EffectAllow)
      in if unenforceable s \<noteq> None then
           (if Effect s = EffectAllow then False
            else (\<not> wellFormedActions s \<or> matchesAction U s action) \<and>
                 (\<not> wellFormedResources s \<or> matchesResource s resource keys failClosed))
         else matchesAction U s action \<and> matchesResource s resource keys failClosed \<and>
              conditionsHold U s keys failClosed)"

text \<open>The two nested loops: \<open>None\<close> is the early return of \<open>Deny\<close>, the flag is \<open>hasAllow\<close>.\<close>

fun statements_loop ::
  "unicode \<Rightarrow> string \<Rightarrow> string \<Rightarrow> condition_keys \<Rightarrow> statement list \<Rightarrow> bool \<Rightarrow> bool option" where
  "statements_loop U action resource keys [] hasAllow = Some hasAllow"
| "statements_loop U action resource keys (stmt # stmts) hasAllow =
     (if \<not> matches U stmt action resource keys then
        statements_loop U action resource keys stmts hasAllow
      else if Effect stmt = EffectDeny then None
      else if Effect stmt = EffectAllow then statements_loop U action resource keys stmts True
      else None)"

fun policies_loop ::
  "unicode \<Rightarrow> string \<Rightarrow> string \<Rightarrow> condition_keys \<Rightarrow> policy_document list \<Rightarrow> bool \<Rightarrow> bool option" where
  "policies_loop U action resource keys [] hasAllow = Some hasAllow"
| "policies_loop U action resource keys (policy # policies) hasAllow =
     (let stmts = (if Version policy \<noteq> Version2012 then literalVariableStatements (Statement policy)
                   else Statement policy)
      in case statements_loop U action resource keys stmts hasAllow of
           None \<Rightarrow> None
         | Some hasAllow' \<Rightarrow> policies_loop U action resource keys policies hasAllow')"

definition EvaluateWithKeys ::
  "unicode \<Rightarrow> string \<Rightarrow> string \<Rightarrow> policy_document list \<Rightarrow> condition_keys \<Rightarrow> decision" where
  "EvaluateWithKeys U action resource policies keys =
     (case policies_loop U action resource keys policies False of
        None \<Rightarrow> Deny
      | Some hasAllow \<Rightarrow> if hasAllow then Allow else Deny)"

section \<open>The statements in force\<close>

definition in_force :: "policy_document \<Rightarrow> statement list" where
  "in_force policy =
     (if Version policy \<noteq> Version2012 then literalVariableStatements (Statement policy)
      else Statement policy)"

definition statements_of :: "policy_document list \<Rightarrow> statement list" where
  "statements_of policies = concat (map in_force policies)"

definition grants :: "unicode \<Rightarrow> string \<Rightarrow> string \<Rightarrow> condition_keys \<Rightarrow> statement \<Rightarrow> bool" where
  "grants U action resource keys s \<longleftrightarrow> matches U s action resource keys \<and> Effect s = EffectAllow"

definition blocks :: "unicode \<Rightarrow> string \<Rightarrow> string \<Rightarrow> condition_keys \<Rightarrow> statement \<Rightarrow> bool" where
  "blocks U action resource keys s \<longleftrightarrow> matches U s action resource keys \<and> Effect s \<noteq> EffectAllow"

lemma allow_deny_distinct [simp]: "EffectAllow \<noteq> EffectDeny" "EffectDeny \<noteq> EffectAllow"
  by (simp_all add: EffectAllow_def EffectDeny_def)

lemma statements_loop_result:
  "statements_loop U action resource keys ss hasAllow =
     (if list_ex (blocks U action resource keys) ss then None
      else Some (hasAllow \<or> list_ex (grants U action resource keys) ss))"
  by (induction ss arbitrary: hasAllow) (auto simp: blocks_def grants_def)

lemma policies_loop_result:
  "policies_loop U action resource keys ps hasAllow =
     (if list_ex (blocks U action resource keys) (statements_of ps) then None
      else Some (hasAllow \<or> list_ex (grants U action resource keys) (statements_of ps)))"
  by (induction ps arbitrary: hasAllow)
    (auto simp: statements_loop_result in_force_def statements_of_def Let_def)

lemma Evaluate_iff:
  "EvaluateWithKeys U action resource ps keys = Allow \<longleftrightarrow>
     list_ex (grants U action resource keys) (statements_of ps) \<and>
     \<not> list_ex (blocks U action resource keys) (statements_of ps)"
  by (auto simp: EvaluateWithKeys_def policies_loop_result)

lemma decision_not_Allow [simp]: "d \<noteq> Allow \<longleftrightarrow> d = Deny" "d \<noteq> Deny \<longleftrightarrow> d = Allow"
  by (cases d; simp)+

lemma statements_of_append [simp]: "statements_of (ps @ qs) = statements_of ps @ statements_of qs"
  by (simp add: statements_of_def)

section \<open>What cannot be enforced\<close>

lemma unsupported_key_None: "unsupported_key oper byKey = None \<longleftrightarrow> (\<forall>(key, vs)\<in>set byKey. SupportedCondition oper key)"
  by (induction byKey) (auto split: if_splits)

lemma unsupported_condition_None:
  "unsupported_condition c = None \<longleftrightarrow>
   (\<forall>(oper, byKey)\<in>set c. \<forall>(key, vs)\<in>set byKey. SupportedCondition oper key)"
  by (induction c) (auto simp: unsupported_key_None split: option.splits)

definition condition_entries :: "condition_block \<Rightarrow> (string \<times> string \<times> string list) set" where
  "condition_entries c = {(oper, key, vs). \<exists>byKey. (oper, byKey) \<in> set c \<and> (key, vs) \<in> set byKey}"

definition enforceable :: "statement \<Rightarrow> bool" where
  "enforceable s \<longleftrightarrow> \<not> (Action s \<noteq> [] \<and> NotAction s \<noteq> []) \<and> \<not> (Resource s \<noteq> [] \<and> NotResource s \<noteq> []) \<and>
     trim_space (Principal s) \<in> {[], ''null''} \<and>
     (\<forall>(oper, key, vs)\<in>condition_entries (Condition s). SupportedCondition oper key)"

lemma unenforceable_iff: "unenforceable s = None \<longleftrightarrow> enforceable s"
  by (auto simp: unenforceable_def enforceable_def wellFormedActions_def wellFormedResources_def
      Let_def unsupported_condition_None condition_entries_def)

lemma conditionsHold_set:
  "conditionsHold U s keys fc \<longleftrightarrow>
   (\<forall>(oper, e)\<in>condition_entries (Condition s). entry_holds U oper keys fc e)"
  by (fastforce simp: conditionsHold_entries condition_entries_def)

section \<open>A context with more keys\<close>

lemma matchesResource_lower:
  "keys \<subseteq>\<^sub>m keys' \<Longrightarrow> matchesResource s r keys False \<Longrightarrow> matchesResource s r keys' fc"
  unfolding matchesResource_def matchesAnyResource_def
  using pattern_match.any_lower [of keys keys' r] pattern_match.any_upper [of keys keys']
  by (auto split: if_splits)

lemma matchesResource_upper:
  "keys \<subseteq>\<^sub>m keys' \<Longrightarrow> matchesResource s r keys' fc \<Longrightarrow> matchesResource s r keys True"
  unfolding matchesResource_def matchesAnyResource_def
  using pattern_match.any_lower [of keys keys' r] pattern_match.any_upper [of keys keys']
  by (auto split: if_splits)

lemma grants_extend:
  assumes "keys \<subseteq>\<^sub>m keys'" and "\<And>k. k \<in> condition_keys_of s \<Longrightarrow> keys' k = keys k"
    and "grants U action resource keys s"
  shows "grants U action resource keys' s"
  using assms matchesResource_lower [OF assms(1), of s resource False] conditionsHold_lower [OF assms(1,2), where U = U]
  by (auto simp: grants_def matches_def Let_def split: if_splits)

lemma blocks_extend:
  assumes "keys \<subseteq>\<^sub>m keys'" and "\<And>k. k \<in> condition_keys_of s \<Longrightarrow> keys' k = keys k"
    and "blocks U action resource keys' s"
  shows "blocks U action resource keys s"
  using assms matchesResource_upper [OF assms(1), of s resource True] conditionsHold_upper [OF assms(1,2), where U = U and fc = True]
  by (auto simp: blocks_def matches_def Let_def split: if_splits)

lemma Evaluate_extend:
  assumes le: "keys \<subseteq>\<^sub>m keys'"
    and same: "\<And>s k. s \<in> set (statements_of ps) \<Longrightarrow> k \<in> condition_keys_of s \<Longrightarrow> keys' k = keys k"
    and allow: "EvaluateWithKeys U action resource ps keys = Allow"
  shows "EvaluateWithKeys U action resource ps keys' = Allow"
  using allow grants_extend [OF le] blocks_extend [OF le] same
  unfolding Evaluate_iff list_ex_iff by blast

section \<open>Documents of other versions\<close>

definition literal_value :: "string \<Rightarrow> bool" where
  "literal_value v \<longleftrightarrow> (\<exists>t. \<forall>keys. reads_as keys v t)"

lemma literal_value_replaced: "literal_value (replace_all v VariablePrefix literalReference)"
  using replace_all_reads_as [of "[]" _ v] by (auto simp: literal_value_def)

lemma literal_value_plain: "\<not> contains v VariablePrefix \<Longrightarrow> literal_value v"
  using reads_as_no_ref [of v] by (auto simp: literal_value_def contains_def)

lemma literal_template: "literal_value v \<Longrightarrow> template keys v = template Map.empty v \<and> template Map.empty v \<noteq> None"
  by (auto simp: literal_value_def reads_as_def)

lemma literal_template_text: "literal_value v \<Longrightarrow> template_text keys v = template_text Map.empty v"
  by (auto simp: literal_value_def reads_as_def)

definition literal_statement :: "statement \<Rightarrow> bool" where
  "literal_statement s \<longleftrightarrow> (\<forall>v\<in>set (Resource s) \<union> set (NotResource s). literal_value v) \<and>
     (\<forall>(oper, key, vs)\<in>condition_entries (Condition s). \<forall>v\<in>set vs. literal_value v)"

lemma literal_statement_rewritten: "literal_statement (withLiteralVariables s)"
  by (auto simp: literal_statement_def withLiteralVariables_def literal_values_def condition_entries_def
      literal_value_replaced)

lemma literal_statement_plain: "\<not> hasVariablePrefix s \<Longrightarrow> literal_statement s"
  by (fastforce simp: literal_statement_def hasVariablePrefix_def containsVariablePrefix_def list_ex_iff
      condition_entries_def intro: literal_value_plain)

lemma literal_in_force: "Version p \<noteq> Version2012 \<Longrightarrow> s \<in> set (in_force p) \<Longrightarrow> literal_statement s"
  by (auto simp: in_force_def literalVariableStatements_def literal_statement_rewritten
      literal_statement_plain split: if_splits)

lemma literal_pattern: "literal_value p \<Longrightarrow> matchPattern p v keys fc = matchPattern p v Map.empty fc"
  using literal_template [of p keys] by (simp add: matchPattern_template)

lemma literal_arn: "literal_value p \<Longrightarrow> matchARN p v keys fc = matchARN p v Map.empty fc"
  using literal_template [of p Map.empty] by (intro matchARN_ext) auto

lemma list_ex_cong_set: "(\<And>v. v \<in> set vs \<Longrightarrow> P v = Q v) \<Longrightarrow> list_ex P vs = list_ex Q vs"
  by (auto simp: list_ex_iff)

lemma literal_positive:
  assumes "\<forall>v\<in>set vs. literal_value v" and pos: "negatedOperators oper = None"
  shows "conditionHolds U oper a vs keys fc = conditionHolds U oper a vs Map.empty fc"
proof -
  have "equalsAny U a vs keys fc fc' = equalsAny U a vs Map.empty fc fc'" for fc'
    unfolding equalsAny_template
  proof (rule list_ex_cong_set)
    fix v
    assume "v \<in> set vs"
    then have "template_text keys v = template_text Map.empty v"
      using assms by (intro literal_template_text) blast
    then show "(case template_text keys v of None \<Rightarrow> fc | Some t \<Rightarrow> fc' \<and> equal_fold U t a \<or> \<not> fc' \<and> t = a) =
        (case template_text Map.empty v of None \<Rightarrow> fc | Some t \<Rightarrow> fc' \<and> equal_fold U t a \<or> \<not> fc' \<and> t = a)"
      by (simp only:)
  qed
  moreover have "list_ex (\<lambda>v. matchPattern v a keys fc) vs = list_ex (\<lambda>v. matchPattern v a Map.empty fc) vs"
    by (rule list_ex_cong_set, rule literal_pattern) (use assms in blast)
  moreover have "list_ex (\<lambda>v. matchARN v a keys fc) vs = list_ex (\<lambda>v. matchARN v a Map.empty fc) vs"
    by (rule list_ex_cong_set, rule literal_arn) (use assms in blast)
  ultimately show ?thesis
    by (simp only: conditionHolds.simps [of U oper, unfolded pos option.case])
qed

lemma literal_condition:
  assumes "\<forall>v\<in>set vs. literal_value v"
  shows "conditionHolds U oper a vs keys fc = conditionHolds U oper a vs Map.empty fc"
proof (cases "negatedOperators oper")
  case None
  then show ?thesis by (rule literal_positive [OF assms])
next
  case (Some b)
  then show ?thesis
    using literal_positive [OF assms positive_operator [OF Some], of U a keys "\<not> fc"]
    by (simp only: conditionHolds_negated)
qed

lemma literal_conditionsHold:
  assumes lit: "literal_statement s" and same: "\<And>k. k \<in> condition_keys_of s \<Longrightarrow> keys' k = keys k"
  shows "conditionsHold U s keys' fc = conditionsHold U s keys fc"
proof -
  have "entry_holds U oper keys' fc (key, vs) = entry_holds U oper keys fc (key, vs)"
    if e: "(oper, key, vs) \<in> condition_entries (Condition s)" for oper key vs
  proof -
    have "keys' key = keys key" using e by (intro same) (auto simp: condition_entries_def condition_keys_of_def)
    moreover have "\<forall>v\<in>set vs. literal_value v" using lit e by (auto simp: literal_statement_def)
    then have "conditionHolds U b a vs keys' fc = conditionHolds U b a vs keys fc" for a b
      using literal_condition [of vs U b a keys' fc] literal_condition [of vs U b a keys fc] by metis
    ultimately show ?thesis
      by (cases "BaseOperator oper"; cases "keys key") (simp_all add: entry_holds_def)
  qed
  then show ?thesis by (fastforce simp: conditionsHold_set)
qed

lemma literal_matchesResource: "literal_statement s \<Longrightarrow> matchesResource s r keys' fc = matchesResource s r keys fc"
proof -
  assume "literal_statement s"
  then have "\<forall>p\<in>set (Resource s) \<union> set (NotResource s). matchPattern p r keys' f = matchPattern p r keys f" for f
    using literal_pattern [of _ r keys' f] literal_pattern [of _ r keys f]
    by (metis literal_statement_def)
  then have "list_ex (\<lambda>p. matchPattern p r keys' f) ps = list_ex (\<lambda>p. matchPattern p r keys f) ps"
    if "ps = Resource s \<or> ps = NotResource s" for ps f
    using that by (intro list_ex_cong_set) auto
  then show ?thesis unfolding matchesResource_def matchesAnyResource_def by metis
qed

lemma literal_matches:
  assumes "literal_statement s" and "\<And>k. k \<in> condition_keys_of s \<Longrightarrow> keys' k = keys k"
  shows "matches U s action resource keys' = matches U s action resource keys"
  by (simp only: matches_def literal_matchesResource [OF assms(1), of resource keys' _ keys]
      literal_conditionsHold [OF assms])

lemma other_version_context:
  assumes old: "\<And>p. p \<in> set ps \<Longrightarrow> Version p \<noteq> Version2012"
    and same: "\<And>s k. s \<in> set (statements_of ps) \<Longrightarrow> k \<in> condition_keys_of s \<Longrightarrow> keys' k = keys k"
  shows "EvaluateWithKeys U action resource ps keys' = EvaluateWithKeys U action resource ps keys"
proof -
  have "matches U s action resource keys' = matches U s action resource keys"
    if s: "s \<in> set (statements_of ps)" for s
  proof (rule literal_matches)
    from s obtain p where "p \<in> set ps" "s \<in> set (in_force p)" by (auto simp: statements_of_def)
    then show "literal_statement s" using old literal_in_force by blast
  qed (use s same in auto)
  then have "list_ex (grants U action resource keys') (statements_of ps) = list_ex (grants U action resource keys) (statements_of ps)"
    "list_ex (blocks U action resource keys') (statements_of ps) = list_ex (blocks U action resource keys) (statements_of ps)"
    by (auto intro!: list_ex_cong_set simp: grants_def blocks_def)
  then show ?thesis by (simp add: EvaluateWithKeys_def policies_loop_result)
qed

lemma literal_resource_pattern:
  "matchPattern (replace_all p VariablePrefix literalReference) r keys fc = MatchWildcard p r"
  using replace_all_reads_as [of "[]" keys p]
  by (simp add: matchPattern_template MatchWildcard_globs reads_as_def)

section \<open>The order of map iteration\<close>

definition same_reading :: "statement \<Rightarrow> statement \<Rightarrow> bool" where
  "same_reading s t \<longleftrightarrow> s\<lparr>Condition := []\<rparr> = t\<lparr>Condition := []\<rparr> \<and>
     condition_entries (Condition s) = condition_entries (Condition t)"

lemma same_readingD:
  assumes "same_reading s t"
  shows "Effect s = Effect t" "Action s = Action t" "NotAction s = NotAction t" "Resource s = Resource t"
    "NotResource s = NotResource t" "Principal s = Principal t"
    "condition_entries (Condition s) = condition_entries (Condition t)"
  using assms by (cases s; cases t; simp add: same_reading_def)+

lemma same_reading_matches:
  assumes "same_reading s t"
  shows "matches U s action resource keys = matches U t action resource keys"
proof -
  note eqs = same_readingD [OF assms]
  have "unenforceable s = None \<longleftrightarrow> unenforceable t = None"
    by (simp add: unenforceable_iff enforceable_def eqs)
  moreover have "conditionsHold U s keys fc = conditionsHold U t keys fc" for fc
    by (simp add: conditionsHold_set eqs)
  ultimately show ?thesis
    by (simp add: matches_def matchesAction_def matchesResource_def wellFormedActions_def
        wellFormedResources_def eqs)
qed

lemma condition_entries_literal:
  "condition_entries (Condition (withLiteralVariables s)) =
   (\<lambda>(oper, key, vs). (oper, key, literal_values vs)) ` condition_entries (Condition s)"
  by (force simp: condition_entries_def withLiteralVariables_def)

lemma hasVariablePrefix_entries:
  "hasVariablePrefix s \<longleftrightarrow> containsVariablePrefix (Resource s) \<or> containsVariablePrefix (NotResource s) \<or>
     (\<exists>(oper, key, vs)\<in>condition_entries (Condition s). containsVariablePrefix vs)"
  by (fastforce simp: hasVariablePrefix_def condition_entries_def list_ex_iff)

lemma same_reading_literal:
  assumes "same_reading s t"
  shows "same_reading (withLiteralVariables s) (withLiteralVariables t)"
proof -
  have "s\<lparr>Condition := []\<rparr> = t\<lparr>Condition := []\<rparr>" using assms by (simp add: same_reading_def)
  then have "(withLiteralVariables s)\<lparr>Condition := []\<rparr> = (withLiteralVariables t)\<lparr>Condition := []\<rparr>"
    by (cases s; cases t) (simp add: withLiteralVariables_def)
  then show ?thesis
    using same_readingD(7) [OF assms] by (simp add: same_reading_def condition_entries_literal)
qed

definition same_document :: "policy_document \<Rightarrow> policy_document \<Rightarrow> bool" where
  "same_document p q \<longleftrightarrow> Version p = Version q \<and> list_all2 same_reading (Statement p) (Statement q)"

lemma same_document_in_force:
  assumes "same_document p q"
  shows "list_all2 same_reading (in_force p) (in_force q)"
proof -
  have step: "same_reading (if \<not> hasVariablePrefix s then s else withLiteralVariables s)
      (if \<not> hasVariablePrefix t then t else withLiteralVariables t)" if st: "same_reading s t" for s t
    using st same_reading_literal [OF st] same_readingD [OF st] by (simp add: hasVariablePrefix_entries)
  have "list_all2 same_reading (literalVariableStatements (Statement p)) (literalVariableStatements (Statement q))"
    unfolding literalVariableStatements_def list_all2_map1 list_all2_map2
    using assms step by (auto simp only: same_document_def elim!: list_all2_mono)
  then show ?thesis using assms by (simp add: same_document_def in_force_def)
qed

lemma same_documents_statements:
  "list_all2 same_document ps qs \<Longrightarrow> list_all2 same_reading (statements_of ps) (statements_of qs)"
  by (induction rule: list_all2_induct)
    (auto simp: statements_of_def intro!: list_all2_appendI same_document_in_force)

lemma list_all2_list_ex:
  "list_all2 R xs ys \<Longrightarrow> (\<And>x y. R x y \<Longrightarrow> P x = P y) \<Longrightarrow> list_ex P xs = list_ex P ys"
  by (induction rule: list_all2_induct) auto

lemma same_documents_decision:
  assumes "list_all2 same_document ps qs"
  shows "EvaluateWithKeys U action resource ps keys = EvaluateWithKeys U action resource qs keys"
proof -
  note stmts = same_documents_statements [OF assms]
  have "list_ex (grants U action resource keys) (statements_of ps) = list_ex (grants U action resource keys) (statements_of qs)"
    using stmts by (rule list_all2_list_ex) (simp add: grants_def same_reading_matches same_readingD)
  moreover have "list_ex (blocks U action resource keys) (statements_of ps) = list_ex (blocks U action resource keys) (statements_of qs)"
    using stmts by (rule list_all2_list_ex) (simp add: blocks_def same_reading_matches same_readingD)
  ultimately show ?thesis by (simp add: EvaluateWithKeys_def policies_loop_result)
qed

section \<open>Concrete documents\<close>

text \<open>Documents on which the properties below are evaluated.\<close>

definition ascii_only :: unicode where
  "ascii_only = \<lparr>lower_runes = (\<lambda>s. s), fold_runes = (\<lambda>s t. s = t)\<rparr>"

definition home_statement :: statement where
  "home_statement = \<lparr>Sid = ''Home'', Effect = ''Allow'', Action = [''s3:Get*''],
     Resource = [''arn:aws:s3:::home/${aws:username}/*''],
     Condition = [(''StringEquals'', [(''aws:PrincipalAccount'', [''0123'', ''4567''])])],
     NotAction = [], NotResource = [], Principal = []\<rparr>"

definition fence_statement :: statement where
  "fence_statement = \<lparr>Sid = ''Fence'', Effect = ''Deny'', Action = [''*''], Resource = [],
     Condition = [(''StringNotEquals'', [(''aws:PrincipalAccount'', [''4567''])])],
     NotAction = [], NotResource = [''arn:aws:s3:::tmp/*''], Principal = []\<rparr>"

definition principal_statement :: statement where
  "principal_statement = fence_statement\<lparr>Principal := '' {} '', Condition := []\<rparr>"

definition home_document :: policy_document where
  "home_document = \<lparr>Version = ''2012-10-17'', Statement = [home_statement, fence_statement]\<rparr>"

definition bob_keys :: condition_keys where
  "bob_keys = [''aws:PrincipalAccount'' \<mapsto> ''4567'', ''aws:username'' \<mapsto> ''bob'']"

section \<open>Properties\<close>

text \<open>C1: A request is allowed exactly when some statement in force (the statements of all policies,
  literalised where the document predates policy variables) matches with effect Allow and no statement
  in force that matches has any other effect: an explicit Deny, or an unknown effect, wins wherever it
  stands.\<close>
theorem decision_iff:
  "EvaluateWithKeys U action resource ps keys = Allow \<longleftrightarrow>
     list_ex (\<lambda>s. matches U s action resource keys \<and> Effect s = EffectAllow) (statements_of ps) \<and>
     \<not> list_ex (\<lambda>s. matches U s action resource keys \<and> Effect s \<noteq> EffectAllow) (statements_of ps)"
  by (simp add: Evaluate_iff grants_def [abs_def] blocks_def [abs_def])

definition conditions_agree :: "condition_keys \<Rightarrow> condition_keys \<Rightarrow> policy_document list \<Rightarrow> bool" where
  "conditions_agree keys keys' ps =
     list_all (\<lambda>s. list_all (\<lambda>(oper, byKey). list_all (\<lambda>(key, vs). keys' key = keys key) byKey) (Condition s))
       (statements_of ps)"

lemma conditions_agreeD:
  "conditions_agree keys keys' ps \<Longrightarrow> s \<in> set (statements_of ps) \<Longrightarrow> k \<in> condition_keys_of s \<Longrightarrow> keys' k = keys k"
  by (fastforce simp: conditions_agree_def list_all_iff condition_keys_of_def)

text \<open>C2: Withholding variables only narrows access: whatever is allowed to a door that supplies fewer
  context keys is allowed to one that supplies more, as long as both agree on the keys the statements'
  conditions test.\<close>
theorem withholding_narrows:
  assumes "keys \<subseteq>\<^sub>m keys'" and "conditions_agree keys keys' ps"
    and "EvaluateWithKeys U action resource ps keys = Allow"
  shows "EvaluateWithKeys U action resource ps keys' = Allow"
  using Evaluate_extend [OF assms(1) conditions_agreeD [OF assms(2)] assms(3)] .

theorem withholding_narrows_witness:
  "EvaluateWithKeys ascii_only ''S3:GetObject'' ''arn:aws:s3:::home/bob/x'' [home_document]
     (bob_keys(''aws:userid'' \<mapsto> ''AIDA1'')) = Allow"
proof (rule withholding_narrows [where keys = bob_keys])
  show "bob_keys \<subseteq>\<^sub>m bob_keys(''aws:userid'' \<mapsto> ''AIDA1'')"
    by (auto simp: map_le_def bob_keys_def)
  show "conditions_agree bob_keys (bob_keys(''aws:userid'' \<mapsto> ''AIDA1'')) [home_document]"
    by code_simp
  show "EvaluateWithKeys ascii_only ''S3:GetObject'' ''arn:aws:s3:::home/bob/x'' [home_document] bob_keys = Allow"
    by code_simp
qed

text \<open>C3: Every grant rests on an Allow statement the evaluator enforces in full: no selector pair given
  twice, no Principal, every condition supported, its action, resource and conditions all matched with
  unresolvable references read against it.\<close>
theorem grant_is_enforced:
  assumes "EvaluateWithKeys U action resource ps keys = Allow"
  shows "list_ex (\<lambda>s. Effect s = EffectAllow \<and> enforceable s \<and> matchesAction U s action \<and>
     matchesResource s resource keys False \<and> conditionsHold U s keys False) (statements_of ps)"
proof -
  have "Effect s = EffectAllow \<and> enforceable s \<and> matchesAction U s action \<and>
      matchesResource s resource keys False \<and> conditionsHold U s keys False"
    if "grants U action resource keys s" for s
    using that unenforceable_iff [of s]
    by (cases "unenforceable s") (auto simp: grants_def matches_def)
  then show ?thesis using assms unfolding Evaluate_iff by (auto elim!: list_ex_mono)
qed

theorem grant_is_enforced_witness:
  "list_ex (\<lambda>s. Effect s = EffectAllow \<and> enforceable s \<and> matchesAction ascii_only s ''s3:GetObject'' \<and>
     matchesResource s ''arn:aws:s3:::home/bob/x'' bob_keys False \<and> conditionsHold ascii_only s bob_keys False)
     (statements_of [home_document])"
  by (rule grant_is_enforced) code_simp

text \<open>C4: A statement that is not an Allow and that cannot be enforced still denies: each half of its
  selector that is well formed is applied, its conditions are taken to hold.\<close>
theorem unenforceable_deny_fires:
  assumes "s \<in> set (statements_of ps)" and "Effect s \<noteq> EffectAllow" and "\<not> enforceable s"
    and "wellFormedActions s \<longrightarrow> matchesAction U s action"
    and "wellFormedResources s \<longrightarrow> matchesResource s resource keys True"
  shows "EvaluateWithKeys U action resource ps keys = Deny"
proof -
  have "blocks U action resource keys s"
    using assms by (auto simp: blocks_def matches_def unenforceable_iff [symmetric])
  then have "EvaluateWithKeys U action resource ps keys \<noteq> Allow"
    using assms(1) by (auto simp: Evaluate_iff list_ex_iff)
  then show ?thesis by simp
qed

theorem unenforceable_deny_fires_witness:
  "EvaluateWithKeys ascii_only ''s3:GetObject'' ''arn:aws:s3:::home/bob/x''
     [home_document, \<lparr>Version = ''2012-10-17'', Statement = [principal_statement]\<rparr>] bob_keys = Deny"
proof (rule unenforceable_deny_fires [where s = principal_statement])
  show "principal_statement \<in> set (statements_of
      [home_document, \<lparr>Version = ''2012-10-17'', Statement = [principal_statement]\<rparr>])"
    by (simp add: statements_of_def in_force_def Version2012_def)
  have "unenforceable principal_statement \<noteq> None" by code_simp
  then show "\<not> enforceable principal_statement" by (simp add: unenforceable_iff [symmetric])
  show "Effect principal_statement \<noteq> EffectAllow" by code_simp
  show "wellFormedActions principal_statement \<longrightarrow> matchesAction ascii_only principal_statement ''s3:GetObject''"
    by code_simp
  show "wellFormedResources principal_statement \<longrightarrow>
      matchesResource principal_statement ''arn:aws:s3:::home/bob/x'' bob_keys True"
    by code_simp
qed

text \<open>The decision does not depend on the order of policies and statements, nor on how the
  statements are spread over documents of one version: it is a function of the multiset of statements
  in force.\<close>
theorem decision_order_independent:
  assumes "mset (statements_of ps) = mset (statements_of qs)"
  shows "EvaluateWithKeys U action resource ps keys = EvaluateWithKeys U action resource qs keys"
  using list_ex_mset_cong [OF assms] by (simp add: EvaluateWithKeys_def policies_loop_result)

theorem decision_order_independent_witness:
  "EvaluateWithKeys ascii_only ''s3:GetObject'' ''arn:aws:s3:::home/bob/x''
     [\<lparr>Version = Version2012, Statement = [home_statement, fence_statement]\<rparr>] bob_keys =
   EvaluateWithKeys ascii_only ''s3:GetObject'' ''arn:aws:s3:::home/bob/x''
     [\<lparr>Version = Version2012, Statement = [fence_statement]\<rparr>,
      \<lparr>Version = Version2012, Statement = [home_statement]\<rparr>] bob_keys"
  by (rule decision_order_independent) (simp add: statements_of_def in_force_def add_mset_commute)

text \<open>The decision does not depend on the order in which Go iterates the condition maps: documents
  whose statements carry the same condition entries, listed in any order and grouping, decide alike.\<close>
theorem decision_map_order_independent:
  assumes "list_all2 same_document ps qs"
  shows "EvaluateWithKeys U action resource ps keys = EvaluateWithKeys U action resource qs keys"
  using assms by (rule same_documents_decision)

theorem decision_map_order_independent_witness:
  "EvaluateWithKeys ascii_only ''s3:Get'' ''arn:x'' [\<lparr>Version = Version2012, Statement = [home_statement
      \<lparr>Condition := [(''Null'', [(''aws:userid'', [''true''])]), (''Bool'', [(''aws:SecureTransport'', [''true'']), (''aws:username'', [])])]\<rparr>]\<rparr>] bob_keys =
   EvaluateWithKeys ascii_only ''s3:Get'' ''arn:x'' [\<lparr>Version = Version2012, Statement = [home_statement
      \<lparr>Condition := [(''Bool'', [(''aws:username'', []), (''aws:SecureTransport'', [''true''])]), (''Null'', [(''aws:userid'', [''true''])])]\<rparr>]\<rparr>] bob_keys"
  by (rule decision_map_order_independent)
    (auto simp: same_document_def same_reading_def condition_entries_def)

text \<open>C36: In a document not written in the 2012 version every resource pattern is read as written: the
  rewritten statement matches exactly as its original patterns do by plain wildcard matching, under any
  context and with either fail-closed value.\<close>
theorem other_version_reads_literally:
  assumes "Version p \<noteq> Version2012"
  shows "map (\<lambda>s. matchesResource s resource keys failClosed) (in_force p) =
    map (\<lambda>s. if NotResource s \<noteq> [] then \<not> list_ex (\<lambda>q. MatchWildcard q resource) (NotResource s)
              else list_ex (\<lambda>q. MatchWildcard q resource) (Resource s)) (Statement p)"
proof -
  have plain: "matchPattern q resource keys fc = MatchWildcard q resource" if "\<not> contains q VariablePrefix" for q fc
    using that by (simp add: matchPattern_def expandVariables_def)
  have "matchesResource (if \<not> hasVariablePrefix s then s else withLiteralVariables s) resource keys failClosed =
      (if NotResource s \<noteq> [] then \<not> list_ex (\<lambda>q. MatchWildcard q resource) (NotResource s)
       else list_ex (\<lambda>q. MatchWildcard q resource) (Resource s))" for s
  proof (cases "hasVariablePrefix s")
    case True
    then show ?thesis
      by (simp add: matchesResource_def matchesAnyResource_def withLiteralVariables_def literal_values_def
          list_ex_iff literal_resource_pattern)
  next
    case False
    then show ?thesis
      by (auto simp: matchesResource_def matchesAnyResource_def hasVariablePrefix_def
          containsVariablePrefix_def list_ex_iff plain)
  qed
  then show ?thesis using assms by (simp add: in_force_def literalVariableStatements_def)
qed

theorem other_version_reads_literally_witness:
  "map (\<lambda>s. matchesResource s ''arn:aws:s3:::home/${aws:username}/x'' bob_keys True)
     (in_force \<lparr>Version = ''2008-10-17'', Statement = [home_statement]\<rparr>) = [True]"
proof -
  let ?p = "\<lparr>Version = ''2008-10-17'', Statement = [home_statement]\<rparr>"
  have "Version ?p \<noteq> Version2012" by (simp add: Version2012_def)
  note literal = other_version_reads_literally [OF this, of "''arn:aws:s3:::home/${aws:username}/x''" bob_keys True]
  have "NotResource home_statement = []"
    "list_ex (\<lambda>q. MatchWildcard q ''arn:aws:s3:::home/${aws:username}/x'') (Resource home_statement)"
    by code_simp+
  with literal show ?thesis by simp
qed

text \<open>Documents not written in the 2012 version resolve no variables: their decision is the same in
  any two contexts that agree on the keys their conditions test.\<close>
theorem other_version_ignores_variables:
  assumes "list_all (\<lambda>p. Version p \<noteq> Version2012) ps" and "conditions_agree keys keys' ps"
  shows "EvaluateWithKeys U action resource ps keys' = EvaluateWithKeys U action resource ps keys"
  using other_version_context [of ps keys' keys] conditions_agreeD [OF assms(2)] assms(1)
  by (auto simp: list_all_iff)

theorem other_version_ignores_variables_witness:
  "EvaluateWithKeys ascii_only ''s3:GetObject'' ''arn:aws:s3:::home/${aws:username}/x'' [home_document\<lparr>Version := ''2008-10-17''\<rparr>] (bob_keys(''aws:username'' \<mapsto> ''eve'')) =
   EvaluateWithKeys ascii_only ''s3:GetObject'' ''arn:aws:s3:::home/${aws:username}/x'' [home_document\<lparr>Version := ''2008-10-17''\<rparr>] bob_keys"
proof (rule other_version_ignores_variables)
  show "list_all (\<lambda>p. Version p \<noteq> Version2012) [home_document\<lparr>Version := ''2008-10-17''\<rparr>]"
    by (simp add: Version2012_def)
  show "conditions_agree bob_keys (bob_keys(''aws:username'' \<mapsto> ''eve'')) [home_document\<lparr>Version := ''2008-10-17''\<rparr>]"
    by code_simp
qed

end
