(* ===== verification/WriteGate.thy ===== *)
theory WriteGate
  imports Evaluator
begin

text \<open>
  How the write path's gate of \<^verbatim>\<open>pkg/iampolicy/variables.go\<close>, the registry of substitutable keys and the
  evaluator of \<^verbatim>\<open>evaluator.go\<close> fit together: what the gate refuses is inert at every door, what it accepts
  is resolved by every door that supplies the registry's keys, and a decision reads nothing of the request
  context but those keys and the ones the conditions test.
\<close>

section \<open>Contexts that agree on the caller\<close>

definition caller_agrees :: "condition_keys \<Rightarrow> condition_keys \<Rightarrow> bool" where
  "caller_agrees keys keys' \<longleftrightarrow> list_all (\<lambda>k. keys' k = keys k) SubstitutableKeys"

lemma set_SubstitutableKeys: "k \<in> set SubstitutableKeys \<longleftrightarrow> substitutableKeys k"
  by (auto simp: SubstitutableKeys_def substitutableKeys_def)

lemma agree_resolve_ref: "caller_agrees keys keys' \<Longrightarrow> resolve_ref keys' = resolve_ref keys"
  by (rule ext) (auto simp: resolve_ref_def caller_agrees_def list_all_iff set_SubstitutableKeys split: option.split)

lemma agree_pieces:
  assumes "resolve_ref keys' = resolve_ref keys"
  shows "resolves keys' = resolves keys" "piece_value keys' = piece_value keys"
    "piece_escaped keys' tc vc = piece_escaped keys tc vc"
proof -
  show "resolves keys' = resolves keys"
    by (rule ext, rename_tac p) (case_tac p; simp add: assms)
  show "piece_value keys' = piece_value keys"
    by (rule ext, rename_tac p) (case_tac p; simp add: assms)
  show "piece_escaped keys' tc vc = piece_escaped keys tc vc"
    by (rule ext, rename_tac p) (case_tac p; simp add: assms)
qed

lemma agree_expand:
  "caller_agrees keys keys' \<Longrightarrow> expandVariables s keys' escapeMeta = expandVariables s keys escapeMeta"
  by (simp add: expandVariables_pieces agree_pieces [OF agree_resolve_ref])

lemma agree_pattern: "caller_agrees keys keys' \<Longrightarrow> matchPattern p v keys' fc = matchPattern p v keys fc"
  by (simp add: matchPattern_def agree_expand)

lemma agree_arn: "caller_agrees keys keys' \<Longrightarrow> matchARN p v keys' fc = matchARN p v keys fc"
  by (simp add: matchARN_def agree_expand agree_pattern Let_def cong: option.case_cong)

lemma agree_equals: "caller_agrees keys keys' \<Longrightarrow> equalsAny U a vs keys' fc foldCase = equalsAny U a vs keys fc foldCase"
proof (induction vs)
  case (Cons v vs)
  then show ?case by (cases "expandVariables v keys False") (cases fc; simp add: agree_expand)
qed simp

lemmas agree_rules = agree_pattern agree_arn agree_equals

lemma agree_positive:
  assumes "caller_agrees keys keys'" and pos: "negatedOperators oper = None"
  shows "conditionHolds U oper a vs keys' fc = conditionHolds U oper a vs keys fc"
  by (simp only: conditionHolds.simps [of U oper, unfolded pos option.case] agree_rules [OF assms(1)])

lemma agree_condition:
  assumes "caller_agrees keys keys'"
  shows "conditionHolds U oper a vs keys' fc = conditionHolds U oper a vs keys fc"
  using agree_positive [OF assms] positive_operator
  by (cases "negatedOperators oper") (simp_all add: conditionHolds_negated)

lemma agree_conditionsHold:
  assumes "caller_agrees keys keys'" and same: "\<And>k. k \<in> condition_keys_of s \<Longrightarrow> keys' k = keys k"
  shows "conditionsHold U s keys' fc = conditionsHold U s keys fc"
proof -
  have "entry_holds U oper keys' fc (key, vs) = entry_holds U oper keys fc (key, vs)"
    if e: "(oper, key, vs) \<in> condition_entries (Condition s)" for oper key vs
  proof -
    have "keys' key = keys key" using e by (intro same) (auto simp: condition_entries_def condition_keys_of_def)
    then show ?thesis
      by (cases "BaseOperator oper"; cases "keys key") (simp_all add: entry_holds_def agree_condition [OF assms(1)])
  qed
  then show ?thesis by (fastforce simp: conditionsHold_set)
qed

lemma agree_resource: "caller_agrees keys keys' \<Longrightarrow> matchesResource s r keys' fc = matchesResource s r keys fc"
  by (simp add: matchesResource_def matchesAnyResource_def agree_pattern)

lemma agree_matches:
  assumes "caller_agrees keys keys'" and "\<And>k. k \<in> condition_keys_of s \<Longrightarrow> keys' k = keys k"
  shows "matches U s action resource keys' = matches U s action resource keys"
  by (simp only: matches_def agree_resource [OF assms(1)] agree_conditionsHold [OF assms])

lemma agree_decision:
  assumes "caller_agrees keys keys'" and "conditions_agree keys keys' ps"
  shows "EvaluateWithKeys U action resource ps keys' = EvaluateWithKeys U action resource ps keys"
proof -
  have "matches U s action resource keys' = matches U s action resource keys" if "s \<in> set (statements_of ps)" for s
    using assms that by (intro agree_matches conditions_agreeD)
  then have "list_ex (grants U action resource keys') (statements_of ps) = list_ex (grants U action resource keys) (statements_of ps)"
    "list_ex (blocks U action resource keys') (statements_of ps) = list_ex (blocks U action resource keys) (statements_of ps)"
    by (auto intro!: list_ex_cong_set simp: grants_def blocks_def)
  then show ?thesis by (simp add: EvaluateWithKeys_def policies_loop_result)
qed

section \<open>What the gate accepts\<close>

text \<open>A door that supplies all the caller's keys.\<close>

definition caller :: "string \<Rightarrow> string \<Rightarrow> string \<Rightarrow> condition_keys" where
  "caller u a i = [KeyUsername \<mapsto> u, KeyPrincipalAccount \<mapsto> a, KeyUserID \<mapsto> i]"

lemma gate_template: "snd (UnsupportedVariable p) \<longleftrightarrow> (\<forall>keys. template keys p = None)"
  "snd (UnsupportedVariable p) \<longleftrightarrow> template (caller u a i) p = None"
  using write_path_gate [of p True u a i, unfolded unresolvable_iff_template]
  by (auto simp: caller_def)

lemma accepted_pattern_flag:
  assumes "\<not> snd (UnsupportedVariable p)" and "caller u a i \<subseteq>\<^sub>m keys"
  shows "matchPattern p val keys fc = matchPattern p val keys fc'"
  using assms gate_template(2) [of p u a i] template_mono [OF assms(2), of p]
  by (auto simp: matchPattern_template)

text \<open>
  A statement whose patterns have all been accepted selects its resources without the fail-closed flag
  ever deciding, at every door that supplies the caller's keys.
\<close>

theorem accepted_resources_flag_free:
  assumes "\<forall>p\<in>set (Resource s) \<union> set (NotResource s). \<not> snd (UnsupportedVariable p)"
    and "caller u a i \<subseteq>\<^sub>m keys"
  shows "matchesResource s resource keys fc = matchesResource s resource keys fc'"
proof -
  have "list_ex (\<lambda>p. matchPattern p resource keys f) ps = list_ex (\<lambda>p. matchPattern p resource keys f') ps"
    if "set ps \<subseteq> set (Resource s) \<union> set (NotResource s)" for ps f f'
    using that assms by (intro list_ex_cong_set accepted_pattern_flag) auto
  then show ?thesis unfolding matchesResource_def matchesAnyResource_def by (metis sup_ge1 sup_ge2)
qed

section \<open>Properties\<close>

text \<open>C9: The write path's gate refuses exactly the patterns that are inert: a pattern is refused exactly when, at every
  door and for every value, it is answered with the fail-closed value of its statement; and one that is accepted
  is never answered so at a door that supplies exactly the registry's keys: there it matches the same values
  with either flag.\<close>
theorem gate_refuses_inert:
  "(snd (UnsupportedVariable p) \<longleftrightarrow> (\<forall>keys val fc. matchPattern p val keys fc = fc)) \<and>
   (\<not> snd (UnsupportedVariable p) \<longleftrightarrow>
      matchPattern p val (caller u a i) True = matchPattern p val (caller u a i) False)"
proof (cases "snd (UnsupportedVariable p)")
  case True
  then have "matchPattern p val keys fc = fc" for keys val fc
    using gate_template(1) [of p] by (simp add: matchPattern_template)
  with True show ?thesis by simp
next
  case False
  have same: "matchPattern p val (caller u a i) True = matchPattern p val (caller u a i) False" for val
    by (rule accepted_pattern_flag [OF False map_le_refl])
  then have "\<not> (\<forall>keys val fc. matchPattern p val keys fc = fc)" by metis
  with False same show ?thesis by simp
qed

text \<open>C8: A decision reads only what the policies name: two requests whose contexts agree on the caller's keys, those of
  SubstitutableKeys, and on the keys the conditions test are decided alike, whatever else the doors supply and
  in whatever order Go iterates the condition maps.\<close>
theorem decision_reads_named_keys:
  assumes "list_all2 same_document ps qs" and "list_all (\<lambda>k. keys' k = keys k) SubstitutableKeys"
    and "conditions_agree keys keys' ps"
  shows "EvaluateWithKeys U action resource ps keys = EvaluateWithKeys U action resource qs keys'"
  using same_documents_decision [OF assms(1)] agree_decision [of keys keys' ps] assms(2,3)
  by (simp add: caller_agrees_def)

section \<open>Witnesses\<close>

theorem decision_reads_named_keys_witness:
  "EvaluateWithKeys ascii_only ''s3:GetObject'' ''arn:aws:s3:::home/bob/x'' [\<lparr>Version = Version2012, Statement = [home_statement
      \<lparr>Condition := [(''StringEquals'', [(''aws:PrincipalAccount'', [''4567''])]), (''Null'', [(''aws:userid'', [''true''])])]\<rparr>]\<rparr>] bob_keys =
   EvaluateWithKeys ascii_only ''s3:GetObject'' ''arn:aws:s3:::home/bob/x'' [\<lparr>Version = Version2012, Statement = [home_statement
      \<lparr>Condition := [(''Null'', [(''aws:userid'', [''true''])]), (''StringEquals'', [(''aws:PrincipalAccount'', [''4567''])])]\<rparr>]\<rparr>]
     (bob_keys(''aws:SourceIp'' \<mapsto> ''10.0.0.1''))"
proof (rule decision_reads_named_keys)
  let ?s = "\<lambda>c. [\<lparr>Version = Version2012, Statement = [home_statement\<lparr>Condition := c\<rparr>]\<rparr>]"
  show "list_all2 same_document (?s [(''StringEquals'', [(''aws:PrincipalAccount'', [''4567''])]), (''Null'', [(''aws:userid'', [''true''])])])
      (?s [(''Null'', [(''aws:userid'', [''true''])]), (''StringEquals'', [(''aws:PrincipalAccount'', [''4567''])])])"
    by (auto simp: same_document_def same_reading_def condition_entries_def)
  show "list_all (\<lambda>k. (bob_keys(''aws:SourceIp'' \<mapsto> ''10.0.0.1'')) k = bob_keys k) SubstitutableKeys"
    by code_simp
  show "conditions_agree bob_keys (bob_keys(''aws:SourceIp'' \<mapsto> ''10.0.0.1''))
      (?s [(''StringEquals'', [(''aws:PrincipalAccount'', [''4567''])]), (''Null'', [(''aws:userid'', [''true''])])])"
    by code_simp
qed

end
