(* ===== verification/GlobBound.thy ===== *)
theory GlobBound
  imports Glob
begin

text \<open>
  How long \<^verbatim>\<open>matchGlob\<close> of \<^verbatim>\<open>pkg/iampolicy/match.go\<close> runs: its main loop one iteration at a time, and
  the number of iterations after which it has stopped. A retry gives back at most the elements of the
  stretch between two stars, so the bound is the product of the value's length and the longest such
  stretch, plus the pattern's length: linear for patterns such as \<^verbatim>\<open>a*a*a*b\<close>, and never exponential.
\<close>

section \<open>The loop, one iteration at a time\<close>

text \<open>The loop's variables \<open>p\<close>, \<open>v\<close>, \<open>star\<close> and \<open>starV\<close>, or the result it has left with.\<close>

datatype scan_state = Scanning nat nat "nat option" nat | Stopped "nat option"

definition glob_iteration ::
  "string \<Rightarrow> string \<Rightarrow> bool \<Rightarrow> nat \<Rightarrow> nat \<Rightarrow> nat option \<Rightarrow> nat \<Rightarrow> scan_state" where
  "glob_iteration pattern val escapes p v star starV =
     (if v < length val then
        (case token pattern p escapes of (b, meta, width) \<Rightarrow>
          if meta \<and> b = CHR ''*'' then Scanning (p + width) v (Some p) v
          else if width > 0 \<and> (meta \<or> b = val ! v) then Scanning (p + width) (v + 1) star starV
          else (case star of
              Some st \<Rightarrow> Scanning (st + 1) (starV + 1) star (starV + 1)
            | None \<Rightarrow> Stopped None))
      else Stopped (Some p))"

fun glob_run :: "nat \<Rightarrow> string \<Rightarrow> string \<Rightarrow> bool \<Rightarrow> scan_state \<Rightarrow> scan_state" where
  "glob_run 0 pattern val escapes s = s"
| "glob_run (Suc n) pattern val escapes (Stopped r) = Stopped r"
| "glob_run (Suc n) pattern val escapes (Scanning p v star starV) =
     glob_run n pattern val escapes (glob_iteration pattern val escapes p v star starV)"

fun scan_result :: "string \<Rightarrow> string \<Rightarrow> bool \<Rightarrow> scan_state \<Rightarrow> nat option" where
  "scan_result pattern val escapes (Stopped r) = r"
| "scan_result pattern val escapes (Scanning p v star starV) = glob_scan pattern val escapes p v star starV"

lemma glob_scan_iteration:
  "glob_scan pattern val escapes p v star starV =
   scan_result pattern val escapes (glob_iteration pattern val escapes p v star starV)"
  by (subst glob_scan.simps) (auto simp: glob_iteration_def split: prod.split option.split)

lemma glob_run_Stopped [simp]: "glob_run n pattern val escapes (Stopped r) = Stopped r"
  by (cases n) simp_all

section \<open>The stretches between stars\<close>

fun longest_run :: "nat \<Rightarrow> glob_elem list \<Rightarrow> nat" where
  "longest_run k [] = k"
| "longest_run k (e # es) = (if e = Star then max k (longest_run 0 es) else longest_run (k + 1) es)"

lemma longest_run_ge: "k \<le> longest_run k es"
  by (induction k es rule: longest_run.induct) auto

lemma longest_run_mono: "k \<le> m \<Longrightarrow> longest_run k es \<le> longest_run m es"
  by (induction k es arbitrary: m rule: longest_run.induct) (auto simp: max_def)

lemma longest_run_tail: "longest_run 0 es \<le> longest_run 0 (e # es)"
  using longest_run_mono [of 0 1 es] by auto

lemma longest_run_length: "longest_run k es \<le> k + length es"
  by (induction k es rule: longest_run.induct) auto

lemma longest_run_stretch: "star_free es \<Longrightarrow> k + length es \<le> longest_run k (es @ fs)"
proof (induction es arbitrary: k)
  case (Cons e es)
  then show ?case using Cons.IH [of "k + 1"] by (auto simp: star_free_def)
qed (simp add: longest_run_ge)

section \<open>The bound\<close>

text \<open>What the iterations left are counted against.\<close>

definition scan_fuel :: "nat \<Rightarrow> string \<Rightarrow> string \<Rightarrow> bool \<Rightarrow> nat \<Rightarrow> nat \<Rightarrow> nat" where
  "scan_fuel L pattern val escapes p starV =
     (length val - starV) * (L + 1) + length (elems escapes (drop p pattern))"

definition scan_bounded ::
  "nat \<Rightarrow> string \<Rightarrow> string \<Rightarrow> bool \<Rightarrow> nat \<Rightarrow> nat \<Rightarrow> nat option \<Rightarrow> nat \<Rightarrow> bool" where
  "scan_bounded L pattern val escapes p v star starV \<longleftrightarrow>
     scan_inv pattern val escapes p v star starV \<and> starV \<le> v \<and>
     longest_run 0 (elems escapes (drop p pattern)) \<le> L \<and>
     (\<forall>st. star = Some st \<longrightarrow> longest_run 0 (elems escapes (drop (st + 1) pattern)) \<le> L)"

lemma iteration_decreases:
  assumes inv: "scan_bounded L pattern val escapes p v star starV"
    and next_state: "glob_iteration pattern val escapes p v star starV = Scanning p' v' star' starV'"
  shows "scan_bounded L pattern val escapes p' v' star' starV' \<and>
    scan_fuel L pattern val escapes p' starV' < scan_fuel L pattern val escapes p starV"
proof -
  obtain b meta w where tok: "token pattern p escapes = (b, meta, w)"
    by (cases "token pattern p escapes") auto
  have scan: "scan_inv pattern val escapes p v star starV" and le: "starV \<le> v"
    and run: "longest_run 0 (elems escapes (drop p pattern)) \<le> L"
    and star_run: "\<And>st. star = Some st \<Longrightarrow> longest_run 0 (elems escapes (drop (st + 1) pattern)) \<le> L"
    using inv by (auto simp: scan_bounded_def)
  have v: "v < length val" using next_state by (auto simp: glob_iteration_def split: if_splits)
  have tail: "elems escapes (drop p pattern) = elem_of b meta # elems escapes (drop (p + w) pattern)" if "w > 0"
    using tok that by (rule token_elems)
  have tail_run: "longest_run 0 (elems escapes (drop (p + w) pattern)) \<le> L" if "w > 0"
    using run longest_run_tail order_trans unfolding tail [OF that] by blast
  consider (star) "meta" "b = CHR ''*''"
    | (ok) "\<not> (meta \<and> b = CHR ''*'')" "w > 0" "meta \<or> b = val ! v"
    | (bad) st where "\<not> (meta \<and> b = CHR ''*'')" "\<not> (w > 0 \<and> (meta \<or> b = val ! v))" "star = Some st"
    using next_state v tok by (cases star) (auto simp: glob_iteration_def split: if_splits)
  then show ?thesis
  proof cases
    case star
    then have w: "w = 1" and tok': "token pattern p escapes = (CHR ''*'', True, w)"
      using tok token_meta by auto
    have eq: "p' = p + w" "v' = v" "star' = Some p" "starV' = v"
      using next_state v tok star by (auto simp: glob_iteration_def)
    have "(length val - v) * (L + 1) \<le> (length val - starV) * (L + 1)"
      using le by (intro mult_le_mono1) simp
    then show ?thesis
      using scan_star_step [OF scan v tok'] tail tail_run w eq
      by (simp add: scan_bounded_def scan_fuel_def)
  next
    case ok
    have eq: "p' = p + w" "v' = v + 1" "star' = star" "starV' = starV"
      using next_state v tok ok by (auto simp: glob_iteration_def)
    show ?thesis
      using scan_match_step [OF scan v tok ok(2,1,3)] tail [OF ok(2)] tail_run [OF ok(2)] le star_run eq
      by (simp add: scan_bounded_def scan_fuel_def)
  next
    case (bad st)
    have eq: "p' = st + 1" "v' = starV + 1" "star' = star" "starV' = starV + 1"
      using next_state v tok bad by (auto simp: glob_iteration_def)
    obtain es where es: "elems escapes (drop (st + 1) pattern) = es @ elems escapes (drop p pattern)"
      and seg: "segment es (take (v - starV) (drop starV val))"
      using scan bad(3) by (auto simp: scan_inv_def)
    have "length es \<le> L"
      using longest_run_stretch [OF segment_star_free [OF seg], of 0] star_run [OF bad(3)] es
      by (metis add_0 order_trans)
    moreover have "(length val - starV) * (L + 1) = (length val - (starV + 1)) * (L + 1) + (L + 1)"
      using v le by (metis Suc_diff_Suc Suc_eq_plus1 add.commute le_less_trans mult_Suc)
    ultimately show ?thesis
      using scan_retry_step [OF scan v tok bad] star_run bad(3) es eq
      by (simp add: scan_bounded_def scan_fuel_def)
  qed
qed

lemma glob_run_stops:
  "scan_bounded L pattern val escapes p v star starV \<Longrightarrow> scan_fuel L pattern val escapes p starV < n \<Longrightarrow>
   glob_run n pattern val escapes (Scanning p v star starV) =
   Stopped (glob_scan pattern val escapes p v star starV)"
proof (induction n arbitrary: p v star starV)
  case (Suc n)
  show ?case
  proof (cases "glob_iteration pattern val escapes p v star starV")
    case (Scanning p' v' star' starV')
    then show ?thesis
      using Suc.IH iteration_decreases [OF Suc.prems(1) Scanning] Suc.prems(2)
      by (simp add: glob_scan_iteration [of pattern val escapes p])
  next
    case (Stopped r)
    then show ?thesis by (simp add: glob_scan_iteration [of pattern val escapes p])
  qed
qed simp

lemma length_elems: "length (elems escapes s) \<le> length s"
  by (induction escapes s rule: elems.induct) (auto split: if_splits)

section \<open>Properties\<close>

text \<open>C6: The matcher's running time is bounded: the main loop of matchGlob has left with its result after at most
  (L + 1) iterations per byte of the value, one per element of the pattern and the one that leaves, where L is
  the length of the longest stretch of the pattern without a star. That is linear in both for patterns such as
  \<^verbatim>\<open>a*a*a*b\<close>, whose stretches have one element; in general, L being at most the pattern's length n and m the value's, it is
  at most m * (n + 1) + n + 1, so that a policy cannot make a request backtrack exponentially.\<close>
theorem glob_iterations_bounded:
  "glob_run (length val * (longest_run 0 (elems escapes pattern) + 1) + length (elems escapes pattern) + 1)
     pattern val escapes (Scanning 0 0 None 0) = Stopped (glob_scan pattern val escapes 0 0 None 0) \<and>
   length (elems escapes pattern) \<le> length pattern \<and>
   longest_run 0 (elems escapes pattern) \<le> length pattern \<and>
   longest_run 0 (elems False ''a*a*a*b'') = 1"
proof -
  have "scan_bounded (longest_run 0 (elems escapes pattern)) pattern val escapes 0 0 None 0"
    by (simp add: scan_bounded_def scan_inv_def)
  then have "glob_run (length val * (longest_run 0 (elems escapes pattern) + 1) + length (elems escapes pattern) + 1)
      pattern val escapes (Scanning 0 0 None 0) = Stopped (glob_scan pattern val escapes 0 0 None 0)"
    by (rule glob_run_stops) (simp add: scan_fuel_def)
  moreover have "longest_run 0 (elems escapes pattern) \<le> length pattern"
    using longest_run_length [of 0 "elems escapes pattern"] length_elems [of escapes pattern] by linarith
  moreover have "longest_run 0 (elems False ''a*a*a*b'') = 1" by code_simp
  ultimately show ?thesis using length_elems by blast
qed

end
