(* ===== verification/RequestClock.thy ===== *)
theory RequestClock
  imports Conditions
begin

text \<open>
  The door's clock and the conditions that read it: \<open>SetRequestTime\<close> of \<^verbatim>\<open>pkg/iampolicy/dates.go\<close> writes
  the two time keys, and the date and numeric operators of \<^verbatim>\<open>conditions.go\<close>, \<^verbatim>\<open>dates.go\<close> and
  \<^verbatim>\<open>numbers.go\<close> parse them back. The reference readings are orders on instants and on rationals.
\<close>

section \<open>What the operators mean\<close>

definition date_order :: "string \<Rightarrow> go_time \<Rightarrow> go_time \<Rightarrow> bool" where
  "date_order oper t w =
     (if oper = OpDateEquals then t = w else if oper = OpDateLessThan then t < w
      else if oper = OpDateLessThanEquals then t \<le> w else if oper = OpDateGreaterThan then w < t else w \<le> t)"

definition number_order :: "string \<Rightarrow> rat \<Rightarrow> rat \<Rightarrow> bool" where
  "number_order oper x y =
     (if oper = OpNumericEquals then x = y else if oper = OpNumericLessThan then x < y
      else if oper = OpNumericLessThanEquals then x \<le> y else if oper = OpNumericGreaterThan then y < x else y \<le> x)"

text \<open>Values are alternatives; one that does not parse is none, and under a negated operator excludes none.\<close>

definition date_condition :: "string \<Rightarrow> go_time \<Rightarrow> string list \<Rightarrow> bool" where
  "date_condition oper t vs \<longleftrightarrow>
     (if oper = OpDateNotEquals then \<forall>v\<in>set vs. ParseDate v \<noteq> Some t
      else \<exists>v\<in>set vs. \<exists>w. ParseDate v = Some w \<and> date_order oper t w)"

definition number_condition :: "string \<Rightarrow> rat \<Rightarrow> string list \<Rightarrow> bool" where
  "number_condition oper x vs \<longleftrightarrow>
     (if oper = OpNumericNotEquals then \<forall>v\<in>set vs. map_option number_value (ParseNumber v) \<noteq> Some x
      else \<exists>v\<in>set vs. \<exists>n. ParseNumber v = Some n \<and> number_order oper x (number_value n))"

section \<open>The operators on an operand that parses\<close>

lemma date_holds:
  assumes "ParseDate a = Some t" and "oper \<in> set dateOps" and "oper \<noteq> OpDateNotEquals"
  shows "dateHoldsAny oper a vs fc \<longleftrightarrow> (\<exists>v\<in>set vs. \<exists>w. ParseDate v = Some w \<and> date_order oper t w)"
proof -
  have "dateCompares oper (time_compare t w) \<longleftrightarrow> date_order oper t w" for w
    using assms(2,3) by (auto simp: dateOps_def dateCompares_def date_order_def time_compare_order op_neq)
  then show ?thesis using assms(1) by (auto simp: dateHoldsAny_def list_ex_iff split: option.splits)
qed

lemma date_conditionHolds:
  assumes "ParseDate a = Some t" and "oper \<in> set dateOps"
  shows "conditionHolds U oper a vs keys fc = date_condition oper t vs"
proof (cases "oper = OpDateNotEquals")
  case True
  have "conditionHolds U OpDateEquals a vs keys f = dateHoldsAny OpDateEquals a vs f" for f
    by (simp add: conditionHolds.simps [of U OpDateEquals] negatedOperators_def op_neq)
  moreover have "negatedOperators OpDateNotEquals = Some OpDateEquals" by (simp add: negatedOperators_def op_neq)
  ultimately show ?thesis
    using True date_holds [OF assms(1), of OpDateEquals]
    by (simp add: conditionHolds_negated date_condition_def date_order_def dateOps_def op_neq)
next
  case False
  then have "conditionHolds U oper a vs keys fc = dateHoldsAny oper a vs fc"
    using assms(2) by (subst conditionHolds.simps) (auto simp: dateOps_def negatedOperators_def op_neq)
  then show ?thesis using date_holds [OF assms False] False by (simp add: date_condition_def)
qed

lemma number_holds:
  assumes "ParseNumber a = Some n" and "oper \<in> set numericOps" and "oper \<noteq> OpNumericNotEquals"
  shows "numericHoldsAny oper a vs fc \<longleftrightarrow>
    (\<exists>v\<in>set vs. \<exists>m. ParseNumber v = Some m \<and> number_order oper (number_value n) (number_value m))"
proof -
  have "numericCompares oper (number_compare n m) \<longleftrightarrow> number_order oper (number_value n) (number_value m)"
    if "ParseNumber v = Some m" for v m
    using assms(2,3) number_compare_value [OF ParseNumber_wf [OF assms(1)] ParseNumber_wf [OF that]]
    by (auto simp: numericOps_def numericCompares_def number_order_def rat_compare_def op_neq)
  then show ?thesis using assms(1) by (force simp: numericHoldsAny_def list_ex_iff split: option.splits)
qed

lemma number_conditionHolds:
  assumes "ParseNumber a = Some n" and "oper \<in> set numericOps"
  shows "conditionHolds U oper a vs keys fc = number_condition oper (number_value n) vs"
proof (cases "oper = OpNumericNotEquals")
  case True
  have "conditionHolds U OpNumericEquals a vs keys f = numericHoldsAny OpNumericEquals a vs f" for f
    by (simp add: conditionHolds.simps [of U OpNumericEquals] negatedOperators_def op_neq)
  moreover have "negatedOperators OpNumericNotEquals = Some OpNumericEquals" by (simp add: negatedOperators_def op_neq)
  ultimately show ?thesis
    using True number_holds [OF assms(1), of OpNumericEquals]
    by (auto simp: conditionHolds_negated number_condition_def number_order_def numericOps_def op_neq)
next
  case False
  then have "conditionHolds U oper a vs keys fc = numericHoldsAny oper a vs fc"
    using assms(2) by (subst conditionHolds.simps) (auto simp: numericOps_def negatedOperators_def op_neq)
  then show ?thesis using number_holds [OF assms False] False by (simp add: number_condition_def)
qed

section \<open>The clock keys\<close>

lemma ParseNumber_format_int: "\<exists>n. ParseNumber (format_int i) = Some n \<and> number_value n = of_int i"
proof -
  let ?w = "nat_string (nat \<bar>i\<bar>)"
  have w: "allDigits (?w @ [])" "list_all is_digit (?w @ [])" "digits_nat ?w = nat \<bar>i\<bar>"
    using nat_string_spec [of "nat \<bar>i\<bar>"] by (simp_all add: allDigits_def)
  have "number_form (format_int i) (i < 0) ?w [] 0"
    unfolding number_form_def using w
    by (intro exI [of _ "if i < 0 then ''-'' else []"] exI [of _ "[]"]) (simp add: format_int_def)
  from ParseNumber_form [OF this] have p: "ParseNumber (format_int i) = normalise (i < 0) ?w 0" by simp
  then obtain n where n: "normalise (i < 0) ?w 0 = Some n"
    using normalise_None [of "i < 0" ?w 0] by (auto simp: MinInt32_def MaxInt32_def)
  have "number_value n = of_int i"
    using normalise_value [OF _ n] w by (auto simp: decimal_value_def)
  with p n show ?thesis by simp
qed

lemma clock_operators:
  "oper \<in> set dateOps \<union> set numericOps \<Longrightarrow> oper \<noteq> OpNull"
  by (auto simp: dateOps_def numericOps_def op_neq)

lemma entry_present:
  "BaseOperator op = (oper, ifExists) \<Longrightarrow> oper \<noteq> OpNull \<Longrightarrow> keys key = Some actual \<Longrightarrow>
   entry_holds U op keys fc (key, vs) = conditionHolds U oper actual vs keys fc"
  by (simp add: entry_holds_def)

section \<open>Properties\<close>

text \<open>C37: Time conditions read the door's clock exactly: after SetRequestTime, for a clock in the years the formats span,
  every date operator, negated and IfExists forms included, compares the instant to the second with the dates
  that parse, alike on aws:CurrentTime and on aws:EpochTime; and every numeric operator on aws:EpochTime
  compares the number of seconds with the exact decimals. The fail-closed flag decides nothing.\<close>
theorem clock_conditions_exact:
  assumes "minEpochSeconds \<le> unix_secs now" and "unix_secs now \<le> maxEpochSeconds"
    and "BaseOperator op = (oper, ifExists)"
  shows "(oper \<in> set dateOps \<longrightarrow>
      entry_holds U op (SetRequestTime k now) fc (KeyCurrentTime, vs) = date_condition oper (Time (unix_secs now) 0) vs \<and>
      entry_holds U op (SetRequestTime k now) fc (KeyEpochTime, vs) = date_condition oper (Time (unix_secs now) 0) vs) \<and>
    (oper \<in> set numericOps \<longrightarrow>
      entry_holds U op (SetRequestTime k now) fc (KeyEpochTime, vs) = number_condition oper (of_int (unix_secs now)) vs)"
proof -
  let ?keys = "SetRequestTime k now"
  obtain c e where c: "?keys KeyCurrentTime = Some c" "ParseDate c = Some (Time (unix_secs now) 0)"
    and e: "?keys KeyEpochTime = Some e" "ParseDate e = Some (Time (unix_secs now) 0)"
    using SetRequestTime_roundtrip [OF assms(1,2), of k] by auto
  have "e = format_int (unix_secs now)" using e(1) by (simp add: SetRequestTime_def)
  then obtain n where n: "ParseNumber e = Some n" "number_value n = of_int (unix_secs now)"
    using ParseNumber_format_int by blast
  note entry = entry_present [OF assms(3) clock_operators, where keys = ?keys]
  show ?thesis
    using entry [OF _ c(1)] entry [OF _ e(1)] date_conditionHolds [OF c(2)] date_conditionHolds [OF e(2)]
      number_conditionHolds [OF n(1)] n(2) by simp
qed

section \<open>Witnesses\<close>

text \<open>A maintenance window that has ended, at five past midnight of the first day of 2024.\<close>

theorem clock_conditions_exact_witness:
  "entry_holds \<lparr>lower_runes = (\<lambda>s. s), fold_runes = (\<lambda>s t. s = t)\<rparr> ''DateLessThanIfExists''
     (SetRequestTime Map.empty (Time 1704067500 7)) True (KeyEpochTime, [format_int 1704067200]) = False"
proof -
  let ?u = "\<lparr>lower_runes = (\<lambda>s. s), fold_runes = (\<lambda>s t. s = t)\<rparr>"
  have "minEpochSeconds \<le> unix_secs (Time 1704067500 7)" "unix_secs (Time 1704067500 7) \<le> maxEpochSeconds"
    by (simp_all add: minEpochSeconds_def maxEpochSeconds_def)
  moreover have "BaseOperator ''DateLessThanIfExists'' = (OpDateLessThan, True)" by code_simp
  ultimately have "entry_holds ?u ''DateLessThanIfExists'' (SetRequestTime Map.empty (Time 1704067500 7)) True
      (KeyEpochTime, [format_int 1704067200]) = date_condition OpDateLessThan (Time 1704067500 0) [format_int 1704067200]"
    using clock_conditions_exact [of "Time 1704067500 7" "''DateLessThanIfExists''" OpDateLessThan True] by (simp add: dateOps_def)
  then show ?thesis
    by (simp add: date_condition_def date_order_def op_neq less_go_time_def ParseDate_epoch
        minEpochSeconds_def maxEpochSeconds_def)
qed

end
