(* ===== verification/SourceAddress.thy ===== *)
theory SourceAddress
  imports Conditions
begin

text \<open>
  \<^verbatim>\<open>IpAddress\<close> and \<^verbatim>\<open>NotIpAddress\<close> of \<^verbatim>\<open>pkg/iampolicy/conditions.go\<close> for an IPv4 client, on the texts
  themselves: the client as a dotted quad or in the mapped form a dual-stack listener reports, and the policy's
  value as an address or a block in either form.
\<close>

section \<open>Blocks written out\<close>

lemma after_last_slash: "CHR ''/'' \<notin> set t \<Longrightarrow> after_last (CHR ''/'') (s @ CHR ''/'' # t) = t"
proof -
  assume "CHR ''/'' \<notin> set t"
  then have "takeWhile (\<lambda>c. c \<noteq> CHR ''/'') (rev t @ CHR ''/'' # rev s) = rev t @ takeWhile (\<lambda>c. c \<noteq> CHR ''/'') (CHR ''/'' # rev s)"
    by (intro takeWhile_append2) auto
  then show ?thesis by simp
qed

lemma bits_text:
  "CHR ''/'' \<notin> set (nat_string n) \<and> \<not> (1 < length (nat_string n) \<and> hd (nat_string n) = CHR ''0'') \<and>
   is_digit (hd (nat_string n))"
proof -
  have digits: "list_all is_digit (nat_string n)" "nat_string n \<noteq> []" using nat_string_spec [of n] by auto
  then have "CHR ''/'' \<notin> set (nat_string n)" by (auto simp: list_all_iff is_digit_def byte_def)
  moreover have "hd (nat_string n) \<noteq> CHR ''0'' \<or> length (nat_string n) = 1"
  proof (cases "n = 0")
    case True
    then show ?thesis by (simp add: nat_string.simps [of 0])
  next
    case False
    then show ?thesis using nat_string_head [of n] by (auto simp: digit_val_def byte_def)
  qed
  moreover have "is_digit (hd (nat_string n))" using digits by (cases "nat_string n") auto
  ultimately show ?thesis by auto
qed

lemma ParsePrefix_text:
  assumes "ParseAddr s = Some a" and "\<not> has_zone a" and "n \<le> (case a of V4 _ \<Rightarrow> 32 | V6 _ _ \<Rightarrow> 128)"
  shows "ParsePrefix (s @ ''/'' @ nat_string n) = Some \<lparr>prefix_addr = a, prefix_bits = n\<rparr>"
proof -
  have "int n < 2 ^ 63" using assms(3) by (cases a) simp_all
  then have "parse_int 64 (nat_string n) = Some (int n)"
    using parse_int_format [of 64 "int n"] by (simp add: format_int_def)
  moreover have "after_last (CHR ''/'') (s @ CHR ''/'' # nat_string n) = nat_string n"
    using bits_text [of n] by (intro after_last_slash) simp
  moreover have "\<not> int n > (case a of V4 _ \<Rightarrow> 32 | V6 _ _ \<Rightarrow> 128)" using assms(3) by (cases a) simp_all
  ultimately show ?thesis
    using assms(1,2) bits_text [of n] by (simp add: ParsePrefix_def Let_def del: after_last.simps)
qed

section \<open>Clients and values\<close>

definition quad_ok :: "nat \<Rightarrow> nat \<Rightarrow> nat \<Rightarrow> nat \<Rightarrow> bool" where
  "quad_ok a b c d \<longleftrightarrow> a < 256 \<and> b < 256 \<and> c < 256 \<and> d < 256"

text \<open>The two spellings of an IPv4 address.\<close>

definition spellings :: "nat \<Rightarrow> nat \<Rightarrow> nat \<Rightarrow> nat \<Rightarrow> string list" where
  "spellings a b c d = [quad a b c d, mapped (quad a b c d)]"

lemma quad_word_bound: "quad_ok a b c d \<Longrightarrow> quad_word a b c d < 2 ^ 32"
  by (simp add: quad_ok_def quad_word_def)

lemma base_256: "d < 256 \<Longrightarrow> h < 256 \<Longrightarrow> x * 256 + d = y * 256 + h \<longleftrightarrow> x = y \<and> d = h" for x y d h :: nat
proof
  assume small: "d < 256" "h < 256" and eq: "x * 256 + d = y * 256 + h"
  have "(x * 256 + d) div 256 = x" "(x * 256 + d) mod 256 = d" "(y * 256 + h) div 256 = y" "(y * 256 + h) mod 256 = h"
    using small by simp_all
  then show "x = y \<and> d = h" using eq by metis
qed simp

lemma quad_word_inject:
  "quad_ok a b c d \<Longrightarrow> quad_ok e f g h \<Longrightarrow> quad_word a b c d = quad_word e f g h \<longleftrightarrow> [a, b, c, d] = [e, f, g, h]"
  by (simp only: quad_ok_def quad_word_def base_256 list.inject simp_thms conj_assoc)

lemma spelling_parses:
  assumes "quad_ok a b c d" and "s \<in> set (spellings a b c d)"
  shows "\<exists>x. ParseAddr s = Some x \<and> Unmap x = V4 (word_of_nat (quad_word a b c d)) \<and> \<not> has_zone x"
  using assms ParseAddr_quad [of a b c d] ParseAddr_mapped [of a b c d] Unmap_mapped [OF quad_word_bound [OF assms(1)]]
  by (auto simp: spellings_def quad_ok_def simp del: Unmap.simps(2))

lemma unat_quad: "quad_ok a b c d \<Longrightarrow> unat (word_of_nat (quad_word a b c d) :: 32 word) = quad_word a b c d"
  using quad_word_bound [of a b c d] by (simp add: unat_of_nat)

lemma ip_condition:
  assumes "ParseAddr client = Some x"
  shows "conditionHolds U OpIPAddress client [v] keys fc = ip_value_holds (Unmap x) v"
  using assms by (simp add: operator_simps ipInAny_def del: Unmap.simps)

lemma v6_block_no_v4: "\<not> Contains \<lparr>prefix_addr = V6 b z, prefix_bits = n\<rparr> (V4 a)"
  by simp

lemma no_slash: "s \<in> set (spellings a b c d) \<Longrightarrow> ParsePrefix s = None"
proof -
  assume s: "s \<in> set (spellings a b c d)"
  have "\<not> (is_digit CHR ''/'' \<or> CHR ''/'' = CHR ''.'')" by (simp add: is_digit_def byte_def)
  then have "CHR ''/'' \<notin> set (quad a b c d)" using quad_chars [of "CHR ''/''" a b c d] by blast
  then have "CHR ''/'' \<notin> set s" using s by (auto simp: spellings_def mapped_def)
  then show ?thesis by (simp add: ParsePrefix_def)
qed

section \<open>Properties\<close>

text \<open>C38: Address conditions on IPv4 clients are exact on the texts: a client reported in either spelling is in a block
  a.b.c.d/n exactly when the first n bits agree, and equals an address of the policy, in either spelling,
  exactly when the octets agree. A block in the mapped spelling, however, contains no IPv4 client in any
  spelling, not even its own address: the client is unmapped and the block is not.\<close>
theorem ipv4_conditions_exact:
  assumes "quad_ok a b c d" and "quad_ok e f g h" and "client \<in> set (spellings a b c d)"
  shows "(n \<le> 32 \<longrightarrow> (conditionHolds U OpIPAddress client [quad e f g h @ ''/'' @ nat_string n] keys fc \<longleftrightarrow>
        quad_word a b c d div 2 ^ (32 - n) = quad_word e f g h div 2 ^ (32 - n))) \<and>
    (v \<in> set (spellings e f g h) \<longrightarrow>
       (conditionHolds U OpIPAddress client [v] keys fc \<longleftrightarrow> [a, b, c, d] = [e, f, g, h])) \<and>
    (n \<le> 32 \<longrightarrow>
       \<not> conditionHolds U OpIPAddress client [mapped (quad e f g h) @ ''/'' @ nat_string (96 + n)] keys fc \<and>
       conditionHolds U OpNotIPAddress client [mapped (quad e f g h) @ ''/'' @ nat_string (96 + n)] keys fc)"
proof -
  let ?w = "word_of_nat (quad_word a b c d) :: 32 word"
  obtain x where x: "ParseAddr client = Some x" "Unmap x = V4 ?w"
    using spelling_parses [OF assms(1,3)] by blast
  note holds = ip_condition [OF x(1), unfolded x(2)]
  have octets: "e < 256" "f < 256" "g < 256" "h < 256" using assms(2) by (simp_all add: quad_ok_def)
  have block: "conditionHolds U OpIPAddress client [quad e f g h @ ''/'' @ nat_string n] keys fc \<longleftrightarrow>
        quad_word a b c d div 2 ^ (32 - n) = quad_word e f g h div 2 ^ (32 - n)" if "n \<le> 32"
    using ParsePrefix_text [OF ParseAddr_quad [OF octets], of n] that
    by (simp add: holds ip_value_holds_def Contains_Masked Contains_V4 unat_quad assms(1,2)
        del: Contains.simps Masked.simps)
  have address: "conditionHolds U OpIPAddress client [v] keys fc \<longleftrightarrow> [a, b, c, d] = [e, f, g, h]"
    if v: "v \<in> set (spellings e f g h)"
  proof -
    obtain y where y: "ParseAddr v = Some y" "Unmap y = V4 (word_of_nat (quad_word e f g h))"
      using spelling_parses [OF assms(2) v] by blast
    have "?w = word_of_nat (quad_word e f g h) \<longleftrightarrow> quad_word a b c d = quad_word e f g h"
      using unat_quad [OF assms(1)] unat_quad [OF assms(2)] by metis
    then show ?thesis
      using y quad_word_inject [OF assms(1,2)] no_slash [OF v] by (auto simp: holds ip_value_holds_def)
  qed
  have mapped_block: "\<not> conditionHolds U OpIPAddress client [mapped (quad e f g h) @ ''/'' @ nat_string (96 + n)] keys fc'"
    if "n \<le> 32" for fc'
    using ParsePrefix_text [OF ParseAddr_mapped [OF octets], of "96 + n"] that
    by (simp add: holds ip_value_holds_def Contains_Masked v6_block_no_v4 del: Contains.simps Masked.simps)
  have "negatedOperators OpNotIPAddress = Some OpIPAddress" by (simp add: negatedOperators_def op_neq)
  then show ?thesis using block address mapped_block by (simp add: conditionHolds_negated)
qed

section \<open>Witnesses\<close>

text \<open>A client inside \<^verbatim>\<open>10.0.0.0/8\<close> and inside the mapped block \<^verbatim>\<open>::ffff:10.0.0.0/104\<close>.\<close>

theorem ipv4_conditions_exact_witness:
  "let u = \<lparr>lower_runes = (\<lambda>s. s), fold_runes = (\<lambda>s t. s = t)\<rparr>; client = mapped (quad 10 4 1 9)
   in conditionHolds u OpIPAddress client [quad 10 0 0 0 @ ''/'' @ nat_string 8] Map.empty False \<and>
     \<not> conditionHolds u OpIPAddress client [mapped (quad 10 0 0 0) @ ''/'' @ nat_string (96 + 8)] Map.empty False"
proof -
  have "quad_ok 10 4 1 9" "quad_ok 10 0 0 0" by (simp_all add: quad_ok_def)
  moreover have "mapped (quad 10 4 1 9) \<in> set (spellings 10 4 1 9)" by (simp add: spellings_def)
  ultimately show ?thesis
    using ipv4_conditions_exact [of 10 4 1 9 10 0 0 0 "mapped (quad 10 4 1 9)" 8]
    unfolding Let_def by (simp add: quad_word_def)
qed

end
