(* ===== verification/SafeCast.thy ===== *)
theory SafeCast
  imports "HOL-Library.Word"
begin

text \<open>
  \<^verbatim>\<open>pkg/safecast/safecast.go\<close>: integer conversions that saturate. Go's \<^verbatim>\<open>int\<close>, \<^verbatim>\<open>int64\<close> and
  \<^verbatim>\<open>uint64\<close> are 64-bit words; the signed reading is \<^term>\<open>sint\<close>, the unsigned one \<^term>\<open>uint\<close>. The
  conversion \<^verbatim>\<open>uint32(v)\<close> truncates, which is \<^term>\<open>ucast\<close>.
\<close>

section \<open>The code\<close>

definition Int64ToUint64 :: "64 word \<Rightarrow> 64 word" where
  "Int64ToUint64 v = (if sint v < 0 then 0 else v)"

definition Int64ToUint32 :: "64 word \<Rightarrow> 32 word" where
  "Int64ToUint32 v = (if sint v < 0 then 0 else if sint v > 4294967295 then 4294967295 else ucast v)"

definition IntToUint8 :: "64 word \<Rightarrow> 8 word" where
  "IntToUint8 v = (if sint v < 0 then 0 else if sint v > 255 then 255 else ucast v)"

definition IntToUint16 :: "64 word \<Rightarrow> 16 word" where
  "IntToUint16 v = (if sint v < 0 then 0 else if sint v > 65535 then 65535 else ucast v)"

definition IntToUint32 :: "64 word \<Rightarrow> 32 word" where
  "IntToUint32 v = (if sint v < 0 then 0 else if sint v > 4294967295 then 4294967295 else ucast v)"

definition IntToUint64 :: "64 word \<Rightarrow> 64 word" where
  "IntToUint64 v = (if sint v < 0 then 0 else v)"

definition Uint64ToInt :: "64 word \<Rightarrow> 64 word" where
  "Uint64ToInt v = (if uint v > 9223372036854775807 then 9223372036854775807 else v)"

definition Uint64ToInt64 :: "64 word \<Rightarrow> 64 word" where
  "Uint64ToInt64 v = (if uint v > 9223372036854775807 then 9223372036854775807 else v)"

definition Uint64ToUint32 :: "64 word \<Rightarrow> 32 word" where
  "Uint64ToUint32 v = (if uint v > 4294967295 then 4294967295 else ucast v)"

section \<open>Saturation\<close>

definition clamp :: "int \<Rightarrow> int \<Rightarrow> int \<Rightarrow> int" where
  "clamp lo hi x = max lo (min x hi)"

lemma uint_of_nonneg: "0 \<le> sint v \<Longrightarrow> uint v = sint v" for v :: "64 word"
  using sint_lt [of v] by (simp add: uint_sint take_bit_int_eq_self)

lemma sint_below: "uint v < 2 ^ 63 \<Longrightarrow> sint v = uint v" for v :: "64 word"
proof -
  assume "uint v < 2 ^ 63"
  moreover have "- (2 ^ 63) \<le> (0 :: int)" by simp
  moreover have "0 \<le> uint v" by simp
  ultimately have "signed_take_bit 63 (uint v) = uint v"
    by (intro signed_take_bit_int_eq_self) linarith+
  then show ?thesis by (simp add: sint_uint)
qed

lemma uint_ucast_small: "uint v < 2 ^ LENGTH('b) \<Longrightarrow> uint (ucast v :: 'b :: len word) = uint v" for v :: "64 word"
  by (simp add: unsigned_ucast_eq take_bit_int_eq_self)

section \<open>Properties\<close>

lemma signed_cases:
  fixes v :: "64 word"
  obtains "sint v < 0" | "0 \<le> sint v" "uint v = sint v" "sint v < 2 ^ 63"
  using uint_of_nonneg [of v] sint_lt [of v] by fastforce

text \<open>Every conversion from a signed integer saturates: its result, read as an unsigned number, is the
  argument clamped to the range of the target type, so a negative argument gives 0 and one too large
  gives the maximum.\<close>
theorem signed_conversions_saturate:
  "uint (Int64ToUint64 v) = clamp 0 (2 ^ 64 - 1) (sint v) \<and>
   uint (Int64ToUint32 v) = clamp 0 (2 ^ 32 - 1) (sint v) \<and>
   uint (IntToUint8 v) = clamp 0 (2 ^ 8 - 1) (sint v) \<and>
   uint (IntToUint16 v) = clamp 0 (2 ^ 16 - 1) (sint v) \<and>
   uint (IntToUint32 v) = clamp 0 (2 ^ 32 - 1) (sint v) \<and>
   uint (IntToUint64 v) = clamp 0 (2 ^ 64 - 1) (sint v)"
proof (cases v rule: signed_cases)
  case 1
  then show ?thesis
    by (simp add: Int64ToUint64_def Int64ToUint32_def IntToUint8_def IntToUint16_def IntToUint32_def
        IntToUint64_def clamp_def)
next
  case 2
  then show ?thesis
    by (auto simp: Int64ToUint64_def Int64ToUint32_def IntToUint8_def IntToUint16_def IntToUint32_def
        IntToUint64_def clamp_def uint_ucast_small min_def max_def)
qed

text \<open>Every conversion from an unsigned 64-bit integer saturates at the maximum of the target type, and
  the results of the signed ones are never negative.\<close>
theorem unsigned_conversions_saturate:
  "sint (Uint64ToInt v) = clamp 0 (2 ^ 63 - 1) (uint v) \<and>
   sint (Uint64ToInt64 v) = clamp 0 (2 ^ 63 - 1) (uint v) \<and>
   uint (Uint64ToUint32 v) = clamp 0 (2 ^ 32 - 1) (uint v)"
proof -
  have "sint (9223372036854775807 :: 64 word) = 9223372036854775807"
    by (subst sint_below) simp_all
  then show ?thesis
    by (auto simp: Uint64ToInt_def Uint64ToInt64_def Uint64ToUint32_def clamp_def min_def max_def sint_below
        uint_ucast_small)
qed

end
