(* ===== verification/Arn.thy ===== *)
theory Arn
  imports GoStrings
begin

text \<open>
  \<^verbatim>\<open>pkg/auth/arn.go\<close>: parsing IAM ARNs and resolving them against a store. The store is the
  caller's \<open>ARNLookup\<close>, a parameter that returns its own error or the stored ARN. Error values
  are kept apart the way \<^verbatim>\<open>errors.Is\<close> tells them apart: a sentinel wrapped around the parse error,
  the mismatch sentinel, or the lookup's error unchanged.
\<close>

section \<open>The code\<close>

datatype arn_error = NotIAMARN | WrongResource string | EmptyName string | EmptyAccount

definition parseIAMARN :: "string \<Rightarrow> string \<Rightarrow> arn_error + string \<times> string" where
  "parseIAMARN arn resource =
     (let parts = splitn_byte 6 (CHR '':'') arn
      in if length parts \<noteq> 6 \<or> parts ! 0 \<noteq> ''arn'' \<or> parts ! 1 \<noteq> ''aws'' \<or> parts ! 2 \<noteq> ''iam'' \<or>
            parts ! 3 \<noteq> [] then Inl NotIAMARN
         else (case cut_prefix (parts ! 5) (resource @ ''/'') of (pathAndName, ok) \<Rightarrow>
           if \<not> ok then Inl (WrongResource resource)
           else (let name = after_last (CHR ''/'') pathAndName
             in if name = [] then Inl (EmptyName resource)
                else if parts ! 4 = [] then Inl EmptyAccount
                else Inr (parts ! 4, name))))"

definition ParseRoleARN :: "string \<Rightarrow> arn_error + string \<times> string" where
  "ParseRoleARN arn = parseIAMARN arn ''role''"

datatype sentinel = ErrInvalidRoleARN | ErrRoleARNMismatch | ErrInvalidPolicyARN | ErrPolicyARNMismatch
  | ErrInvalidInstanceProfileARN | ErrInstanceProfileARNMismatch

datatype 'e resolve_error = Wrapped sentinel arn_error | Sentinel sentinel | Lookup 'e

definition resolveIAMARN ::
  "string \<Rightarrow> string \<Rightarrow> (string \<Rightarrow> string \<Rightarrow> 'e + string) \<Rightarrow> sentinel \<Rightarrow> sentinel \<Rightarrow>
   'e resolve_error + string \<times> string" where
  "resolveIAMARN arn resource lookup errInvalid errMismatch =
     (case parseIAMARN arn resource of
        Inl e \<Rightarrow> Inl (Wrapped errInvalid e)
      | Inr (accountID, name) \<Rightarrow>
          (case lookup accountID name of
             Inl e \<Rightarrow> Inl (Lookup e)
           | Inr storedARN \<Rightarrow>
               if storedARN \<noteq> arn then Inl (Sentinel errMismatch) else Inr (accountID, name)))"

definition ResolveRoleARN where
  "ResolveRoleARN roleARN lookup =
     resolveIAMARN roleARN ''role'' lookup ErrInvalidRoleARN ErrRoleARNMismatch"

definition ResolvePolicyARN where
  "ResolvePolicyARN policyARN lookup =
     resolveIAMARN policyARN ''policy'' lookup ErrInvalidPolicyARN ErrPolicyARNMismatch"

definition ResolveInstanceProfileARN where
  "ResolveInstanceProfileARN profileARN lookup =
     resolveIAMARN profileARN ''instance-profile'' lookup ErrInvalidInstanceProfileARN
       ErrInstanceProfileARNMismatch"

definition ParsePolicyARN :: "string \<Rightarrow> arn_error + string \<times> string" where
  "ParsePolicyARN arn = parseIAMARN arn ''policy''"

definition IsAWSManagedPolicyARN :: "string \<Rightarrow> bool" where
  "IsAWSManagedPolicyARN arn = (case ParsePolicyARN arn of Inl _ \<Rightarrow> False | Inr (accountID, _) \<Rightarrow> accountID = ''aws'')"

section \<open>The grammar of IAM ARNs\<close>

definition iam_arn :: "string \<Rightarrow> string \<Rightarrow> string \<Rightarrow> string \<Rightarrow> string" where
  "iam_arn account resource path name = ''arn:aws:iam::'' @ account @ '':'' @ resource @ ''/'' @ path @ name"

text \<open>A path is empty or ends with a slash; account and name carry no separator and are not empty.\<close>

definition arn_parts :: "string \<Rightarrow> string \<Rightarrow> string \<Rightarrow> bool" where
  "arn_parts account path name \<longleftrightarrow> account \<noteq> [] \<and> CHR '':'' \<notin> set account \<and>
     (path = [] \<or> last path = CHR ''/'') \<and> name \<noteq> [] \<and> CHR ''/'' \<notin> set name"

lemma after_last_split: "\<exists>p. s = p @ after_last b s \<and> (p = [] \<or> last p = b) \<and> b \<notin> set (after_last b s)"
proof -
  let ?t = "takeWhile (\<lambda>c. c \<noteq> b) (rev s)" and ?d = "dropWhile (\<lambda>c. c \<noteq> b) (rev s)"
  have "rev s = ?t @ ?d" by simp
  then have "s = rev ?d @ rev ?t" by (metis rev_append rev_rev_ident)
  moreover have "rev ?d = [] \<or> last (rev ?d) = b"
    using hd_dropWhile [of "\<lambda>c. c \<noteq> b" "rev s"] by (auto simp: last_rev)
  moreover have "b \<notin> set (rev ?t)" by (auto dest: set_takeWhileD)
  ultimately show ?thesis by auto
qed

lemma after_last_append: "b \<notin> set n \<Longrightarrow> p = [] \<or> last p = b \<Longrightarrow> after_last b (p @ n) = n"
proof -
  assume n: "b \<notin> set n" and p: "p = [] \<or> last p = b"
  have "takeWhile (\<lambda>c. c \<noteq> b) (rev n @ rev p) = rev n @ takeWhile (\<lambda>c. c \<noteq> b) (rev p)"
    using n by (intro takeWhile_append2) auto
  moreover have "takeWhile (\<lambda>c. c \<noteq> b) (rev p) = []"
    using p by (cases "rev p") (auto simp: last_rev hd_rev)
  ultimately show ?thesis by simp
qed

lemma five_then_rest:
  assumes "length ps = 6"
  obtains a b c d e f where "ps = [a, b, c, d, e, f]"
  using assms by (auto simp: numeral_eq_Suc length_Suc_conv)

lemma splitn_six:
  assumes "CHR '':'' \<notin> set account"
  shows "splitn_byte 6 (CHR '':'') (iam_arn account resource path name) =
    [''arn'', ''aws'', ''iam'', [], account, resource @ ''/'' @ path @ name]"
  using splitn_byte_6 [of "CHR '':''" "''arn''" "''aws''" "''iam''" "[]" account "resource @ ''/'' @ path @ name"] assms
  by (simp add: iam_arn_def)

lemma parse_iam_arn:
  "parseIAMARN arn resource = Inr (account, name) \<longleftrightarrow>
     (\<exists>path. arn = iam_arn account resource path name \<and> arn_parts account path name)"
proof
  assume p: "parseIAMARN arn resource = Inr (account, name)"
  let ?ps = "splitn_byte 6 (CHR '':'') arn"
  have len: "length ?ps = 6" using p by (auto simp: parseIAMARN_def Let_def split: if_splits)
  then obtain a b c d e f where ps: "?ps = [a, b, c, d, e, f]" by (rule five_then_rest)
  obtain q ok where cut: "cut_prefix f (resource @ ''/'') = (q, ok)" by (cases "cut_prefix f (resource @ ''/'')")
  have heads: "a = ''arn''" "b = ''aws''" "c = ''iam''" "d = []" "ok" "e = account"
    "after_last (CHR ''/'') q = name" "name \<noteq> []" "account \<noteq> []"
    using p unfolding parseIAMARN_def Let_def ps by (auto simp: cut numeral_eq_Suc split: if_splits)
  have "f = (resource @ ''/'') @ q" using cut heads(5) cut_prefix_True by simp
  moreover obtain path where q: "q = path @ name" "path = [] \<or> last path = CHR ''/''" "CHR ''/'' \<notin> set name"
    using after_last_split [of q "CHR ''/''"] heads(7) by auto
  moreover have "arn = join '':'' [a, b, c, d, e, f]" using join_splitn_byte [of 6 "CHR '':''" arn] ps by simp
  ultimately have "arn = iam_arn account resource path name" using heads by (simp add: iam_arn_def)
  moreover have "CHR '':'' \<notin> set account" using splitn_byte_full [OF len] ps heads(6) by simp
  ultimately show "\<exists>path. arn = iam_arn account resource path name \<and> arn_parts account path name"
    using q heads by (auto simp: arn_parts_def)
next
  assume "\<exists>path. arn = iam_arn account resource path name \<and> arn_parts account path name"
  then obtain path where arn: "arn = iam_arn account resource path name" and ap: "arn_parts account path name" by blast
  then have split: "splitn_byte 6 (CHR '':'') arn = [''arn'', ''aws'', ''iam'', [], account, (resource @ ''/'') @ path @ name]"
    using splitn_six [of account] by (simp add: arn_parts_def)
  have "after_last (CHR ''/'') (path @ name) = name"
    using ap by (intro after_last_append) (auto simp: arn_parts_def)
  then show "parseIAMARN arn resource = Inr (account, name)"
    using ap cut_prefix_append [of "resource @ ''/''" "path @ name"] unfolding parseIAMARN_def Let_def split
    by (simp add: numeral_eq_Suc arn_parts_def del: after_last.simps cut_prefix_append)
qed

lemma parsed_unique:
  assumes "parseIAMARN arn resource = Inr (a, n)"
  shows "(\<exists>a' n' path. arn = iam_arn a' resource path n' \<and> arn_parts a' path n' \<and> Q a' n') \<longleftrightarrow> Q a n"
proof -
  have "(\<exists>a' n' path. arn = iam_arn a' resource path n' \<and> arn_parts a' path n' \<and> Q a' n') \<longleftrightarrow>
      (\<exists>a' n'. parseIAMARN arn resource = Inr (a', n') \<and> Q a' n')"
    unfolding parse_iam_arn by (simp only: ex_simps(1,2) conj_assoc [symmetric])
  then show ?thesis using assms by simp
qed

section \<open>Properties\<close>

text \<open>ARN parsing is exact: \<open>parseIAMARN\<close> returns an account and a name exactly for the texts
  \<^verbatim>\<open>arn:aws:iam::account:resource/path/name\<close> whose account is not empty and has no colon, whose
  path is empty or ends in a slash, and whose name is not empty and has no slash.\<close>
theorem parseIAMARN_exact:
  "parseIAMARN arn resource = Inr (account, name) \<longleftrightarrow>
     (\<exists>path. arn = iam_arn account resource path name \<and> arn_parts account path name)"
  by (rule parse_iam_arn)

text \<open>C40: A role ARN resolves only to the role whose stored ARN is the caller's text byte for byte, so an
  invented path never reaches a role; the lookup is asked only about the account and name the text
  carries, and its error is returned unchanged.\<close>
theorem ResolveRoleARN_exact:
  "(ResolveRoleARN arn lookup = Inr (account, name) \<longleftrightarrow>
      (\<exists>path. arn = iam_arn account ''role'' path name \<and> arn_parts account path name) \<and>
      lookup account name = Inr arn) \<and>
   (ResolveRoleARN arn lookup = Inl (Lookup e) \<longleftrightarrow>
      (\<exists>account name path. arn = iam_arn account ''role'' path name \<and> arn_parts account path name \<and>
         lookup account name = Inl e)) \<and>
   (ResolveRoleARN arn lookup = Inl (Sentinel ErrRoleARNMismatch) \<longleftrightarrow>
      (\<exists>account name path stored. arn = iam_arn account ''role'' path name \<and> arn_parts account path name \<and>
         lookup account name = Inr stored \<and> stored \<noteq> arn))"
proof (cases "parseIAMARN arn ''role''")
  case (Inl e)
  then have "\<not> (\<exists>path. arn = iam_arn a ''role'' path n \<and> arn_parts a path n)" for a n
    using parse_iam_arn [of arn "''role''" a n] by simp
  then show ?thesis using Inl by (auto simp: ResolveRoleARN_def resolveIAMARN_def)
next
  case (Inr r)
  obtain a n where r: "r = (a, n)" by (cases r)
  have same: "(\<exists>path. arn = iam_arn a' ''role'' path n' \<and> arn_parts a' path n') \<longleftrightarrow> a' = a \<and> n' = n" for a' n'
    unfolding parse_iam_arn [symmetric] Inr r by auto
  have run: "ResolveRoleARN arn lookup = (case lookup a n of Inl e \<Rightarrow> Inl (Lookup e)
      | Inr stored \<Rightarrow> if stored \<noteq> arn then Inl (Sentinel ErrRoleARNMismatch) else Inr (a, n))"
    using Inr r by (simp add: ResolveRoleARN_def resolveIAMARN_def)
  note err = parsed_unique [OF Inr [unfolded r], of "\<lambda>a' n'. lookup a' n' = Inl e"]
  have "(\<exists>a' n' path stored. arn = iam_arn a' ''role'' path n' \<and> arn_parts a' path n' \<and>
      lookup a' n' = Inr stored \<and> stored \<noteq> arn) \<longleftrightarrow>
    (\<exists>a' n' path. arn = iam_arn a' ''role'' path n' \<and> arn_parts a' path n' \<and>
      (\<exists>stored. lookup a' n' = Inr stored \<and> stored \<noteq> arn))"
    by (simp only: ex_simps)
  also have "\<dots> \<longleftrightarrow> (\<exists>stored. lookup a n = Inr stored \<and> stored \<noteq> arn)"
    by (rule parsed_unique [OF Inr [unfolded r]])
  finally have mis: "(\<exists>a' n' path stored. arn = iam_arn a' ''role'' path n' \<and> arn_parts a' path n' \<and>
      lookup a' n' = Inr stored \<and> stored \<noteq> arn) \<longleftrightarrow> (\<exists>stored. lookup a n = Inr stored \<and> stored \<noteq> arn)" .
  show ?thesis unfolding run same err mis by (cases "lookup a n") auto
qed

text \<open>AWS-managed policies are recognised by structure: the account of a well-formed policy ARN is the
  literal aws.\<close>
theorem IsAWSManagedPolicyARN_exact:
  "IsAWSManagedPolicyARN arn \<longleftrightarrow> (\<exists>path name. arn = iam_arn ''aws'' ''policy'' path name \<and> arn_parts ''aws'' path name)"
proof -
  have "IsAWSManagedPolicyARN arn \<longleftrightarrow> (\<exists>name. parseIAMARN arn ''policy'' = Inr (''aws'', name))"
    by (auto simp: IsAWSManagedPolicyARN_def ParsePolicyARN_def split: sum.splits)
  then show ?thesis using parse_iam_arn by blast
qed

end
