(* ===== verification/Sha256.thy ===== *)
theory Sha256
  imports GoStrings "HOL-Library.Word"
begin

unbundle bit_operations_syntax

text \<open>
  The functions of Go's \<^verbatim>\<open>crypto/sha256\<close>, \<^verbatim>\<open>crypto/hmac\<close> and \<^verbatim>\<open>encoding/hex\<close> the request
  signatures use, written from FIPS 180-4 and RFC 2104. Nothing in the development relies on
  collision resistance: the theorems speak of equal digests.
\<close>

section \<open>SHA-256\<close>

definition rotr :: "nat \<Rightarrow> 32 word \<Rightarrow> 32 word" where
  "rotr n w = (drop_bit n w) OR (push_bit (32 - n) w)"

text \<open>
  The constants are the first 32 bits of the fractional parts of cube roots of the first 64 primes, the
  initial state those of square roots of the first 8: the roots of \<open>p * 2 ^ (32 * k)\<close> rounded down, modulo
  \<open>2 ^ 32\<close>. The root is found bit by bit.
\<close>

primrec integer_root :: "nat \<Rightarrow> nat \<Rightarrow> int \<Rightarrow> int \<Rightarrow> int" where
  "integer_root 0 k n x = (if (x + 1) ^ k \<le> n then x + 1 else x)"
| "integer_root (Suc b) k n x =
     (let y = x + 2 ^ Suc b in integer_root b k n (if y ^ k \<le> n then y else x))"

definition small_primes :: "int list" where
  "small_primes = filter (\<lambda>p. list_all (\<lambda>d. p mod d \<noteq> 0) [2..p - 1]) [2..311]"

definition root_fraction :: "nat \<Rightarrow> int \<Rightarrow> 32 word" where
  "root_fraction k p = word_of_int (integer_root 36 k (p * 2 ^ (32 * k)) 0)"

definition round_constants :: "32 word list" where
  "round_constants = map (root_fraction 3) small_primes"

definition initial_hash :: "32 word list" where
  "initial_hash = map (root_fraction 2) (take 8 small_primes)"

text \<open>The message schedule, latest word first.\<close>

definition schedule_step :: "32 word list \<Rightarrow> 32 word list" where
  "schedule_step ws =
     (let w2 = ws ! 1; w15 = ws ! 14;
          s0 = rotr 7 w15 XOR rotr 18 w15 XOR drop_bit 3 w15;
          s1 = rotr 17 w2 XOR rotr 19 w2 XOR drop_bit 10 w2
      in (ws ! 15 + s0 + ws ! 6 + s1) # ws)"

primrec schedule :: "nat \<Rightarrow> 32 word list \<Rightarrow> 32 word list" where
  "schedule 0 ws = ws"
| "schedule (Suc n) ws = schedule n (schedule_step ws)"

fun sha_round :: "32 word list \<Rightarrow> 32 word \<times> 32 word \<Rightarrow> 32 word list" where
  "sha_round [a, b, c, d, e, f, g, h] (k, w) =
     (let s1 = rotr 6 e XOR rotr 11 e XOR rotr 25 e;
          ch = (e AND f) XOR (NOT e AND g);
          t1 = h + s1 + ch + k + w;
          s0 = rotr 2 a XOR rotr 13 a XOR rotr 22 a;
          maj = (a AND b) XOR (a AND c) XOR (b AND c)
      in [t1 + (s0 + maj), a, b, c, d + t1, e, f, g])"
| "sha_round st _ = st"

definition compress :: "32 word list \<Rightarrow> 32 word list \<Rightarrow> 32 word list" where
  "compress hs block =
     map2 (+) hs (foldl sha_round hs (zip round_constants (rev (schedule 48 (rev block)))))"

text \<open>Bytes, big-endian words, padding.\<close>

definition byte_of :: "char \<Rightarrow> int" where
  "byte_of c = of_char c"

fun words_of :: "string \<Rightarrow> 32 word list" where
  "words_of (a # b # c # d # s) =
     word_of_int (((byte_of a * 256 + byte_of b) * 256 + byte_of c) * 256 + byte_of d) # words_of s"
| "words_of s = []"

definition word_bytes :: "32 word \<Rightarrow> int list" where
  "word_bytes w = [uint w div 16777216, uint w div 65536 mod 256, uint w div 256 mod 256, uint w mod 256]"

definition length_bytes :: "nat \<Rightarrow> string" where
  "length_bytes n = map (\<lambda>i. char_of (8 * n div 256 ^ i)) (rev [0..<8])"

definition pad :: "string \<Rightarrow> string" where
  "pad m = m @ [CHR 0x80] @ replicate ((119 - length m mod 64) mod 64) (CHR 0x00) @ length_bytes (length m)"

function blocks_of :: "32 word list \<Rightarrow> 32 word list list" where
  "blocks_of ws = (if ws = [] then [] else take 16 ws # blocks_of (drop 16 ws))"
  by pat_completeness auto
termination by (relation "measure length") auto

declare blocks_of.simps [simp del]

definition sha256_words :: "string \<Rightarrow> 32 word list" where
  "sha256_words m = foldl compress initial_hash (blocks_of (words_of (pad m)))"

definition sha256 :: "string \<Rightarrow> string" where
  "sha256 m = map char_of (concat (map word_bytes (sha256_words m)))"

section \<open>HMAC and hexadecimal text\<close>

definition xor_pad :: "nat \<Rightarrow> string \<Rightarrow> string" where
  "xor_pad p k = map (\<lambda>c. char_of (of_char c XOR p :: nat)) (k @ replicate (64 - length k) (CHR 0x00))"

definition hmac_sha256 :: "string \<Rightarrow> string \<Rightarrow> string" where
  "hmac_sha256 key m =
     (let k = (if 64 < length key then sha256 key else key)
      in sha256 (xor_pad 0x5c k @ sha256 (xor_pad 0x36 k @ m)))"

definition hex_digit :: "int \<Rightarrow> char" where
  "hex_digit n = ''0123456789abcdef'' ! nat n"

definition hex_encode :: "string \<Rightarrow> string" where
  "hex_encode s = concat (map (\<lambda>c. [hex_digit (byte_of c div 16), hex_digit (byte_of c mod 16)]) s)"

section \<open>Hexadecimal text determines the bytes\<close>

lemma byte_of_byte: "byte_of c = int (byte c)"
  by (simp only: byte_of_def byte_def of_nat_of_char)

lemma byte_of_range: "0 \<le> byte_of c \<and> byte_of c < 256"
  using byte_less_256 [of c] by (simp add: byte_of_byte)

lemma byte_of_inject: "byte_of c = byte_of d \<longleftrightarrow> c = d"
  by (simp add: byte_of_byte)

lemma distinct_hex_digits: "distinct ''0123456789abcdef''"
  by simp

lemma hex_digit_inject:
  assumes "0 \<le> m" and "m < 16" and "0 \<le> n" and "n < 16"
  shows "hex_digit m = hex_digit n \<longleftrightarrow> m = n"
proof -
  have "nat m < length ''0123456789abcdef''" "nat n < length ''0123456789abcdef''" using assms by simp_all
  then have "hex_digit m = hex_digit n \<longleftrightarrow> nat m = nat n"
    unfolding hex_digit_def by (rule nth_eq_iff_index_eq [OF distinct_hex_digits])
  then show ?thesis using assms by (simp add: eq_nat_nat_iff del: nat_eq_iff nat_eq_iff2)
qed

lemma hex_encode_inject: "hex_encode s = hex_encode t \<longleftrightarrow> s = t"
proof
  show "hex_encode s = hex_encode t \<Longrightarrow> s = t"
  proof (induction s arbitrary: t)
    case Nil
    then show ?case by (cases t) (simp_all add: hex_encode_def)
  next
    case (Cons c s)
    then obtain d t' where t: "t = d # t'" by (cases t) (simp_all add: hex_encode_def)
    have r: "0 \<le> byte_of c div 16" "byte_of c div 16 < 16" "0 \<le> byte_of d div 16" "byte_of d div 16 < 16"
      using byte_of_range [of c] byte_of_range [of d] by auto
    have "hex_digit (byte_of c div 16) = hex_digit (byte_of d div 16)"
      "hex_digit (byte_of c mod 16) = hex_digit (byte_of d mod 16)" and tl: "hex_encode s = hex_encode t'"
      using Cons.prems by (simp_all add: t hex_encode_def)
    then have "byte_of c div 16 = byte_of d div 16" "byte_of c mod 16 = byte_of d mod 16"
      using r hex_digit_inject by simp_all
    then have "byte_of c = byte_of d" by (metis div_mult_mod_eq)
    then show ?case using Cons.IH [OF tl] by (simp add: t byte_of_inject)
  qed
qed simp

lemma hex_digit_mem: "0 \<le> n \<Longrightarrow> n < 16 \<Longrightarrow> hex_digit n \<in> set ''0123456789abcdef''"
  unfolding hex_digit_def by (rule nth_mem) simp

lemma hex_encode_chars: "c \<in> set (hex_encode s) \<Longrightarrow> c \<in> set ''0123456789abcdef''"
proof -
  assume "c \<in> set (hex_encode s)"
  then obtain d where d: "c = hex_digit (byte_of d div 16) \<or> c = hex_digit (byte_of d mod 16)"
    by (auto simp: hex_encode_def)
  have "0 \<le> byte_of d div 16" "byte_of d div 16 < 16" using byte_of_range [of d] by auto
  then have "hex_digit (byte_of d div 16) \<in> set ''0123456789abcdef''"
    "hex_digit (byte_of d mod 16) \<in> set ''0123456789abcdef''"
    by (rule hex_digit_mem) (rule hex_digit_mem; simp)
  with d show ?thesis by metis
qed

end
