(* ===== verification/SigTypes.thy ===== *)
theory SigTypes
  imports GoTime Sha256
begin

text \<open>
  The types of \<^verbatim>\<open>pkg/sigv4/sigv4.go\<close> and the part of \<^verbatim>\<open>net/http\<close>'s request the package reads: the
  URL's escaped path and decoded query, the header map, the host, the declared length and the body.
  A Go map is an association list, in the order the runtime happens to iterate it. The messages an
  error carries are dropped: a value of \<open>sig_error\<close> is what \<^verbatim>\<open>errors.Is\<close> sees.
\<close>

section \<open>Constants\<close>

definition AmzTimeFormat :: "chunk list" where
  "AmzTimeFormat = [LongYear, ZeroMonth, ZeroDay, Literal CHR ''T'', Hour, ZeroMinute, ZeroSecond, Literal CHR ''Z'']"

definition AmzDateFormat :: "chunk list" where
  "AmzDateFormat = [LongYear, ZeroMonth, ZeroDay]"

definition AmzScopeTerminator :: string where "AmzScopeTerminator = ''aws4_request''"

definition MaxPayloadLen :: int where "MaxPayloadLen = 10485760"

text \<open>Durations are nanoseconds.\<close>

definition MaxClockSkew :: int where "MaxClockSkew = 15 * 60 * 1000000000"
definition MaxPresignAge :: int where "MaxPresignAge = 7 * 24 * 3600 * 1000000000"

definition UnsignedPayload :: string where "UnsignedPayload = ''UNSIGNED-PAYLOAD''"
definition StreamingSigned :: string where
  "StreamingSigned = ''STREAMING-AWS4-HMAC-SHA256-PAYLOAD''"
definition StreamingSignedTrailer :: string where
  "StreamingSignedTrailer = ''STREAMING-AWS4-HMAC-SHA256-PAYLOAD-TRAILER''"
definition StreamingUnsignedTrailer :: string where
  "StreamingUnsignedTrailer = ''STREAMING-UNSIGNED-PAYLOAD-TRAILER''"
definition EmptyPayload :: string where
  "EmptyPayload = ''e3b0c44298fc1c149afbf4c8996fb92427ae41e4649b934ca495991b7852b855''"

definition AlgorithmV4 :: string where "AlgorithmV4 = ''AWS4-HMAC-SHA256''"

section \<open>Errors\<close>

datatype io_error = EOF | UnexpectedEOF | OtherError nat

datatype sig_error = ErrMissingAuthentication | ErrUnsupportedAlgorithm | ErrMalformedAuthorization
  | ErrMalformedPresignedURL | ErrRequestTimeInvalid | ErrRequestTimeTooSkewed | ErrPresignedURLExpired
  | ErrMissingContentSHA256 | ErrInvalidContentSHA256 | ErrContentSHA256Mismatch | ErrPayloadTooLarge
  | ErrReadingBody io_error | ErrUnsignedHeader | ErrSignatureMismatch | ReadError io_error

section \<open>Requests\<close>

text \<open>
  A plain body is the bytes it delivers and what ends it: \<open>None\<close> is a clean end, otherwise the error of
  the read after the last byte.
\<close>

datatype body = NoBody | Stream string "io_error option"

record http_request =
  req_method :: string
  req_path :: string
  req_query :: "(string \<times> string list) list"
  req_header :: "(string \<times> string list) list"
  req_host :: string
  req_length :: int
  req_body :: body

text \<open>\<^verbatim>\<open>Get\<close> on a header map or a query: the first value of the key, or the empty string.\<close>

definition get_first :: "(string \<times> string list) list \<Rightarrow> string \<Rightarrow> string" where
  "get_first m key = (case map_of m key of Some (v # _) \<Rightarrow> v | _ \<Rightarrow> [])"

section \<open>Signed requests\<close>

record canonical_request =
  cr_method :: string
  cr_uri :: string
  cr_query :: "(string \<times> string list) list"
  cr_headers :: "(string \<times> string) list"
  cr_signed :: "string list"
  cr_content_hash :: string
  cr_mode :: string

record scoped_credential =
  sc_access_key :: string
  sc_date :: string
  sc_region :: string
  sc_service :: string

record signed_request =
  sr_canonical :: canonical_request
  sr_credential :: scoped_credential
  sr_algorithm :: string
  sr_timestamp :: go_time
  sr_signature :: string
  sr_req :: "http_request option"

end
