(* ===== verification/SigPayload.thy ===== *)
theory SigPayload
  imports SigTypes Prelude
begin

text \<open>
  \<^verbatim>\<open>pkg/sigv4/payload.go\<close>: classifying the declared payload hash, binding the body to it, and the
  reader that verifies a large body while it streams. A read of the underlying body is an input of
  \<open>verified_read\<close>: the bytes it returned and its error; the caller drives the sequence of reads.
\<close>

section \<open>Classifying the payload\<close>

definition is_hex :: "char \<Rightarrow> bool" where
  "is_hex c \<longleftrightarrow> is_digit c \<or> (byte CHR ''a'' \<le> byte c \<and> byte c \<le> byte CHR ''f'') \<or>
     (byte CHR ''A'' \<le> byte c \<and> byte c \<le> byte CHR ''F'')"

text \<open>The mode is the sentinel itself, empty for a literal digest.\<close>

definition payloadMode :: "string \<Rightarrow> sig_error + string" where
  "payloadMode contentHash =
     (if contentHash \<in> {UnsignedPayload, StreamingSigned, StreamingSignedTrailer, StreamingUnsignedTrailer}
      then Inr contentHash
      else if length contentHash = 64 \<and> list_all is_hex contentHash then Inr []
      else Inl ErrInvalidContentSHA256)"

section \<open>The streaming reader\<close>

text \<open>\<open>verifiedBody\<close>; the hash state is the bytes written to it.\<close>

record verified_body =
  vb_hashed :: string
  vb_digest :: string
  vb_remaining :: int
  vb_sized :: bool
  vb_verified :: bool
  vb_err :: "sig_error option"

type_synonym read_result = "string \<times> io_error option"

text \<open>What a read returns to the consumer: the bytes, and an error of the package or of the body.\<close>

datatype read_error = IO io_error | Sig sig_error

definition verified_read :: "verified_body \<Rightarrow> read_result \<Rightarrow> (string \<times> read_error option) \<times> verified_body" where
  "verified_read b res =
     (case vb_err b of
        Some e \<Rightarrow> (([], Some (Sig e)), b)
      | None \<Rightarrow>
          (case res of (p, err) \<Rightarrow>
             let b1 = (if length p > 0
                   then b\<lparr>vb_hashed := vb_hashed b @ p, vb_remaining := vb_remaining b - int (length p)\<rparr>
                   else b)
             in if vb_sized b1 \<and> vb_remaining b1 > 0 \<and> err \<noteq> None \<and> err \<noteq> Some EOF
                then (([], Some (Sig ErrContentSHA256Mismatch)), b1\<lparr>vb_err := Some ErrContentSHA256Mismatch\<rparr>)
                else if \<not> vb_verified b1 \<and> (vb_sized b1 \<and> vb_remaining b1 \<le> 0 \<or> err = Some EOF)
                then (if hex_encode (sha256 (vb_hashed b1)) \<noteq> vb_digest b1
                      then (([], Some (Sig ErrContentSHA256Mismatch)), b1\<lparr>vb_err := Some ErrContentSHA256Mismatch\<rparr>)
                      else ((p, map_option IO err), b1\<lparr>vb_verified := True\<rparr>))
                else ((p, map_option IO err), b1)))"

fun verified_reads ::
  "verified_body \<Rightarrow> read_result list \<Rightarrow> (string \<times> read_error option) list \<times> verified_body" where
  "verified_reads b [] = ([], b)"
| "verified_reads b (r # rs) =
     (case verified_read b r of (out, b') \<Rightarrow>
        (case verified_reads b' rs of (outs, b'') \<Rightarrow> (out # outs, b'')))"

section \<open>Binding the body\<close>

definition new_verified_body :: "string \<Rightarrow> int \<Rightarrow> verified_body" where
  "new_verified_body digest len = \<lparr>vb_hashed = [], vb_digest = digest, vb_remaining = len,
     vb_sized = (len \<ge> 0), vb_verified = False, vb_err = None\<rparr>"

text \<open>
  What becomes of the request's body: left alone, replaced by the buffer that was read and checked, or
  wrapped in a verifying reader.
\<close>

datatype bound_body = Unchanged | Rewound string | Wrapped verified_body

text \<open>\<^verbatim>\<open>io.ReadFull\<close> into a buffer of \<open>len\<close> bytes.\<close>

definition read_full :: "int \<Rightarrow> string \<Rightarrow> io_error option \<Rightarrow> io_error + string" where
  "read_full len bytes fault =
     (if int (length bytes) < len then
        (if fault \<noteq> None \<and> fault \<noteq> Some EOF then Inl (the fault)
         else if bytes = [] then Inl EOF else Inl UnexpectedEOF)
      else Inr (take (nat len) bytes))"

definition bindPayload :: "unicode \<Rightarrow> signed_request \<Rightarrow> sig_error + bound_body" where
  "bindPayload U req =
     (case sr_req req of
        None \<Rightarrow> Inr Unchanged
      | Some http \<Rightarrow>
          if cr_mode (sr_canonical req) \<noteq> [] \<or> sc_service (sr_credential req) \<noteq> ''s3'' then Inr Unchanged
          else (let digest = to_lower U (cr_content_hash (sr_canonical req)); len = req_length http
            in case req_body http of
                 NoBody \<Rightarrow> if digest \<noteq> EmptyPayload then Inl ErrContentSHA256Mismatch else Inr Unchanged
               | Stream bytes fault \<Rightarrow>
                   if len \<ge> 0 \<and> len \<le> MaxPayloadLen then
                     (case read_full len bytes fault of
                        Inl e \<Rightarrow> if e = UnexpectedEOF \<or> e = EOF then Inl ErrContentSHA256Mismatch
                                else Inl (ReadError e)
                      | Inr buf \<Rightarrow> if hex_encode (sha256 buf) \<noteq> digest then Inl ErrContentSHA256Mismatch
                                  else Inr (Rewound buf))
                   else Inr (Wrapped (new_verified_body digest len))))"

lemma bindPayload_cong:
  assumes "sr_req r = sr_req r'" and "sr_credential r = sr_credential r'"
    and "cr_mode (sr_canonical r) = cr_mode (sr_canonical r')"
    and "cr_content_hash (sr_canonical r) = cr_content_hash (sr_canonical r')"
  shows "bindPayload U r = bindPayload U r'"
  by (simp only: bindPayload_def assms)

section \<open>Invariant of the streaming reader\<close>

definition delivered :: "(string \<times> read_error option) list \<Rightarrow> string" where
  "delivered outs = concat (map fst outs)"

definition body_bytes :: "read_result list \<Rightarrow> string" where
  "body_bytes rs = concat (map fst rs)"

text \<open>After some reads without a clean end, no more than the declared bytes having come:\<close>

definition reader_inv :: "string \<Rightarrow> int \<Rightarrow> string \<Rightarrow> string \<Rightarrow> verified_body \<Rightarrow> bool" where
  "reader_inv digest len seen given b \<longleftrightarrow> vb_digest b = digest \<and> vb_sized b = (len \<ge> 0) \<and>
     (case vb_err b of
        Some e \<Rightarrow> e = ErrContentSHA256Mismatch \<and> \<not> vb_verified b \<and> (0 \<le> len \<longrightarrow> int (length given) < len)
      | None \<Rightarrow> given = seen \<and> vb_hashed b = seen \<and> vb_remaining b = len - int (length seen) \<and>
          (if vb_verified b then hex_encode (sha256 seen) = digest \<and> 0 \<le> len \<and> int (length seen) = len
           else 0 \<le> len \<longrightarrow> int (length seen) < len))"

lemma reader_inv_start: "len \<noteq> 0 \<Longrightarrow> reader_inv digest len [] [] (new_verified_body digest len)"
  by (simp add: reader_inv_def new_verified_body_def)

lemma verified_read_inv:
  assumes inv: "reader_inv digest len seen given b" and read: "verified_read b (p, err) = ((q, e), b')"
    and size: "0 \<le> len \<Longrightarrow> int (length (seen @ p)) \<le> len" and eof: "err \<noteq> Some EOF"
  shows "reader_inv digest len (seen @ p) (given @ q) b'"
proof (cases "vb_err b")
  case (Some e')
  then show ?thesis using inv read by (auto simp: reader_inv_def verified_read_def)
next
  case None
  then show ?thesis using inv read size eof
    by (auto simp: reader_inv_def verified_read_def Let_def split: if_splits)
qed

lemma verified_reads_inv:
  "reader_inv digest len seen given b \<Longrightarrow> verified_reads b rs = (outs, b') \<Longrightarrow>
   (0 \<le> len \<Longrightarrow> int (length (seen @ body_bytes rs)) \<le> len) \<Longrightarrow> Some EOF \<notin> snd ` set rs \<Longrightarrow>
   reader_inv digest len (seen @ body_bytes rs) (given @ delivered outs) b'"
proof (induction rs arbitrary: seen given b outs)
  case Nil
  then show ?case by (simp add: body_bytes_def delivered_def)
next
  case (Cons r rs)
  obtain p err where r: "r = (p, err)" by (cases r)
  obtain q e b1 where read: "verified_read b (p, err) = ((q, e), b1)"
    by (metis prod.exhaust)
  obtain outs' where rest: "verified_reads b1 rs = (outs', b')" and outs: "outs = (q, e) # outs'"
    using Cons.prems(2) by (auto simp: r read split: prod.splits)
  have "reader_inv digest len (seen @ p) (given @ q) b1"
    using Cons.prems by (intro verified_read_inv [OF Cons.prems(1) read]) (auto simp: r body_bytes_def)
  from Cons.IH [OF this rest] show ?case
    using Cons.prems(3,4) by (simp add: r outs body_bytes_def delivered_def)
qed

lemma verified_reads_append:
  "verified_reads b (rs @ ts) =
     (case verified_reads b rs of (outs, b1) \<Rightarrow> (case verified_reads b1 ts of (outs', b2) \<Rightarrow> (outs @ outs', b2)))"
  by (induction rs arbitrary: b) (auto split: prod.splits)

lemma final_read:
  assumes inv: "reader_inv digest len seen given b" and read: "verified_read b (p, err) = ((q, e), b')"
    and size: "0 \<le> len \<Longrightarrow> int (length (seen @ p)) \<le> len"
    and complete: "e = Some (IO EOF) \<or> 0 \<le> len \<and> int (length (given @ q)) = len"
  shows "hex_encode (sha256 (given @ q)) = digest \<and> given @ q = seen @ p"
proof (cases "vb_err b")
  case (Some e')
  then show ?thesis using inv read complete by (auto simp: reader_inv_def verified_read_def)
next
  case None
  then show ?thesis using inv read size complete
    by (auto simp: reader_inv_def verified_read_def Let_def split: if_splits)
qed

text \<open>A body that does hash to the digest goes through untouched.\<close>

fun honest :: "read_result list \<Rightarrow> bool" where
  "honest [] = True"
| "honest ((p, err) # rs) = ((err = None \<or> err = Some EOF \<and> rs = []) \<and> honest rs)"

lemma honest_reads:
  "honest rs \<Longrightarrow> vb_err b = None \<Longrightarrow> vb_digest b = hex_encode (sha256 (vb_hashed b @ body_bytes rs)) \<Longrightarrow>
   (vb_sized b \<Longrightarrow> vb_remaining b = int (length (body_bytes rs))) \<Longrightarrow>
   fst (verified_reads b rs) = map (\<lambda>(p, err). (p, map_option IO err)) rs"
proof (induction rs arbitrary: b)
  case (Cons r rs)
  obtain p err where r: "r = (p, err)" by (cases r)
  have bb: "body_bytes (r # rs) = p @ body_bytes rs" by (simp add: r body_bytes_def)
  let ?b1 = "b\<lparr>vb_hashed := vb_hashed b @ p, vb_remaining := vb_remaining b - int (length p)\<rparr>"
  have b1: "(if length p > 0 then ?b1 else b) = ?b1" by (cases b) simp
  have err: "err = None \<or> err = Some EOF \<and> rs = []" using Cons.prems(1) r by simp
  let ?done = "vb_sized b \<and> vb_remaining b - int (length p) \<le> 0 \<or> err = Some EOF"
  have left: "vb_sized b \<Longrightarrow> vb_remaining b - int (length p) = int (length (body_bytes rs))"
    using Cons.prems(4) bb by simp
  have "body_bytes rs = []" if ?done
  proof (cases "err = Some EOF")
    case True
    then show ?thesis using err by (simp add: body_bytes_def)
  next
    case False
    then have "int (length (body_bytes rs)) \<le> 0"
      using that left by linarith
    then show ?thesis by simp
  qed
  then have hash: "hex_encode (sha256 (vb_hashed b @ p)) = vb_digest b" if ?done
    using that Cons.prems(3) bb by simp
  have v: "verified_read b r = ((p, map_option IO err), ?b1\<lparr>vb_verified := vb_verified b \<or> ?done\<rparr>)"
  proof (cases "vb_verified b \<or> \<not> ?done")
    case True
    then have "?b1\<lparr>vb_verified := vb_verified b \<or> ?done\<rparr> = ?b1" by (cases b) auto
    then show ?thesis using True Cons.prems(2) err unfolding verified_read_def r by (auto simp: b1 Let_def)
  next
    case False
    then show ?thesis using Cons.prems(2) err hash unfolding verified_read_def r by (auto simp: b1 Let_def)
  qed
  have tl: "honest rs" using Cons.prems(1) r by simp
  have "fst (verified_reads (?b1\<lparr>vb_verified := vb_verified b \<or> ?done\<rparr>) rs) = map (\<lambda>(p, err). (p, map_option IO err)) rs"
    by (rule Cons.IH [OF tl]) (use Cons.prems(2,3) left bb in auto)
  then show ?case using v by (auto simp: r case_prod_unfold)
qed simp

lemma reader_complete:
  assumes "verified_reads (new_verified_body digest len) (rs @ [(p, err)]) = (outs, b)" and "len \<noteq> 0"
    and "len < 0 \<or> int (length (body_bytes (rs @ [(p, err)]))) \<le> len" and "Some EOF \<notin> snd ` set rs"
    and "snd (last outs) = Some (IO EOF) \<or> 0 \<le> len \<and> int (length (delivered outs)) = len"
  shows "hex_encode (sha256 (delivered outs)) = digest \<and> delivered outs = body_bytes (rs @ [(p, err)])"
proof -
  obtain front b1 where f: "verified_reads (new_verified_body digest len) rs = (front, b1)" by fastforce
  obtain q e b2 where l: "verified_read b1 (p, err) = ((q, e), b2)" by (metis prod.exhaust)
  have outs: "outs = front @ [(q, e)]" using assms(1) f l by (simp add: verified_reads_append)
  have "reader_inv digest len ([] @ body_bytes rs) ([] @ delivered front) b1"
    using assms(3,4) by (intro verified_reads_inv [OF reader_inv_start [OF assms(2)] f]) (auto simp: body_bytes_def)
  moreover have "int (length (([] @ body_bytes rs) @ p)) \<le> len" if "0 \<le> len"
    using that assms(3) by (auto simp: body_bytes_def)
  moreover have "e = Some (IO EOF) \<or> 0 \<le> len \<and> int (length (([] @ delivered front) @ q)) = len"
    using assms(5) by (simp add: outs delivered_def)
  ultimately have fin: "hex_encode (sha256 (([] @ delivered front) @ q)) = digest \<and>
      ([] @ delivered front) @ q = ([] @ body_bytes rs) @ p"
    by (rule final_read [OF _ l])
  have d: "delivered outs = ([] @ delivered front) @ q"
    and b: "body_bytes (rs @ [(p, err)]) = ([] @ body_bytes rs) @ p"
    by (simp_all add: outs delivered_def body_bytes_def)
  show ?thesis unfolding d b by (rule fin)
qed

section \<open>Properties\<close>

text \<open>C14: No unverified body is ever complete: however the transport cuts the body into reads, a consumer
  of the streaming reader that sees a clean end, or that has been given all declared bytes, has been given
  exactly the bytes sent and they hash to the signed digest. So a consumer that ignores the error of its
  last read is covered too: the bytes of a failing read are withheld.\<close>
theorem streamed_body_verified:
  assumes "verified_reads (new_verified_body digest len) (rs @ [(p, err)]) = (outs, b)" and "len \<noteq> 0"
    and "len < 0 \<or> int (length (body_bytes (rs @ [(p, err)]))) \<le> len" and "Some EOF \<notin> snd ` set rs"
    and "snd (last outs) = Some (IO EOF) \<or> 0 \<le> len \<and> int (length (delivered outs)) = len"
  shows "hex_encode (sha256 (delivered outs)) = digest \<and> delivered outs = body_bytes (rs @ [(p, err)])"
  using assms by (rule reader_complete)

text \<open>An honest body passes: when the bytes the transport delivers hash to the digest and are as many as
  declared, every read returns exactly what the underlying body returned.\<close>
theorem honest_body_passes:
  assumes "honest rs" and "hex_encode (sha256 (body_bytes rs)) = digest"
    and "len < 0 \<or> int (length (body_bytes rs)) = len"
  shows "fst (verified_reads (new_verified_body digest len) rs) = map (\<lambda>(p, err). (p, map_option IO err)) rs"
  using assms by (intro honest_reads) (auto simp: new_verified_body_def)

theorem honest_body_passes_witness:
  "fst (verified_reads (new_verified_body (hex_encode (sha256 ''abc'')) 3) [(''ab'', None), (''c'', None), ([], Some EOF)]) =
   [(''ab'', None), (''c'', None), ([], Some (IO EOF))]"
proof -
  have "honest [(''ab'', None), (''c'', None), ([], Some EOF)]" by simp
  from honest_body_passes [OF this refl, of 3] show ?thesis by (simp add: body_bytes_def)
qed

theorem streamed_body_verified_witness:
  "hex_encode (sha256 ''abc'') = hex_encode (sha256 ''abc'') \<and> ''abc'' = body_bytes [(''ab'', None), (''c'', Some EOF)]"
proof -
  let ?vb = "new_verified_body (hex_encode (sha256 ''abc'')) 3"
  have run: "verified_reads ?vb ([(''ab'', None)] @ [(''c'', Some EOF)]) =
      ([(''ab'', None), (''c'', Some (IO EOF))], \<lparr>vb_hashed = ''abc'', vb_digest = hex_encode (sha256 ''abc''),
         vb_remaining = 0, vb_sized = True, vb_verified = True, vb_err = None\<rparr>)"
    by (simp add: verified_read_def new_verified_body_def)
  from streamed_body_verified [OF run] show ?thesis by (simp add: body_bytes_def delivered_def)
qed

end
