(* ===== verification/SigVerify.thy ===== *)
theory SigVerify
  imports SigPayload Calendar "HOL-Library.Product_Lexorder"
begin

text \<open>
  \<^verbatim>\<open>pkg/sigv4/verify.go\<close>: rebuilding the canonical request, the string to sign and the signing key,
  and checking the client's signature. \<open>esc\<close> stands for \<^verbatim>\<open>httpbinding.EscapePath\<close> of the AWS SDK, which
  is not part of the repository: bytes to escape, and whether the slash is escaped too.
\<close>

type_synonym escape = "string \<Rightarrow> bool \<Rightarrow> string"

section \<open>The canonical request\<close>

definition redactedValue :: string where "redactedValue = ''<redacted>''"
definition amzSessionName :: string where "amzSessionName = ''x-amz-security-token''"

text \<open>One (key, value) pair per value, in the order the map is iterated.\<close>

definition query_params :: "(string \<times> string list) list \<Rightarrow> (string \<times> string) list" where
  "query_params query = concat (map (\<lambda>(key, values). map (Pair key) values) query)"

text \<open>The two fields are compared one after the other, never the joined text.\<close>

definition param_compare :: "string \<times> string \<Rightarrow> string \<times> string \<Rightarrow> int" where
  "param_compare a b = (if fst a \<noteq> fst b then compare_bytes (fst a) (fst b) else compare_bytes (snd a) (snd b))"

text \<open>
  \<^verbatim>\<open>slices.SortFunc\<close>: inserting in the order of \<open>param_compare\<close>. Pairs that compare equal are equal, so
  every sort gives this list (\<open>sort_params_eq\<close> below).
\<close>

fun insert_param :: "string \<times> string \<Rightarrow> (string \<times> string) list \<Rightarrow> (string \<times> string) list" where
  "insert_param p [] = [p]"
| "insert_param p (q # qs) = (if param_compare p q \<le> 0 then p # q # qs else q # insert_param p qs)"

definition sort_params :: "(string \<times> string) list \<Rightarrow> (string \<times> string) list" where
  "sort_params ps = foldr insert_param ps []"

definition is_token_name :: "unicode \<Rightarrow> string \<Rightarrow> bool" where
  "is_token_name U name = equal_fold U name amzSessionName"

definition encode_param :: "unicode \<Rightarrow> escape \<Rightarrow> bool \<Rightarrow> string \<times> string \<Rightarrow> string" where
  "encode_param U esc redact p =
     (let v = (if redact \<and> is_token_name U (fst p) then redactedValue else esc (snd p) True)
      in esc (fst p) True @ ''='' @ v)"

definition header_line :: "unicode \<Rightarrow> bool \<Rightarrow> (string \<times> string) list \<Rightarrow> string \<Rightarrow> string" where
  "header_line U redact headers name =
     (let value = (case map_of headers name of Some v \<Rightarrow> v | None \<Rightarrow> []);
          shown = (if redact \<and> is_token_name U name then redactedValue else value)
      in name @ '':'' @ shown @ [CHR 0x0A])"

definition canonicalRequest :: "unicode \<Rightarrow> escape \<Rightarrow> bool \<Rightarrow> canonical_request \<Rightarrow> string" where
  "canonicalRequest U esc redact c =
     (let params = sort_params (query_params (cr_query c));
          pairs = map (encode_param U esc redact) params;
          signedHeaders = sort (cr_signed c);
          headers = concat (map (header_line U redact (cr_headers c)) signedHeaders);
          uri = (if cr_uri c = [] then ''/'' else cr_uri c)
      in join [CHR 0x0A] [cr_method c, uri, join ''&'' pairs, headers, join '';'' signedHeaders, cr_content_hash c])"

definition CanonicalRequest :: "unicode \<Rightarrow> escape \<Rightarrow> signed_request \<Rightarrow> string" where
  "CanonicalRequest U esc req = canonicalRequest U esc False (sr_canonical req)"

definition RedactedCanonicalRequest :: "unicode \<Rightarrow> escape \<Rightarrow> signed_request \<Rightarrow> string" where
  "RedactedCanonicalRequest U esc req = canonicalRequest U esc True (sr_canonical req)"

definition buildCanonicalHash :: "unicode \<Rightarrow> escape \<Rightarrow> signed_request \<Rightarrow> string" where
  "buildCanonicalHash U esc req = hex_encode (sha256 (CanonicalRequest U esc req))"

section \<open>The signature\<close>

definition buildStringToSign :: "unicode \<Rightarrow> escape \<Rightarrow> signed_request \<Rightarrow> string" where
  "buildStringToSign U esc req =
     (let cred = sr_credential req;
          scope = sc_date cred @ ''/'' @ sc_region cred @ ''/'' @ sc_service cred @ ''/'' @ AmzScopeTerminator
      in join [CHR 0x0A] [AlgorithmV4, time_format AmzTimeFormat (sr_timestamp req), scope,
           buildCanonicalHash U esc req])"

definition buildSigningKey :: "signed_request \<Rightarrow> string \<Rightarrow> string" where
  "buildSigningKey req secretAccessKey =
     (let key = hmac_sha256 (''AWS4'' @ secretAccessKey) (sc_date (sr_credential req));
          key = hmac_sha256 key (sc_region (sr_credential req));
          key = hmac_sha256 key (sc_service (sr_credential req))
      in hmac_sha256 key AmzScopeTerminator)"

text \<open>The verified request: what became of its body, and the signing key.\<close>

record verified_request =
  vr_body :: bound_body
  vr_signing_key :: string

definition Verify :: "unicode \<Rightarrow> escape \<Rightarrow> signed_request \<Rightarrow> string \<Rightarrow> string \<Rightarrow> string \<Rightarrow> sig_error + verified_request" where
  "Verify U esc req secretAccessKey region service =
     (if sc_region (sr_credential req) \<noteq> region then Inl ErrMalformedAuthorization
      else if sc_service (sr_credential req) \<noteq> service then Inl ErrMalformedAuthorization
      else (let stringToSign = buildStringToSign U esc req;
                signingKey = buildSigningKey req secretAccessKey;
                signature = hex_encode (hmac_sha256 signingKey stringToSign)
            in if signature \<noteq> sr_signature req then Inl ErrSignatureMismatch
               else (case bindPayload U req of
                   Inl e \<Rightarrow> Inl e
                 | Inr b \<Rightarrow> Inr \<lparr>vr_body = b, vr_signing_key = signingKey\<rparr>)))"

section \<open>Ordering\<close>

lemma compare_bytes_order: "compare_bytes s t = (if s < t then -1 else if s = t then 0 else 1)"
  by (induction s t rule: compare_bytes.induct) (auto simp: less_char_def byte_def)

lemma param_compare_le: "param_compare a b \<le> 0 \<longleftrightarrow> a \<le> b"
  by (cases a; cases b) (auto simp: param_compare_def compare_bytes_order)

lemma insert_param_insort: "insert_param p ps = insort p ps"
  by (induction ps) (simp_all add: param_compare_le)

lemma sort_params_eq: "sort_params ps = sort ps"
  by (simp add: sort_params_def sort_key_def insert_param_insort [abs_def])

lemma sort_mset_cong: "mset xs = mset ys \<Longrightarrow> sort xs = sort (ys :: 'a :: linorder list)"
  by (rule properties_for_sort) auto

lemma query_params_mset: "mset q = mset q' \<Longrightarrow> mset (query_params q) = mset (query_params q')"
proof -
  have count: "mset (query_params q) = \<Sum>\<^sub># (image_mset (\<lambda>(key, values). mset (map (Pair key) values)) (mset q))" for q
    by (induction q) (auto simp: query_params_def)
  show "mset q = mset q' \<Longrightarrow> ?thesis" by (simp add: count)
qed

lemma map_of_mset_cong:
  assumes "distinct (map fst xs)" and "mset xs = mset ys"
  shows "map_of xs = map_of ys"
proof -
  have "mset (map fst xs) = mset (map fst ys)" using assms(2) by (simp only: mset_map)
  then have "distinct (map fst ys)" using assms(1) by (metis mset_eq_imp_distinct_iff)
  then show ?thesis
    using assms(1) mset_eq_setD [OF assms(2)] by (simp add: map_of_inject_set)
qed

text \<open>Two canonical requests with the same content, whose maps iterate in different orders.\<close>

definition same_maps :: "canonical_request \<Rightarrow> canonical_request \<Rightarrow> bool" where
  "same_maps c c' \<longleftrightarrow> cr_method c = cr_method c' \<and> cr_uri c = cr_uri c' \<and>
     mset (cr_query c) = mset (cr_query c') \<and>
     distinct (map fst (cr_headers c)) \<and> mset (cr_headers c) = mset (cr_headers c') \<and>
     mset (cr_signed c) = mset (cr_signed c') \<and>
     cr_content_hash c = cr_content_hash c' \<and> cr_mode c = cr_mode c'"

lemma canonicalRequest_same_maps:
  assumes "same_maps c c'"
  shows "canonicalRequest U esc redact c = canonicalRequest U esc redact c'"
proof -
  note a = assms [unfolded same_maps_def]
  have "sort_params (query_params (cr_query c)) = sort_params (query_params (cr_query c'))"
    unfolding sort_params_eq using a by (intro sort_mset_cong query_params_mset) blast
  moreover have "sort (cr_signed c) = sort (cr_signed c')" using a by (intro sort_mset_cong) blast
  moreover have "header_line U redact (cr_headers c) = header_line U redact (cr_headers c')"
    using a map_of_mset_cong [of "cr_headers c" "cr_headers c'"] by (intro ext) (simp add: header_line_def)
  ultimately show ?thesis using a by (simp add: canonicalRequest_def)
qed

section \<open>Redaction\<close>

text \<open>Forgetting the token values before sorting or after it is the same.\<close>

definition blank_token :: "unicode \<Rightarrow> string \<times> string \<Rightarrow> string \<times> string" where
  "blank_token U p = (if is_token_name U (fst p) then (fst p, []) else p)"

lemma blank_token_mono: "a \<le> b \<Longrightarrow> blank_token U a \<le> blank_token U b"
  by (cases a; cases b) (auto simp: blank_token_def)

lemma map_blank_sort: "map (blank_token U) (sort ps) = sort (map (blank_token U) ps)"
proof (rule properties_for_sort [symmetric])
  show "sorted (map (blank_token U) (sort ps))"
    by (rule sorted_map_mono [OF sorted_sort]) (simp add: mono_on_def blank_token_mono)
qed simp

lemma encode_param_blank: "encode_param U esc True p = encode_param U esc True (blank_token U p)"
  by (simp add: encode_param_def blank_token_def)

lemma redacted_params:
  assumes "map (blank_token U) ps = map (blank_token U) qs"
  shows "map (encode_param U esc True) (sort_params ps) = map (encode_param U esc True) (sort_params qs)"
proof -
  have "map (encode_param U esc True) (sort ps) = map (encode_param U esc True) (map (blank_token U) (sort ps))" for ps
    by (simp add: encode_param_blank [symmetric] comp_def)
  from this [of ps] this [of qs] show ?thesis
    unfolding sort_params_eq map_blank_sort assms by (rule trans [OF _ sym])
qed

text \<open>Two requests that differ in the values of the session token only.\<close>

definition differ_in_token :: "unicode \<Rightarrow> canonical_request \<Rightarrow> canonical_request \<Rightarrow> bool" where
  "differ_in_token U c c' \<longleftrightarrow> cr_method c = cr_method c' \<and> cr_uri c = cr_uri c' \<and>
     map (blank_token U) (query_params (cr_query c)) = map (blank_token U) (query_params (cr_query c')) \<and>
     (\<forall>name\<in>set (cr_signed c). is_token_name U name \<or> map_of (cr_headers c) name = map_of (cr_headers c') name) \<and>
     cr_signed c = cr_signed c' \<and> cr_content_hash c = cr_content_hash c'"

lemma redacted_same:
  assumes "differ_in_token U c c'"
  shows "canonicalRequest U esc True c = canonicalRequest U esc True c'"
proof -
  note a = assms [unfolded differ_in_token_def]
  have "map (header_line U True (cr_headers c)) (sort (cr_signed c)) =
      map (header_line U True (cr_headers c')) (sort (cr_signed c))"
    using a by (auto simp: header_line_def)
  then have "map (header_line U True (cr_headers c)) (sort (cr_signed c')) =
      map (header_line U True (cr_headers c')) (sort (cr_signed c'))"
    using a by simp
  moreover have "map (encode_param U esc True) (sort_params (query_params (cr_query c))) =
      map (encode_param U esc True) (sort_params (query_params (cr_query c')))"
    using a by (intro redacted_params) blast
  ultimately show ?thesis using a by (simp only: canonicalRequest_def Let_def)
qed

section \<open>The canonical request determines the request\<close>

abbreviation (input) newline :: char where "newline \<equiv> CHR 0x0A"

text \<open>
  What \<^verbatim>\<open>EscapePath\<close> documents of itself as far as it is needed: it can be undone, and what it writes has no
  ampersand, equals sign or newline.
\<close>

definition escapes_reserved :: "escape \<Rightarrow> bool" where
  "escapes_reserved esc \<longleftrightarrow> inj (\<lambda>s. esc s True) \<and>
     (\<forall>s. CHR ''&'' \<notin> set (esc s True) \<and> CHR ''='' \<notin> set (esc s True) \<and> newline \<notin> set (esc s True))"

definition header_value :: "canonical_request \<Rightarrow> string \<Rightarrow> string" where
  "header_value c name = (case map_of (cr_headers c) name of Some v \<Rightarrow> v | None \<Rightarrow> [])"

text \<open>No part of the request that is copied unescaped holds a separator of the text.\<close>

definition line_safe :: "canonical_request \<Rightarrow> bool" where
  "line_safe c \<longleftrightarrow> newline \<notin> set (cr_method c) \<and> newline \<notin> set (cr_uri c) \<and> newline \<notin> set (cr_content_hash c) \<and>
     (\<forall>name\<in>set (cr_signed c). newline \<notin> set name \<and> CHR '';'' \<notin> set name \<and> newline \<notin> set (header_value c name))"

lemma join_lines: "ts \<noteq> [] \<Longrightarrow> join [b] (ls @ [[]] @ ts) = concat (map (\<lambda>l. l @ [b]) ls) @ [b] @ join [b] ts"
  by (induction ls) (simp_all add: join_Cons)

lemma join_append: "xs \<noteq> [] \<Longrightarrow> ys \<noteq> [] \<Longrightarrow> join sep (xs @ ys) = join sep xs @ sep @ join sep ys"
proof (induction xs)
  case (Cons x xs)
  then show ?case by (cases "xs = []") (simp_all add: join_Cons)
qed simp

lemma join_inject:
  assumes "xs \<noteq> []" and "ys \<noteq> []" and "\<forall>w\<in>set xs. b \<notin> set w" and "\<forall>w\<in>set ys. b \<notin> set w"
    and "join [b] xs = join [b] ys"
  shows "xs = ys"
  using assms by (metis split_byte_join)

lemma join_nil: "join sep xs = [] \<Longrightarrow> \<forall>x\<in>set xs. x \<noteq> [] \<Longrightarrow> xs = []"
  by (induction sep xs rule: join.induct) auto

definition header_text :: "canonical_request \<Rightarrow> string \<Rightarrow> string" where
  "header_text c name = name @ '':'' @ header_value c name"

lemma header_line_text: "header_line U False (cr_headers c) name = header_text c name @ [newline]"
  by (simp add: header_line_def header_text_def header_value_def Let_def)

definition query_text :: "unicode \<Rightarrow> escape \<Rightarrow> canonical_request \<Rightarrow> string" where
  "query_text U esc c = join ''&'' (map (encode_param U esc False) (sort (query_params (cr_query c))))"

definition uri_text :: "canonical_request \<Rightarrow> string" where
  "uri_text c = (if cr_uri c = [] then ''/'' else cr_uri c)"

text \<open>The canonical request as the list of its lines.\<close>

definition canonical_lines :: "unicode \<Rightarrow> escape \<Rightarrow> canonical_request \<Rightarrow> string list" where
  "canonical_lines U esc c = [cr_method c, uri_text c, query_text U esc c] @
     map (header_text c) (sort (cr_signed c)) @ [[], join '';'' (sort (cr_signed c)), cr_content_hash c]"

lemma canonicalRequest_lines: "canonicalRequest U esc False c = join [newline] (canonical_lines U esc c)"
proof -
  have "concat (map (header_line U False (cr_headers c)) ns) = concat (map (\<lambda>l. l @ [newline]) (map (header_text c) ns))" for ns
    by (simp add: header_line_text [abs_def] comp_def)
  moreover have "join [newline] (canonical_lines U esc c) =
      join [newline] [cr_method c, uri_text c, query_text U esc c] @ [newline] @
      concat (map (\<lambda>l. l @ [newline]) (map (header_text c) (sort (cr_signed c)))) @ [newline] @
      join [newline] [join '';'' (sort (cr_signed c)), cr_content_hash c]"
    (is "_ = ?first @ _ @ concat (map _ ?ls) @ _ @ ?last")
  proof -
    have "join [newline] (canonical_lines U esc c) = ?first @ [newline] @ join [newline] (?ls @ [[]] @
        [join '';'' (sort (cr_signed c)), cr_content_hash c])"
      unfolding canonical_lines_def by (subst join_append) simp_all
    then show ?thesis by (simp add: join_lines [simplified])
  qed
  ultimately show ?thesis
    by (simp add: canonicalRequest_def Let_def sort_params_eq uri_text_def query_text_def)
qed

lemma set_join: "c \<in> set (join sep ws) \<Longrightarrow> c \<in> set sep \<or> (\<exists>w\<in>set ws. c \<in> set w)"
  by (induction sep ws rule: join.induct) auto

lemma encode_param_plain: "encode_param U esc False p = esc (fst p) True @ ''='' @ esc (snd p) True"
  by (simp add: encode_param_def)

lemma encoded_param_chars:
  assumes "escapes_reserved esc"
  shows "encode_param U esc False p \<noteq> []" and "CHR ''&'' \<notin> set (encode_param U esc False p)"
    and "newline \<notin> set (encode_param U esc False p)"
  using assms by (auto simp: escapes_reserved_def encode_param_plain)

lemma encode_param_inject:
  assumes esc: "escapes_reserved esc"
  shows "encode_param U esc False p = encode_param U esc False q \<longleftrightarrow> p = q"
proof
  assume eq: "encode_param U esc False p = encode_param U esc False q"
  have "cut (encode_param U esc False p) ''='' = (esc (fst p) True, esc (snd p) True, True)" for p
    using esc cut_byte_found [of "CHR ''=''" "esc (fst p) True" "esc (snd p) True"]
    by (simp add: escapes_reserved_def encode_param_plain)
  from this [of p] this [of q] eq have "esc (fst p) True = esc (fst q) True" "esc (snd p) True = esc (snd q) True"
    by simp_all
  then show "p = q" using esc by (auto simp: escapes_reserved_def inj_def intro: prod_eqI)
qed simp

lemma query_text_inject:
  assumes esc: "escapes_reserved esc" and eq: "query_text U esc c = query_text U esc c'"
  shows "sort (query_params (cr_query c)) = sort (query_params (cr_query c'))"
proof -
  let ?e = "map (encode_param U esc False)" let ?p = "sort (query_params (cr_query c))" and ?q = "sort (query_params (cr_query c'))"
  note chars = encoded_param_chars [OF esc]
  have join: "join ''&'' (?e ?p) = join ''&'' (?e ?q)" using eq by (simp add: query_text_def)
  have "?e ?p = ?e ?q"
  proof (cases "?e ?p = [] \<or> ?e ?q = []")
    case True
    then have "join ''&'' (?e ?p) = []" "join ''&'' (?e ?q) = []" using join by auto
    from this [THEN join_nil] show ?thesis using chars(1) by simp
  next
    case False
    then show ?thesis using chars(2) by (intro join_inject [OF _ _ _ _ join]) auto
  qed
  then show ?thesis
    by (rule map_injective) (simp add: inj_def encode_param_inject [OF esc])
qed

lemma canonical_lines_safe:
  assumes "escapes_reserved esc" and "line_safe c"
  shows "\<forall>w\<in>set (canonical_lines U esc c). newline \<notin> set w"
  using assms encoded_param_chars(3) [OF assms(1), of U]
  by (auto simp: canonical_lines_def line_safe_def header_text_def uri_text_def query_text_def dest!: set_join)

lemma signed_names_inject:
  assumes "line_safe c" and "line_safe c'" and "length (cr_signed c) = length (cr_signed c')"
    and "join '';'' (sort (cr_signed c)) = join '';'' (sort (cr_signed c'))"
  shows "sort (cr_signed c) = sort (cr_signed c')"
proof (cases "cr_signed c = []")
  case True
  then show ?thesis using assms(3) by simp
next
  case False
  moreover have "cr_signed c' \<noteq> []" using False assms(3) by auto
  moreover have "sort ns \<noteq> []" if "ns \<noteq> []" for ns :: "string list"
    using that by (metis length_0_conv length_sort)
  ultimately show ?thesis
    using assms(1,2) by (intro join_inject [OF _ _ _ _ assms(4)]) (auto simp: line_safe_def)
qed

lemma canonicalRequest_inject:
  assumes esc: "escapes_reserved esc" and safe: "line_safe c" "line_safe c'"
    and eq: "canonicalRequest U esc False c = canonicalRequest U esc False c'"
  shows "cr_method c = cr_method c' \<and> uri_text c = uri_text c' \<and>
    mset (query_params (cr_query c)) = mset (query_params (cr_query c')) \<and>
    mset (cr_signed c) = mset (cr_signed c') \<and>
    (\<forall>name\<in>set (cr_signed c). header_value c name = header_value c' name) \<and>
    cr_content_hash c = cr_content_hash c'"
proof -
  have "canonical_lines U esc c = canonical_lines U esc c'"
    using eq canonical_lines_safe [OF esc safe(1)] canonical_lines_safe [OF esc safe(2)]
    unfolding canonicalRequest_lines by (intro join_inject) (auto simp: canonical_lines_def)
  then have l: "cr_method c = cr_method c'" "uri_text c = uri_text c'" "query_text U esc c = query_text U esc c'"
    "map (header_text c) (sort (cr_signed c)) @ [[], join '';'' (sort (cr_signed c)), cr_content_hash c] =
     map (header_text c') (sort (cr_signed c')) @ [[], join '';'' (sort (cr_signed c')), cr_content_hash c']"
    by (simp_all add: canonical_lines_def)
  from l(4) have lens: "length (cr_signed c) = length (cr_signed c')"
    by (metis (no_types) add_right_cancel length_append length_map length_sort list.size(3,4))
  with l(4) have h: "map (header_text c) (sort (cr_signed c)) = map (header_text c') (sort (cr_signed c'))"
    "join '';'' (sort (cr_signed c)) = join '';'' (sort (cr_signed c'))" "cr_content_hash c = cr_content_hash c'"
    by simp_all
  note names = signed_names_inject [OF safe lens h(2)]
  then have "mset (cr_signed c) = mset (cr_signed c')" by (metis mset_sort)
  moreover have "\<forall>name\<in>set (cr_signed c). header_value c name = header_value c' name"
    using h(1) unfolding names [symmetric] by (simp add: header_text_def)
  moreover have "mset (query_params (cr_query c)) = mset (query_params (cr_query c'))"
    using query_text_inject [OF esc l(3)] by (metis mset_sort)
  ultimately show ?thesis using l h(3) by blast
qed

section \<open>The string to sign determines the scope\<close>

definition scope_safe :: "scoped_credential \<Rightarrow> bool" where
  "scope_safe cred \<longleftrightarrow> (\<forall>f\<in>{sc_date cred, sc_region cred, sc_service cred}. newline \<notin> set f \<and> CHR ''/'' \<notin> set f)"

definition scope_text :: "scoped_credential \<Rightarrow> string" where
  "scope_text cred = join ''/'' [sc_date cred, sc_region cred, sc_service cred, AmzScopeTerminator]"

definition time_text :: "signed_request \<Rightarrow> string" where
  "time_text req = time_format AmzTimeFormat (sr_timestamp req)"

lemma digits_newline: "list_all is_digit s \<Longrightarrow> newline \<notin> set s"
  by (auto simp: list_all_iff is_digit_def byte_def)

lemma time_text_newline: "newline \<notin> set (time_text req)"
proof -
  obtain y m d h mi s where "civil_fields (sr_timestamp req) = (y, m, d, h, mi, s)" by (metis prod.exhaust)
  moreover have "newline \<notin> set (padded k n)" for k n by (rule digits_newline [OF padded_digits])
  moreover have "newline \<notin> set (nat_string n)" for n
    using nat_string_spec [of n] digits_newline by blast
  ultimately show ?thesis
    by (simp add: time_text_def time_format_def AmzTimeFormat_def format_year_def del: padded.simps)
qed

lemma string_to_sign_lines:
  "buildStringToSign U esc req =
     join [newline] [AlgorithmV4, time_text req, scope_text (sr_credential req), buildCanonicalHash U esc req]"
  by (simp add: buildStringToSign_def scope_text_def time_text_def Let_def)

lemma hash_newline: "newline \<notin> set (buildCanonicalHash U esc req)"
  using hex_encode_chars by (auto simp: buildCanonicalHash_def)

lemma scope_text_newline: "scope_safe cred \<Longrightarrow> newline \<notin> set (scope_text cred)"
  by (auto simp: scope_safe_def scope_text_def AmzScopeTerminator_def)

lemma scope_text_inject:
  assumes "scope_safe c" and "scope_safe c'" and "scope_text c = scope_text c'"
  shows "sc_date c = sc_date c' \<and> sc_region c = sc_region c' \<and> sc_service c = sc_service c'"
proof -
  have "[sc_date c, sc_region c, sc_service c, AmzScopeTerminator] = [sc_date c', sc_region c', sc_service c', AmzScopeTerminator]"
    using assms by (intro join_inject [of _ _ "CHR ''/''"]) (auto simp: scope_safe_def scope_text_def AmzScopeTerminator_def)
  then show ?thesis by simp
qed

lemma string_to_sign_inject:
  assumes "scope_safe (sr_credential r)" and "scope_safe (sr_credential r')"
    and eq: "buildStringToSign U esc r = buildStringToSign U esc r'"
  shows "time_text r = time_text r' \<and> scope_text (sr_credential r) = scope_text (sr_credential r') \<and>
    buildCanonicalHash U esc r = buildCanonicalHash U esc r'"
proof -
  have alg: "newline \<notin> set AlgorithmV4" by (simp add: AlgorithmV4_def)
  have safe: "\<forall>w\<in>set [AlgorithmV4, time_text r, scope_text (sr_credential r), buildCanonicalHash U esc r]. newline \<notin> set w"
    if "scope_safe (sr_credential r)" for r
    using alg time_text_newline [of r] scope_text_newline [OF that] hash_newline [of U esc r] by simp
  have "[AlgorithmV4, time_text r, scope_text (sr_credential r), buildCanonicalHash U esc r] =
      [AlgorithmV4, time_text r', scope_text (sr_credential r'), buildCanonicalHash U esc r']"
    by (rule join_inject [OF _ _ safe [OF assms(1)] safe [OF assms(2)] eq [unfolded string_to_sign_lines]]) simp_all
  then show ?thesis by simp
qed

section \<open>Signing\<close>

text \<open>What a client does: put the signature of the string to sign into the request.\<close>

definition sign :: "unicode \<Rightarrow> escape \<Rightarrow> string \<Rightarrow> signed_request \<Rightarrow> signed_request" where
  "sign U esc secret req =
     req\<lparr>sr_signature := hex_encode (hmac_sha256 (buildSigningKey req secret) (buildStringToSign U esc req))\<rparr>"

lemma signature_not_signed:
  "buildSigningKey (req\<lparr>sr_signature := s\<rparr>) secret = buildSigningKey req secret"
  "buildStringToSign U esc (req\<lparr>sr_signature := s\<rparr>) = buildStringToSign U esc req"
  "bindPayload U (req\<lparr>sr_signature := s\<rparr>) = bindPayload U req"
  by (simp_all add: buildSigningKey_def buildStringToSign_def buildCanonicalHash_def CanonicalRequest_def
      cong: bindPayload_cong)

lemma Verify_sign:
  assumes "sc_region (sr_credential req) = region" and "sc_service (sr_credential req) = service"
  shows "Verify U esc (sign U esc secret req) secret region service =
    (case bindPayload U req of
       Inl e \<Rightarrow> Inl e
     | Inr b \<Rightarrow> Inr \<lparr>vr_body = b, vr_signing_key = buildSigningKey req secret\<rparr>)"
  by (simp add: Verify_def sign_def signature_not_signed assms Let_def)

section \<open>An escape function\<close>

text \<open>Percent encoding as RFC 3986 has it, to show that the assumption on \<open>esc\<close> can hold.\<close>

definition unreserved :: string where
  "unreserved = ''ABCDEFGHIJKLMNOPQRSTUVWXYZabcdefghijklmnopqrstuvwxyz0123456789-._~''"

definition percent_escape :: escape where
  "percent_escape s slash = concat (map (\<lambda>c.
     if c \<in> set unreserved \<or> \<not> slash \<and> c = CHR ''/'' then [c] else CHR ''%'' # hex_encode [c]) s)"

lemma hex_encode_single: "hex_encode [c] = [hex_digit (byte_of c div 16), hex_digit (byte_of c mod 16)]"
  by (simp add: hex_encode_def)

lemma percent_escape_inject: "percent_escape s True = percent_escape t True \<Longrightarrow> s = t"
proof (induction s arbitrary: t)
  case Nil
  then show ?case by (cases t) (auto simp: percent_escape_def split: if_splits)
next
  case (Cons c s)
  then obtain d t' where t: "t = d # t'" by (cases t) (auto simp: percent_escape_def split: if_splits)
  have pct: "CHR ''%'' \<notin> set unreserved" by (simp add: unreserved_def)
  have "c = d \<and> percent_escape s True = percent_escape t' True"
  proof (cases "c \<in> set unreserved"; cases "d \<in> set unreserved")
    assume "c \<notin> set unreserved" and "d \<notin> set unreserved"
    then have "hex_encode [c] @ percent_escape s True = hex_encode [d] @ percent_escape t' True"
      using Cons.prems by (simp add: t percent_escape_def)
    then have "hex_encode [c] = hex_encode [d] \<and> percent_escape s True = percent_escape t' True"
      by (simp add: hex_encode_single)
    then show ?thesis using hex_encode_inject [of "[c]" "[d]"] by simp
  qed (use Cons.prems pct in \<open>auto simp: t percent_escape_def\<close>)
  then show ?case using Cons.IH t by blast
qed

lemma percent_escape_reserved: "escapes_reserved percent_escape"
proof -
  have "c \<in> set ''%'' \<union> set unreserved \<union> set ''0123456789abcdef''" if "c \<in> set (percent_escape s True)" for c s
    using that hex_encode_chars unfolding percent_escape_def by (fastforce split: if_splits)
  then have "\<forall>s. c \<notin> set (percent_escape s True)" if "c \<notin> set ''%'' \<union> set unreserved \<union> set ''0123456789abcdef''" for c
    using that by blast
  from this [of "CHR ''&''"] this [of "CHR ''=''"] this [of newline]
  have "\<forall>s. CHR ''&'' \<notin> set (percent_escape s True) \<and> CHR ''='' \<notin> set (percent_escape s True) \<and>
      newline \<notin> set (percent_escape s True)"
    by (simp add: unreserved_def)
  then show ?thesis using percent_escape_inject by (auto simp: escapes_reserved_def inj_def)
qed

section \<open>Properties\<close>

text \<open>C12: The signed text determines the request: if two requests have the same string to sign then they agree on
  time, date, region and service, and, unless their canonical requests are a SHA-256 collision, on the
  method, the path, every query parameter, the signed header names with their values, and the payload
  hash. No value can be moved from one field to another, because no unescaped part holds a separator.\<close>
theorem signed_text_determines_request:
  assumes "escapes_reserved esc"
    and "line_safe (sr_canonical r)" and "line_safe (sr_canonical r')"
    and "scope_safe (sr_credential r)" and "scope_safe (sr_credential r')"
    and "sha256 (CanonicalRequest U esc r) = sha256 (CanonicalRequest U esc r') \<Longrightarrow>
         CanonicalRequest U esc r = CanonicalRequest U esc r'"
    and "buildStringToSign U esc r = buildStringToSign U esc r'"
  shows "time_text r = time_text r' \<and> sc_date (sr_credential r) = sc_date (sr_credential r') \<and>
    sc_region (sr_credential r) = sc_region (sr_credential r') \<and>
    sc_service (sr_credential r) = sc_service (sr_credential r') \<and>
    cr_method (sr_canonical r) = cr_method (sr_canonical r') \<and>
    uri_text (sr_canonical r) = uri_text (sr_canonical r') \<and>
    mset (query_params (cr_query (sr_canonical r))) = mset (query_params (cr_query (sr_canonical r'))) \<and>
    mset (cr_signed (sr_canonical r)) = mset (cr_signed (sr_canonical r')) \<and>
    (\<forall>name\<in>set (cr_signed (sr_canonical r)).
       header_value (sr_canonical r) name = header_value (sr_canonical r') name) \<and>
    cr_content_hash (sr_canonical r) = cr_content_hash (sr_canonical r')"
proof -
  note sts = string_to_sign_inject [OF assms(4,5,7)]
  then have "sha256 (CanonicalRequest U esc r) = sha256 (CanonicalRequest U esc r')"
    by (simp add: buildCanonicalHash_def hex_encode_inject)
  then have "canonicalRequest U esc False (sr_canonical r) = canonicalRequest U esc False (sr_canonical r')"
    using assms(6) by (simp only: CanonicalRequest_def)
  from canonicalRequest_inject [OF assms(1-3) this] scope_text_inject [OF assms(4,5)] sts
  show ?thesis by simp
qed

text \<open>Verify accepts every request that a client with the same secret signed for the expected region and service:
  what it then returns depends on the body alone, and the signing key is the one derived for the request's
  own date, region and service.\<close>
theorem signed_request_accepted:
  assumes "sc_region (sr_credential req) = region" and "sc_service (sr_credential req) = service"
  shows "Verify U esc (sign U esc secret req) secret region service =
    (case bindPayload U req of
       Inl e \<Rightarrow> Inl e
     | Inr b \<Rightarrow> Inr \<lparr>vr_body = b, vr_signing_key = buildSigningKey req secret\<rparr>)"
  by (rule Verify_sign [OF assms])

text \<open>The verdict does not depend on the order in which the runtime iterates the request's maps: permuting the
  query, the headers and the signed-header set gives the same canonical request, redacted or not, and the
  same result of Verify.\<close>
theorem Verify_map_order:
  assumes "same_maps (sr_canonical req) c"
  shows "canonicalRequest U esc redact (sr_canonical req) = canonicalRequest U esc redact c \<and>
    Verify U esc req secret region service = Verify U esc (req\<lparr>sr_canonical := c\<rparr>) secret region service"
proof -
  have eq: "canonicalRequest U esc redact (sr_canonical req) = canonicalRequest U esc redact c" for redact
    by (rule canonicalRequest_same_maps [OF assms])
  let ?req = "req\<lparr>sr_canonical := c\<rparr>"
  have "buildStringToSign U esc ?req = buildStringToSign U esc req"
    by (simp add: buildStringToSign_def buildCanonicalHash_def CanonicalRequest_def eq)
  moreover have "buildSigningKey ?req secret = buildSigningKey req secret"
    by (simp add: buildSigningKey_def)
  moreover have "bindPayload U ?req = bindPayload U req"
    using assms by (intro bindPayload_cong) (simp_all add: same_maps_def)
  ultimately show ?thesis by (simp add: eq Verify_def Let_def)
qed

text \<open>C18: The redacted canonical request does not reveal the session token: two requests that differ only in the
  values of parameters and headers named like the token, in any letter case, render the same. Sorting
  happens on the raw values, so this needs that the order of the lines is not a trace of the token either.\<close>
theorem redaction_hides_token:
  assumes "differ_in_token U (sr_canonical r) (sr_canonical r')"
  shows "RedactedCanonicalRequest U esc r = RedactedCanonicalRequest U esc r'"
  unfolding RedactedCanonicalRequest_def by (rule redacted_same [OF assms])

text \<open>C13: What Verify accepts is bound to the body: for an S3 request signed with a literal digest, the handler gets a
  body that hashes to the digest. A body of known length up to 10 MiB is replaced by exactly the bytes
  declared, already checked; any other body is read through a reader that hands out a complete body only
  if it hashes to the digest; a request without a body must have signed the empty digest.\<close>
theorem verified_body_bound:
  assumes "Verify U esc req secret region ''s3'' = Inr vr" and "sr_req req = Some http"
    and "cr_mode (sr_canonical req) = []" and "digest = to_lower U (cr_content_hash (sr_canonical req))"
  shows "case req_body http of
      NoBody \<Rightarrow> vr_body vr = Unchanged \<and> digest = EmptyPayload
    | Stream bytes fault \<Rightarrow>
        if 0 \<le> req_length http \<and> req_length http \<le> MaxPayloadLen
        then vr_body vr = Rewound (take (nat (req_length http)) bytes) \<and>
          req_length http \<le> int (length bytes) \<and>
          hex_encode (sha256 (take (nat (req_length http)) bytes)) = digest
        else vr_body vr = Wrapped (new_verified_body digest (req_length http)) \<and>
          (\<forall>rs p err outs b.
             verified_reads (new_verified_body digest (req_length http)) (rs @ [(p, err)]) = (outs, b) \<longrightarrow>
             req_length http < 0 \<or> int (length (body_bytes (rs @ [(p, err)]))) \<le> req_length http \<longrightarrow>
             Some EOF \<notin> snd ` set rs \<longrightarrow>
             snd (last outs) = Some (IO EOF) \<or> 0 \<le> req_length http \<and> int (length (delivered outs)) = req_length http \<longrightarrow>
             hex_encode (sha256 (delivered outs)) = digest)"
proof -
  have service: "sc_service (sr_credential req) = ''s3''" and bind: "bindPayload U req = Inr (vr_body vr)"
    using assms(1) by (auto simp: Verify_def Let_def split: if_splits sum.splits)
  show ?thesis
  proof (cases "req_body http")
    case NoBody
    then show ?thesis using bind by (auto simp: bindPayload_def assms(2-4) service Let_def split: if_splits)
  next
    case (Stream bytes fault)
    show ?thesis
    proof (cases "0 \<le> req_length http \<and> req_length http \<le> MaxPayloadLen")
      case True
      then show ?thesis using bind
        by (auto simp: bindPayload_def assms(2-4) service Stream read_full_def Let_def
            split: if_splits option.splits io_error.splits)
    next
      case False
      then have "req_length http \<noteq> 0" by (auto simp: MaxPayloadLen_def)
      moreover have "vr_body vr = Wrapped (new_verified_body digest (req_length http))"
        using False bind by (simp add: bindPayload_def assms(2-4) service Stream Let_def del: de_Morgan_conj)
      ultimately show ?thesis
        using False reader_complete [of digest "req_length http"] by (simp add: Stream)
    qed
  qed
qed

section \<open>Witnesses\<close>

text \<open>One signed GET, with its maps in two iteration orders, and with two session tokens.\<close>

definition sample_canonical :: "(string \<times> string list) list \<Rightarrow> (string \<times> string) list \<Rightarrow> canonical_request" where
  "sample_canonical query headers = \<lparr>cr_method = ''GET'', cr_uri = ''/b/k'', cr_query = query, cr_headers = headers,
     cr_signed = [''host'', ''x-amz-security-token''], cr_content_hash = UnsignedPayload, cr_mode = UnsignedPayload\<rparr>"

definition sample_signed :: "canonical_request \<Rightarrow> signed_request" where
  "sample_signed c = \<lparr>sr_canonical = c,
     sr_credential = \<lparr>sc_access_key = ''AK'', sc_date = ''20200101'', sc_region = ''eu'', sc_service = ''s3''\<rparr>,
     sr_algorithm = AlgorithmV4, sr_timestamp = Time 1577836800 0, sr_signature = [], sr_req = None\<rparr>"

definition sample_headers :: "(string \<times> string) list" where
  "sample_headers = [(''host'', ''s3''), (''x-amz-security-token'', ''tok'')]"

definition sample_a :: signed_request where
  "sample_a = sample_signed (sample_canonical [(''a'', [''1'']), (''b'', [''2''])] sample_headers)"

definition sample_b :: canonical_request where
  "sample_b = sample_canonical [(''b'', [''2'']), (''a'', [''1''])] (rev sample_headers)"

definition sample_c :: canonical_request where
  "sample_c = sample_canonical [(''a'', [''1'']), (''b'', [''2''])] [(''host'', ''s3''), (''x-amz-security-token'', ''other'')]"

lemmas sample_defs = sample_a_def sample_b_def sample_c_def sample_signed_def sample_canonical_def sample_headers_def

lemma sample_same_maps: "same_maps (sr_canonical sample_a) sample_b"
  by (simp add: same_maps_def sample_defs)

lemma sample_safe: "line_safe (sr_canonical sample_a) \<and> line_safe sample_b \<and> scope_safe (sr_credential sample_a)"
  by (simp add: line_safe_def scope_safe_def sample_defs header_value_def UnsignedPayload_def)

theorem signed_text_determines_request_witness:
  "cr_query (sr_canonical sample_a) \<noteq> cr_query sample_b \<and>
   mset (query_params (cr_query (sr_canonical sample_a))) = mset (query_params (cr_query sample_b))"
proof -
  let ?U = "\<lparr>lower_runes = (\<lambda>s. s), fold_runes = (\<lambda>s t. False)\<rparr>" and ?r = "sample_a\<lparr>sr_canonical := sample_b\<rparr>"
  have eq: "CanonicalRequest ?U percent_escape sample_a = CanonicalRequest ?U percent_escape ?r"
    using canonicalRequest_same_maps [OF sample_same_maps] by (simp add: CanonicalRequest_def)
  then have "buildStringToSign ?U percent_escape sample_a = buildStringToSign ?U percent_escape ?r"
    by (simp add: buildStringToSign_def buildCanonicalHash_def)
  from signed_text_determines_request [OF percent_escape_reserved _ _ _ _ eq this] sample_safe
  show ?thesis by (simp add: sample_defs)
qed

theorem Verify_map_order_witness:
  "canonicalRequest \<lparr>lower_runes = id, fold_runes = (\<lambda>s t. False)\<rparr> percent_escape True (sr_canonical sample_a) =
   canonicalRequest \<lparr>lower_runes = id, fold_runes = (\<lambda>s t. False)\<rparr> percent_escape True sample_b"
  using Verify_map_order [OF sample_same_maps] by blast

lemma token_names: "is_token_name U ''x-amz-security-token''" "\<not> is_token_name U ''host''" "\<not> is_token_name U ''a''" "\<not> is_token_name U ''b''"
  by (simp_all add: is_token_name_def amzSessionName_def is_ascii_def ascii_lower_def byte_def)

theorem redaction_hides_token_witness:
  "sample_a \<noteq> sample_a\<lparr>sr_canonical := sample_c\<rparr> \<and>
   RedactedCanonicalRequest \<lparr>lower_runes = id, fold_runes = (\<lambda>s t. False)\<rparr> percent_escape sample_a =
   RedactedCanonicalRequest \<lparr>lower_runes = id, fold_runes = (\<lambda>s t. False)\<rparr> percent_escape (sample_a\<lparr>sr_canonical := sample_c\<rparr>)"
proof -
  have "differ_in_token U (sr_canonical sample_a) (sr_canonical (sample_a\<lparr>sr_canonical := sample_c\<rparr>))" for U
    by (simp add: differ_in_token_def sample_defs token_names)
  from redaction_hides_token [OF this] show ?thesis by (simp add: sample_defs)
qed

text \<open>A PUT of three bytes, signed with its digest.\<close>

definition sample_put :: http_request where
  "sample_put = \<lparr>req_method = ''PUT'', req_path = ''/b/k'', req_query = [], req_header = [], req_host = ''s3'',
     req_length = 3, req_body = Stream ''abc'' None\<rparr>"

definition unsigned_put :: signed_request where
  "unsigned_put = sample_a\<lparr>sr_req := Some sample_put, sr_canonical := (sr_canonical sample_a)
       \<lparr>cr_content_hash := hex_encode (sha256 ''abc''), cr_mode := []\<rparr>\<rparr>"

lemma hex_encode_lower: "to_lower U (hex_encode s) = hex_encode s"
proof -
  have "is_ascii c \<and> ascii_lower c = c" if "c \<in> set ''0123456789abcdef''" for c
    using that by (auto simp: is_ascii_def ascii_lower_def byte_def)
  then have "\<forall>c\<in>set (hex_encode s). is_ascii c \<and> ascii_lower c = c" using hex_encode_chars by blast
  then show ?thesis by (simp add: to_lower_def list_all_iff map_idI)
qed

lemma put_body: "bindPayload U unsigned_put = Inr (Rewound ''abc'')"
  by (simp add: bindPayload_def unsigned_put_def Let_def sample_put_def sample_a_def sample_signed_def
      read_full_def MaxPayloadLen_def hex_encode_lower)

lemma put_scope: "sc_region (sr_credential unsigned_put) = ''eu''" "sc_service (sr_credential unsigned_put) = ''s3''"
  by (simp_all add: unsigned_put_def sample_a_def sample_signed_def)

theorem signed_request_accepted_witness:
  "sum.isl (Verify \<lparr>lower_runes = id, fold_runes = (\<lambda>s t. False)\<rparr> percent_escape
     (sign \<lparr>lower_runes = id, fold_runes = (\<lambda>s t. False)\<rparr> percent_escape ''k'' unsigned_put) ''k'' ''eu'' ''s3'') = False"
  by (simp add: signed_request_accepted [OF put_scope] put_body)

theorem verified_body_bound_witness:
  "hex_encode (sha256 (take 3 ''abc'')) = hex_encode (sha256 ''abc'')"
proof -
  let ?U = "\<lparr>lower_runes = id, fold_runes = (\<lambda>s t. False)\<rparr>"
  let ?r = "sign ?U percent_escape ''k'' unsigned_put"
  have ok: "Verify ?U percent_escape ?r ''k'' ''eu'' ''s3'' =
      Inr \<lparr>vr_body = Rewound ''abc'', vr_signing_key = buildSigningKey unsigned_put ''k''\<rparr>"
    using Verify_sign [OF put_scope] put_body by simp
  have "sr_req ?r = Some sample_put" "cr_mode (sr_canonical ?r) = []"
    "hex_encode (sha256 ''abc'') = to_lower ?U (cr_content_hash (sr_canonical ?r))"
    by (simp_all add: sign_def unsigned_put_def hex_encode_lower)
  from verified_body_bound [OF ok this] show ?thesis
    by (simp add: sample_put_def MaxPayloadLen_def)
qed

end
