(* ===== verification/GoSpace.thy ===== *)
theory GoSpace
  imports GoStrings
begin

text \<open>
  White space as Go's \<^verbatim>\<open>strings.TrimSpace\<close> and \<^verbatim>\<open>strings.Fields\<close> see it: the runes of
  \<^verbatim>\<open>unicode.IsSpace\<close>, by their UTF-8 bytes. UTF-8 synchronises itself, so scanning for these byte
  sequences finds what decoding rune by rune does, also in text that is not valid UTF-8.
\<close>

definition ascii_spaces :: string where
  "ascii_spaces = [CHR 0x09, CHR 0x0A, CHR 0x0B, CHR 0x0C, CHR 0x0D, CHR 0x20]"

definition wide_spaces :: "string list" where
  "wide_spaces = [[CHR 0xC2, CHR 0x85], [CHR 0xC2, CHR 0xA0], [CHR 0xE1, CHR 0x9A, CHR 0x80],
     [CHR 0xE2, CHR 0x80, CHR 0x80], [CHR 0xE2, CHR 0x80, CHR 0x81], [CHR 0xE2, CHR 0x80, CHR 0x82],
     [CHR 0xE2, CHR 0x80, CHR 0x83], [CHR 0xE2, CHR 0x80, CHR 0x84], [CHR 0xE2, CHR 0x80, CHR 0x85],
     [CHR 0xE2, CHR 0x80, CHR 0x86], [CHR 0xE2, CHR 0x80, CHR 0x87], [CHR 0xE2, CHR 0x80, CHR 0x88],
     [CHR 0xE2, CHR 0x80, CHR 0x89], [CHR 0xE2, CHR 0x80, CHR 0x8A], [CHR 0xE2, CHR 0x80, CHR 0xA8],
     [CHR 0xE2, CHR 0x80, CHR 0xA9], [CHR 0xE2, CHR 0x80, CHR 0xAF], [CHR 0xE2, CHR 0x81, CHR 0x9F],
     [CHR 0xE3, CHR 0x80, CHR 0x80]]"

text \<open>The length of the space rune the text starts with; 0 if it starts with none.\<close>

definition space_len :: "string \<Rightarrow> nat" where
  "space_len s = (case s of [] \<Rightarrow> 0
     | c # _ \<Rightarrow> if c \<in> set ascii_spaces then 1
         else (case find (has_prefix s) wide_spaces of None \<Rightarrow> 0 | Some r \<Rightarrow> length r))"

text \<open>The words of a text: the first argument counts the bytes of a space still to be skipped.\<close>

fun fields_loop :: "nat \<Rightarrow> string \<Rightarrow> string \<Rightarrow> string list" where
  "fields_loop k cur [] = (if cur = [] then [] else [cur])"
| "fields_loop (Suc k) cur (c # s) = fields_loop k cur s"
| "fields_loop 0 cur (c # s) = (case space_len (c # s) of
      0 \<Rightarrow> fields_loop 0 (cur @ [c]) s
    | Suc k \<Rightarrow> (if cur = [] then [] else [cur]) @ fields_loop k [] s)"

definition space_fields :: "string \<Rightarrow> string list" where
  "space_fields s = fields_loop 0 [] s"

text \<open>Stripping leading runes of a list; trailing ones are leading ones of the reversed text.\<close>

function strip :: "string list \<Rightarrow> string \<Rightarrow> string" where
  "strip runes s = (case find (\<lambda>r. r \<noteq> [] \<and> has_prefix s r) runes of
      None \<Rightarrow> s
    | Some r \<Rightarrow> strip runes (drop (length r) s))"
  by pat_completeness auto
termination
proof (relation "measure (\<lambda>(runes, s). length s)", goal_cases)
  case (2 runes s r)
  then have "r \<noteq> []" "has_prefix s r" by (auto simp: find_Some_iff)
  then have "0 < length r" "length r \<le> length s" by (auto simp: has_prefix_iff prefix_def)
  then have "length s - length r < length s" by linarith
  then show ?case by simp
qed simp

declare strip.simps [simp del]

definition space_runes :: "string list" where
  "space_runes = map (\<lambda>c. [c]) ascii_spaces @ wide_spaces"

definition trim_space :: "string \<Rightarrow> string" where
  "trim_space s = rev (strip (map rev space_runes) (rev (strip space_runes s)))"

section \<open>Trimming\<close>

lemma strip_none: "\<forall>r\<in>set runes. \<not> has_prefix s r \<Longrightarrow> strip runes s = s"
  by (subst strip.simps) (auto simp: find_None_iff [THEN iffD2] split: option.split simp: find_Some_iff)

lemma trim_space_id:
  assumes "\<forall>r\<in>set space_runes. \<not> prefix r s \<and> \<not> suffix r s"
  shows "trim_space s = s"
  using assms by (simp add: trim_space_def strip_none has_prefix_iff suffix_to_prefix)

lemma ascii_space_len: "c \<in> set ascii_spaces \<Longrightarrow> space_len (c # s) = Suc 0"
  by (simp add: space_len_def)

section \<open>Fields\<close>

lemma fields_loop_chars:
  "\<forall>d\<in>set cur. d \<notin> set ascii_spaces \<Longrightarrow> w \<in> set (fields_loop k cur s) \<Longrightarrow> d \<in> set w \<Longrightarrow> d \<notin> set ascii_spaces"
proof (induction k cur s rule: fields_loop.induct)
  case (3 cur c s)
  show ?case
  proof (cases "space_len (c # s)")
    case 0
    then have "c \<notin> set ascii_spaces" using ascii_space_len [of c s] by auto
    then show ?thesis using 3 0 by simp
  next
    case (Suc k)
    then show ?thesis using 3 by (auto split: if_splits)
  qed
qed (auto split: if_splits)

lemma space_fields_chars: "w \<in> set (space_fields s) \<Longrightarrow> d \<in> set w \<Longrightarrow> d \<notin> set ascii_spaces"
  using fields_loop_chars [of "[]"] by (simp add: space_fields_def)

lemma space_fields_nonempty: "w \<in> set (fields_loop k cur s) \<Longrightarrow> w \<noteq> []"
  by (induction k cur s rule: fields_loop.induct) (auto split: nat.splits if_splits)

end
