(* ===== verification/SigParse.thy ===== *)
theory SigParse
  imports SigVerify GoSpace "HOL-Library.AList" "HOL-Library.Word"
begin

text \<open>
  \<^verbatim>\<open>pkg/sigv4/parse.go\<close>: extracting the signing metadata of a request. \<open>now\<close> is the reference time
  (\<^verbatim>\<open>WithTime\<close>, otherwise the clock). \<open>http_time\<close> is \<^verbatim>\<open>http.ParseTime\<close>, whose RFC 850 form reads a zone
  abbreviation in the server's local zone. Parsing consumes the body of a request that is not for S3
  and puts the bytes back, so the functions return the request as they leave it.
\<close>

section \<open>Durations\<close>

text \<open>\<^verbatim>\<open>time.Duration\<close> is a signed 64-bit number of nanoseconds: \<open>Sub\<close> saturates, products wrap around.\<close>

definition min_duration :: int where "min_duration = -9223372036854775808"
definition max_duration :: int where "max_duration = 9223372036854775807"

definition second :: int where "second = 1000000000"

definition wrap64 :: "int \<Rightarrow> int" where
  "wrap64 n = sint (word_of_int n :: 64 word)"

definition time_sub :: "go_time \<Rightarrow> go_time \<Rightarrow> int" where
  "time_sub t u =
     max min_duration (min max_duration ((unix_secs t - unix_secs u) * second + int (nanos t) - int (nanos u)))"

definition duration_abs :: "int \<Rightarrow> int" where
  "duration_abs d = (if d \<ge> 0 then d else if d = min_duration then max_duration else - d)"

section \<open>Authentication components\<close>

record auth_components =
  ac_presigned :: bool
  ac_algorithm :: string
  ac_credential :: string
  ac_signed_headers :: string
  ac_signature :: string

definition getAuthComponents :: "http_request \<Rightarrow> sig_error + auth_components" where
  "getAuthComponents req =
     (let query = req_query req;
          authHdr = get_first (req_header req) ''Authorization'';
          presigned = (authHdr = [] \<and> get_first query ''X-Amz-Algorithm'' \<noteq> [])
      in (case
          (if presigned then
             (let rawAlgo = get_first query ''X-Amz-Algorithm'';
                  credential = get_first query ''X-Amz-Credential'';
                  signedHeaders = get_first query ''X-Amz-SignedHeaders'';
                  signature = get_first query ''X-Amz-Signature''
              in if credential = [] \<or> signedHeaders = [] \<or> signature = [] then Inl ErrMalformedPresignedURL
                 else Inr \<lparr>ac_presigned = True, ac_algorithm = rawAlgo, ac_credential = credential,
                        ac_signed_headers = signedHeaders, ac_signature = signature\<rparr>)
           else if authHdr = [] then Inl ErrMissingAuthentication
           else (case cut authHdr '' '' of (rawAlgo, remainder, found) \<Rightarrow>
              if \<not> found then Inl ErrMalformedAuthorization
              else (case split_byte CHR '','' remainder of
                  [part0, part1, part2] \<Rightarrow>
                    (case (cut_prefix (trim_space part0) ''Credential='',
                           cut_prefix (trim_space part1) ''SignedHeaders='',
                           cut_prefix (trim_space part2) ''Signature='') of
                       ((credential, credFound), (signedHeaders, hdrsFound), (signature, sigFound)) \<Rightarrow>
                         if \<not> credFound \<or> \<not> hdrsFound \<or> \<not> sigFound then Inl ErrMalformedAuthorization
                         else Inr \<lparr>ac_presigned = False, ac_algorithm = rawAlgo, ac_credential = credential,
                                ac_signed_headers = signedHeaders, ac_signature = signature\<rparr>)
                | _ \<Rightarrow> Inl ErrMalformedAuthorization)))
          of Inl e \<Rightarrow> Inl e
           | Inr c \<Rightarrow> if ac_algorithm c \<noteq> AlgorithmV4 then Inl ErrUnsupportedAlgorithm else Inr c))"

section \<open>The request time\<close>

type_synonym http_time = "string \<Rightarrow> go_time option"

definition request_time :: "http_time \<Rightarrow> http_request \<Rightarrow> bool \<Rightarrow> sig_error + go_time" where
  "request_time http_time req presigned =
     (if presigned then
        (case time_parse AmzTimeFormat (get_first (req_query req) ''X-Amz-Date'') of
           None \<Rightarrow> Inl ErrMalformedPresignedURL
         | Some t \<Rightarrow> Inr t)
      else (let dateHdr = get_first (req_header req) ''X-Amz-Date'' in
        if dateHdr \<noteq> [] then
          (case time_parse AmzTimeFormat dateHdr of None \<Rightarrow> Inl ErrRequestTimeInvalid | Some t \<Rightarrow> Inr t)
        else (case http_time (get_first (req_header req) ''Date'') of
             None \<Rightarrow> Inl ErrRequestTimeInvalid | Some t \<Rightarrow> Inr t)))"

definition parseTimestamp :: "http_time \<Rightarrow> http_request \<Rightarrow> bool \<Rightarrow> go_time \<Rightarrow> sig_error + go_time" where
  "parseTimestamp http_time req presigned now =
     (case request_time http_time req presigned of
        Inl e \<Rightarrow> Inl e
      | Inr ts \<Rightarrow>
          if presigned then
            (case parse_int 64 (get_first (req_query req) ''X-Amz-Expires'') of
               None \<Rightarrow> Inl ErrMalformedPresignedURL
             | Some expires \<Rightarrow>
                 if expires \<le> 0 then Inl ErrMalformedPresignedURL
                 else (let age = wrap64 (expires * second) in
                   if age > MaxPresignAge then Inl ErrMalformedPresignedURL
                   else (let since = time_sub now ts in
                     if since < - MaxClockSkew \<or> since > age then Inl ErrPresignedURLExpired else Inr ts)))
          else (let skew = duration_abs (time_sub now ts) in
            if skew > MaxClockSkew then Inl ErrRequestTimeTooSkewed else Inr ts))"

section \<open>The credential scope\<close>

definition parseCredential :: "string \<Rightarrow> go_time \<Rightarrow> sig_error + scoped_credential" where
  "parseCredential credential t =
     (case split_byte CHR ''/'' credential of
        [akid, date, region, service, terminal] \<Rightarrow>
          if time_parse AmzDateFormat date = None then Inl ErrMalformedAuthorization
          else if date \<noteq> time_format AmzDateFormat t then Inl ErrMalformedAuthorization
          else if terminal \<noteq> AmzScopeTerminator then Inl ErrMalformedAuthorization
          else Inr \<lparr>sc_access_key = akid, sc_date = date, sc_region = region, sc_service = service\<rparr>
      | _ \<Rightarrow> Inl ErrMalformedAuthorization)"

section \<open>The content hash\<close>

text \<open>\<^verbatim>\<open>io.ReadAll(io.LimitReader(body, limit))\<close>: the bytes or the read error, and what is left of the body.\<close>

definition read_limited :: "nat \<Rightarrow> string \<Rightarrow> io_error option \<Rightarrow> (io_error + string) \<times> body" where
  "read_limited limit bytes fault =
     (if limit \<le> length bytes then (Inr (take limit bytes), Stream (drop limit bytes) fault)
      else if fault \<noteq> None \<and> fault \<noteq> Some EOF then (Inl (the fault), Stream [] fault)
      else (Inr bytes, Stream [] fault))"

definition resolveContentHash :: "http_request \<Rightarrow> bool \<Rightarrow> string \<Rightarrow> (sig_error + string \<times> string) \<times> http_request" where
  "resolveContentHash req presigned service =
     (if service = ''s3'' then
        (if presigned then Inr (UnsignedPayload, UnsignedPayload)
         else (let h = trim_space (get_first (req_header req) ''X-Amz-Content-Sha256'') in
           if h = [] then Inl ErrMissingContentSHA256
           else (case payloadMode h of Inl e \<Rightarrow> Inl e | Inr mode \<Rightarrow> Inr (h, mode))), req)
      else (case req_body req of
          NoBody \<Rightarrow> (Inr (EmptyPayload, []), req)
        | Stream bytes fault \<Rightarrow>
            (case read_limited (nat MaxPayloadLen + 1) bytes fault of (res, rest) \<Rightarrow>
               (case res of
                  Inl e \<Rightarrow> (Inl (ErrReadingBody e), req\<lparr>req_body := rest\<rparr>)
                | Inr buf \<Rightarrow>
                    if int (length buf) > MaxPayloadLen then (Inl ErrPayloadTooLarge, req\<lparr>req_body := rest\<rparr>)
                    else (Inr (hex_encode (sha256 buf), []), req\<lparr>req_body := Stream buf None\<rparr>)))))"

section \<open>Headers, path and query\<close>

definition canonicalHeaderValue :: "string list \<Rightarrow> string" where
  "canonicalHeaderValue values = join '','' (map (\<lambda>v. join '' '' (space_fields v)) values)"

text \<open>The snapshot of the headers; a later header with the same lower-case name overwrites an earlier one.\<close>

definition snapshot_headers :: "unicode \<Rightarrow> http_request \<Rightarrow> (string \<times> string) list" where
  "snapshot_headers U req =
     (let headers = foldl (\<lambda>m (name, values). AList.update (to_lower U name) (canonicalHeaderValue values) m) []
            (req_header req);
          headers = AList.update ''host'' (trim_space (req_host req)) headers
      in if req_length req \<ge> 0 then AList.update ''content-length'' (format_int (req_length req)) headers
         else headers)"

definition must_be_signed :: "string \<Rightarrow> bool" where
  "must_be_signed name \<longleftrightarrow> name = ''host'' \<or> name = ''content-md5'' \<or>
     has_prefix name ''x-amz-'' \<and> name \<noteq> ''x-amz-content-sha256''"

definition parseHeaders :: "unicode \<Rightarrow> http_request \<Rightarrow> string \<Rightarrow> sig_error + (string \<times> string) list \<times> string list" where
  "parseHeaders U req rawSignedHeaders =
     (let headers = snapshot_headers U req;
          signedHeaders = remdups (map (to_lower U) (split_byte CHR '';'' rawSignedHeaders))
      in if list_ex (\<lambda>(name, _). must_be_signed name \<and> name \<notin> set signedHeaders) headers
         then Inl ErrUnsignedHeader
         else Inr (headers, signedHeaders))"

definition parseURI :: "escape \<Rightarrow> http_request \<Rightarrow> string \<Rightarrow> string" where
  "parseURI esc req service =
     (if service = ''s3'' then req_path req
      else join ''/'' (map (\<lambda>segment. esc segment True) (split_byte CHR ''/'' (req_path req))))"

definition parseQuery :: "http_request \<Rightarrow> (string \<times> string list) list" where
  "parseQuery req = filter (\<lambda>(key, _). key \<noteq> ''X-Amz-Signature'') (req_query req)"

section \<open>Parse\<close>

definition parseCanonicalRequest ::
  "unicode \<Rightarrow> escape \<Rightarrow> http_request \<Rightarrow> bool \<Rightarrow> string \<Rightarrow> string \<Rightarrow> (sig_error + canonical_request) \<times> http_request" where
  "parseCanonicalRequest U esc req presigned service rawSignedHeaders =
     (case resolveContentHash req presigned service of (res, req') \<Rightarrow>
        (case res of
           Inl e \<Rightarrow> (Inl e, req')
         | Inr (contentHash, mode) \<Rightarrow>
             (case parseHeaders U req' rawSignedHeaders of
                Inl e \<Rightarrow> (Inl e, req')
              | Inr (headers, signedHeaders) \<Rightarrow>
                  (Inr \<lparr>cr_method = req_method req', cr_uri = parseURI esc req' service, cr_query = parseQuery req',
                     cr_headers = headers, cr_signed = signedHeaders, cr_content_hash = contentHash,
                     cr_mode = mode\<rparr>, req'))))"

definition Parse :: "unicode \<Rightarrow> escape \<Rightarrow> http_time \<Rightarrow> go_time \<Rightarrow> http_request \<Rightarrow> (sig_error + signed_request) \<times> http_request" where
  "Parse U esc http_time now req =
     (case getAuthComponents req of
        Inl e \<Rightarrow> (Inl e, req)
      | Inr auth \<Rightarrow>
          (case parseTimestamp http_time req (ac_presigned auth) now of
             Inl e \<Rightarrow> (Inl e, req)
           | Inr timestamp \<Rightarrow>
               (case parseCredential (ac_credential auth) timestamp of
                  Inl e \<Rightarrow> (Inl e, req)
                | Inr credential \<Rightarrow>
                    (case parseCanonicalRequest U esc req (ac_presigned auth) (sc_service credential)
                            (ac_signed_headers auth) of
                       (Inl e, req') \<Rightarrow> (Inl e, req')
                     | (Inr canonical, req') \<Rightarrow>
                         (Inr \<lparr>sr_canonical = canonical, sr_credential = credential, sr_algorithm = ac_algorithm auth,
                            sr_timestamp = timestamp, sr_signature = ac_signature auth, sr_req = Some req'\<rparr>, req')))))"

text \<open>The options: \<open>now\<close> above is the clock, or the time of the last \<^verbatim>\<open>WithTime\<close>.\<close>

record parse_options =
  po_now :: go_time

type_synonym parse_option = "parse_options \<Rightarrow> parse_options"

definition WithTime :: "go_time \<Rightarrow> parse_option" where
  "WithTime t cfg = cfg\<lparr>po_now := t\<rparr>"

definition Parse_with ::
  "unicode \<Rightarrow> escape \<Rightarrow> http_time \<Rightarrow> go_time \<Rightarrow> http_request \<Rightarrow> parse_option list \<Rightarrow> (sig_error + signed_request) \<times> http_request" where
  "Parse_with U esc http_time clock req opts =
     (let cfg = foldl (\<lambda>cfg opt. opt cfg) \<lparr>po_now = clock\<rparr> opts in Parse U esc http_time (po_now cfg) req)"

lemma Parse_with_simps:
  "Parse_with U esc http_time clock req [] = Parse U esc http_time clock req"
  "Parse_with U esc http_time clock req (opts @ [WithTime t]) = Parse U esc http_time t req"
  by (simp_all add: Parse_with_def WithTime_def)

section \<open>What an accepted request went through\<close>

lemma auth_algorithm: "getAuthComponents req = Inr auth \<Longrightarrow> ac_algorithm auth = AlgorithmV4"
  by (auto simp: getAuthComponents_def Let_def split: sum.splits if_splits)

lemma Parse_InrE:
  assumes "Parse U esc http_time now req = (Inr r, req')"
  obtains auth where "getAuthComponents req = Inr auth"
    and "parseTimestamp http_time req (ac_presigned auth) now = Inr (sr_timestamp r)"
    and "parseCredential (ac_credential auth) (sr_timestamp r) = Inr (sr_credential r)"
    and "parseCanonicalRequest U esc req (ac_presigned auth) (sc_service (sr_credential r)) (ac_signed_headers auth) =
      (Inr (sr_canonical r), req')"
    and "sr_req r = Some req'" and "sr_algorithm r = AlgorithmV4" and "sr_signature r = ac_signature auth"
  using assms auth_algorithm by (auto simp: Parse_def split: sum.splits prod.splits)

lemma Parse_canonical:
  assumes "Parse U esc http_time now req = (Inr r, req')"
  shows "\<exists>auth. getAuthComponents req = Inr auth \<and>
    parseCanonicalRequest U esc req (ac_presigned auth) (sc_service (sr_credential r)) (ac_signed_headers auth) =
      (Inr (sr_canonical r), req') \<and> sr_req r = Some req'"
  by (rule Parse_InrE [OF assms]) simp

lemma parseCanonicalRequest_InrE:
  assumes "parseCanonicalRequest U esc req presigned service raw = (Inr c, req')"
  obtains headers names where "resolveContentHash req presigned service = (Inr (cr_content_hash c, cr_mode c), req')"
    and "parseHeaders U req' raw = Inr (headers, names)" and "cr_headers c = headers" and "cr_signed c = names"
    and "cr_method c = req_method req'" and "cr_uri c = parseURI esc req' service" and "cr_query c = parseQuery req'"
  using assms by (auto simp: parseCanonicalRequest_def split: sum.splits prod.splits)

lemma resolved_request:
  "resolveContentHash req presigned service = (res, req') \<Longrightarrow> \<exists>b. req' = req\<lparr>req_body := b\<rparr>"
  by (cases req) (auto simp: resolveContentHash_def Let_def split: if_splits body.splits prod.splits sum.splits)

section \<open>Headers\<close>

lemma map_of_update_foldl:
  "map_of (foldl (\<lambda>m (n, vs). AList.update (f n) (g vs) m) al hs) =
   foldl (\<lambda>m (n, vs). m(f n \<mapsto> g vs)) (map_of al) hs"
  by (induction hs arbitrary: al) (auto simp: update_conv')

lemma distinct_update_foldl:
  "distinct (map fst al) \<Longrightarrow> distinct (map fst (foldl (\<lambda>m (n, vs). AList.update (f n) (g vs) m) al hs))"
  by (induction hs arbitrary: al) (auto simp: distinct_update)

lemma dom_update_foldl:
  "dom (foldl (\<lambda>m (n, vs). m(f n \<mapsto> g vs)) m hs) = dom m \<union> f ` fst ` set hs"
  by (induction hs arbitrary: m) auto

lemma foldl_upd_other: "\<forall>h\<in>set hs. f (fst h) \<noteq> x \<Longrightarrow> foldl (\<lambda>m (n, vs). m(f n \<mapsto> g vs)) m hs x = m x"
  by (induction hs arbitrary: m) auto

text \<open>The snapshot as a map: the request's headers under their lower-case names, the host, the length.\<close>

definition header_map :: "unicode \<Rightarrow> (string \<times> string list) list \<Rightarrow> string \<Rightarrow> string option" where
  "header_map U hs = foldl (\<lambda>m (n, vs). m(to_lower U n \<mapsto> canonicalHeaderValue vs)) Map.empty hs"

lemma snapshot_map:
  "map_of (snapshot_headers U req) = (let m = (header_map U (req_header req))(''host'' \<mapsto> trim_space (req_host req))
     in if req_length req \<ge> 0 then m(''content-length'' \<mapsto> format_int (req_length req)) else m)"
  by (simp add: snapshot_headers_def header_map_def Let_def update_conv' map_of_update_foldl)

lemma snapshot_distinct: "distinct (map fst (snapshot_headers U req))"
  by (simp add: snapshot_headers_def Let_def distinct_update distinct_update_foldl)

lemma snapshot_names:
  "fst ` set (snapshot_headers U req) = {''host''} \<union> (to_lower U ` fst ` set (req_header req)) \<union>
     (if req_length req \<ge> 0 then {''content-length''} else {})"
proof -
  have "fst ` set (snapshot_headers U req) = dom (map_of (snapshot_headers U req))" by (simp add: dom_map_of_conv_image_fst)
  then show ?thesis by (auto simp: snapshot_map header_map_def Let_def dom_update_foldl)
qed

lemma parseHeaders_Inr:
  "parseHeaders U req raw = Inr (headers, names) \<longleftrightarrow>
     headers = snapshot_headers U req \<and> names = remdups (map (to_lower U) (split_byte CHR '';'' raw)) \<and>
     (\<forall>n\<in>fst ` set (snapshot_headers U req). must_be_signed n \<longrightarrow> n \<in> set names)"
  by (auto simp: parseHeaders_def Let_def list_ex_iff split: if_splits) force+

section \<open>Durations\<close>

lemma time_sub_exact:
  assumes "min_duration < time_sub t u" and "time_sub t u < max_duration"
  shows "time_sub t u = (unix_secs t - unix_secs u) * second + int (nanos t) - int (nanos u)"
  using assms by (auto simp: time_sub_def max_def min_def split: if_splits)

lemma wrap64_id: "- (2 ^ 63) \<le> n \<Longrightarrow> n < 2 ^ 63 \<Longrightarrow> wrap64 n = n"
  by (simp add: wrap64_def sint_sbintrunc' signed_take_bit_int_eq_self)

text \<open>How long before \<open>now\<close> the instant \<open>ts\<close> is, in nanoseconds, without any limit.\<close>

definition elapsed :: "go_time \<Rightarrow> go_time \<Rightarrow> int" where
  "elapsed now ts = (unix_secs now - unix_secs ts) * second + int (nanos now) - int (nanos ts)"

lemma header_window:
  assumes "parseTimestamp http_time req False now = Inr ts"
  shows "\<bar>elapsed now ts\<bar> \<le> MaxClockSkew"
proof -
  have "duration_abs (time_sub now ts) \<le> MaxClockSkew"
    using assms by (auto simp: parseTimestamp_def Let_def split: sum.splits if_splits)
  then have "\<bar>time_sub now ts\<bar> \<le> MaxClockSkew" "time_sub now ts \<noteq> min_duration" "time_sub now ts \<noteq> max_duration"
    by (auto simp: duration_abs_def MaxClockSkew_def min_duration_def max_duration_def split: if_splits)
  moreover from this have "time_sub now ts = elapsed now ts"
    unfolding elapsed_def by (intro time_sub_exact) (auto simp: MaxClockSkew_def min_duration_def max_duration_def)
  ultimately show ?thesis by simp
qed

lemma presigned_window:
  assumes "parseTimestamp http_time req True now = Inr ts"
  obtains expires where "parse_int 64 (get_first (req_query req) ''X-Amz-Expires'') = Some expires"
    and "0 < expires" and "- MaxClockSkew \<le> elapsed now ts" and "elapsed now ts \<le> wrap64 (expires * second)"
    and "wrap64 (expires * second) \<le> MaxPresignAge"
proof -
  from assms obtain expires where e: "parse_int 64 (get_first (req_query req) ''X-Amz-Expires'') = Some expires"
    "0 < expires" "- MaxClockSkew \<le> time_sub now ts" "time_sub now ts \<le> wrap64 (expires * second)"
    "wrap64 (expires * second) \<le> MaxPresignAge"
    by (auto simp: parseTimestamp_def Let_def not_less split: sum.splits if_splits option.splits)
  moreover from this have "time_sub now ts = elapsed now ts"
    unfolding elapsed_def by (intro time_sub_exact)
      (auto simp: MaxClockSkew_def MaxPresignAge_def min_duration_def max_duration_def)
  ultimately show ?thesis using that by simp
qed

section \<open>The X-Amz-Date text and the credential scope\<close>

definition amz_date_text :: "nat \<Rightarrow> nat \<Rightarrow> nat \<Rightarrow> string" where
  "amz_date_text y m d = padded 4 y @ padded 2 m @ padded 2 d"

definition amz_time_text :: "nat \<Rightarrow> nat \<Rightarrow> nat \<Rightarrow> nat \<Rightarrow> nat \<Rightarrow> nat \<Rightarrow> string" where
  "amz_time_text y m d h mi s = amz_date_text y m d @ ''T'' @ padded 2 h @ padded 2 mi @ padded 2 s @ ''Z''"

lemma parse_amz_date:
  assumes "valid_date y m d"
  shows "parse_chunks (AmzDateFormat @ cs) (amz_date_text y m d @ s) parse_start =
    parse_chunks cs s (parse_start\<lparr>ps_year := y, ps_month := m, ps_day := d\<rparr>)"
proof -
  have "d \<le> 31" "y < 10000" "1 \<le> m" "m \<le> 12"
    using assms days_in_31 [of m y] by (auto simp: valid_date_def simp del: days_in.simps)
  then show ?thesis
    by (simp add: AmzDateFormat_def amz_date_text_def year_padded getnum_padded del: parse_chunk.simps(2) padded.simps)
qed

lemma AmzTimeFormat_split:
  "AmzTimeFormat = AmzDateFormat @ [Literal CHR ''T'', Hour, ZeroMinute, ZeroSecond, Literal CHR ''Z'']"
  by (simp add: AmzTimeFormat_def AmzDateFormat_def)

lemma time_parse_amz_date:
  assumes "valid_date y m d"
  shows "time_parse AmzDateFormat (amz_date_text y m d) = Some (Time (civil_secs y m d 0 0 0) 0)"
  using parse_amz_date [OF assms, of "[]" "[]"] assms
  by (simp add: time_parse_def zone_shift_def parse_start_def valid_date_def del: days_in.simps)

lemma time_parse_amz_time:
  assumes "valid_date y m d" and "valid_clock h mi s"
  shows "time_parse AmzTimeFormat (amz_time_text y m d h mi s) = Some (Time (civil_secs y m d h mi s) 0)"
proof -
  have v: "h < 24" "mi < 60" "s < 60" "h < 100" "mi < 100" "s < 100" "1 \<le> d" "d \<le> days_in m y"
    using assms by (auto simp: valid_date_def valid_clock_def simp del: days_in.simps)
  show ?thesis
    using v(1-8)
    by (simp only: time_parse_def AmzTimeFormat_split amz_time_text_def append_assoc parse_amz_date [OF assms(1)])
      (simp add: getnum_padded fractional_def zone_shift_def parse_start_def del: padded.simps days_in.simps)
qed

lemma format_amz:
  assumes "civil_fields t = (int y, m, d, h, mi, s)" and "y < 10000"
  shows "time_format AmzDateFormat t = amz_date_text y m d"
    and "time_format AmzTimeFormat t = amz_time_text y m d h mi s"
  using assms
  by (simp_all add: time_format_def AmzDateFormat_def AmzTimeFormat_def amz_date_text_def amz_time_text_def
      format_year_def del: padded.simps)

lemma amz_text_newline: "newline \<notin> set (amz_date_text y m d)" "CHR ''/'' \<notin> set (amz_date_text y m d)"
proof -
  have "newline \<notin> set (padded k n)" "CHR ''/'' \<notin> set (padded k n)" for k n
    using padded_digits [of k n] by (auto simp: list_all_iff is_digit_def byte_def)
  then show "newline \<notin> set (amz_date_text y m d)" "CHR ''/'' \<notin> set (amz_date_text y m d)"
    by (simp_all add: amz_date_text_def del: padded.simps)
qed

definition credential_text :: "scoped_credential \<Rightarrow> string" where
  "credential_text sc = join ''/'' [sc_access_key sc, sc_date sc, sc_region sc, sc_service sc, AmzScopeTerminator]"

lemma parseCredential_Inr:
  assumes "parseCredential c t = Inr sc"
  shows "c = credential_text sc \<and> (\<forall>f\<in>{sc_access_key sc, sc_date sc, sc_region sc, sc_service sc}. CHR ''/'' \<notin> set f) \<and>
    sc_date sc = time_format AmzDateFormat t"
proof -
  from assms obtain a d r s where split: "split_byte CHR ''/'' c = [a, d, r, s, AmzScopeTerminator]"
    and sc: "sc = \<lparr>sc_access_key = a, sc_date = d, sc_region = r, sc_service = s\<rparr>" "d = time_format AmzDateFormat t"
    by (auto simp: parseCredential_def split: list.splits if_splits)
  have "join ''/'' (split_byte CHR ''/'' c) = c" by simp
  moreover have "\<forall>w\<in>set (split_byte CHR ''/'' c). CHR ''/'' \<notin> set w" by (rule split_byte_no_sep)
  ultimately show ?thesis unfolding split by (simp add: credential_text_def sc)
qed

lemma parseCredential_text:
  assumes "\<forall>f\<in>{sc_access_key sc, sc_date sc, sc_region sc, sc_service sc}. CHR ''/'' \<notin> set f"
    and "sc_date sc = time_format AmzDateFormat t"
    and "-62167219200 \<le> unix_secs t" and "unix_secs t \<le> 253402300799"
  shows "parseCredential (credential_text sc) t = Inr sc"
proof -
  from civil_fields_spec [OF assms(3,4)] obtain y m d h mi s where
    c: "civil_fields t = (int y, m, d, h, mi, s)" "valid_date y m d" by blast
  then have "time_parse AmzDateFormat (sc_date sc) \<noteq> None"
    using format_amz(1) [OF c(1)] time_parse_amz_date [OF c(2)] assms(2) by (simp add: valid_date_def)
  moreover have "split_byte CHR ''/'' (credential_text sc) =
      [sc_access_key sc, sc_date sc, sc_region sc, sc_service sc, AmzScopeTerminator]"
    using assms(1) unfolding credential_text_def by (intro split_byte_join) (auto simp: AmzScopeTerminator_def)
  ultimately show ?thesis using assms(2) by (simp add: parseCredential_def)
qed

section \<open>The Authorization header\<close>

text \<open>Text without commas, white space or bytes above 127.\<close>

definition plain_text :: "string \<Rightarrow> bool" where
  "plain_text s \<longleftrightarrow> (\<forall>c\<in>set s. is_ascii c \<and> c \<notin> set ascii_spaces \<and> c \<noteq> CHR '','')"

definition authorization_text :: "string \<Rightarrow> string \<Rightarrow> string \<Rightarrow> string" where
  "authorization_text credential names signature =
     AlgorithmV4 @ '' Credential='' @ credential @ '', SignedHeaders='' @ names @ '', Signature='' @ signature"

lemma space_rune_chars: "r \<in> set space_runes \<Longrightarrow> r \<noteq> [] \<and> (\<forall>c\<in>set r. \<not> is_ascii c \<or> c \<in> set ascii_spaces)"
proof -
  have "list_all (\<lambda>r. r \<noteq> [] \<and> list_all (\<lambda>c. \<not> is_ascii c \<or> c \<in> set ascii_spaces) r) space_runes"
    by (simp add: space_runes_def wide_spaces_def ascii_spaces_def is_ascii_def byte_def)
  then show "r \<in> set space_runes \<Longrightarrow> ?thesis" by (simp add: list_all_iff)
qed

lemma trim_plain:
  assumes "plain_text s"
  shows "trim_space s = s" and "trim_space ('' '' @ s) = s"
proof -
  have no: "\<not> prefix r s \<and> \<not> suffix r s" if r: "r \<in> set space_runes" for r
  proof -
    obtain c where c: "c \<in> set r" "c \<notin> set s"
      using space_rune_chars [OF r] assms unfolding plain_text_def by (metis list.set_sel(1))
    then show ?thesis using set_mono_prefix [of r s] set_mono_suffix [of r s] by blast
  qed
  then show "trim_space s = s" by (intro trim_space_id) blast
  have "strip space_runes ('' '' @ s) = strip space_runes s"
  proof -
    have "find (\<lambda>r. r \<noteq> [] \<and> has_prefix ('' '' @ s) r) space_runes = Some '' ''"
      by (simp add: space_runes_def ascii_spaces_def)
    then show ?thesis by (subst strip.simps) simp
  qed
  then have "trim_space ('' '' @ s) = trim_space s" by (simp add: trim_space_def)
  then show "trim_space ('' '' @ s) = s" using no by (simp add: trim_space_id)
qed

lemma plain_append: "plain_text (s @ t) \<longleftrightarrow> plain_text s \<and> plain_text t"
  by (auto simp: plain_text_def)

lemma plain_keys: "plain_text ''Credential=''" "plain_text ''SignedHeaders=''" "plain_text ''Signature=''"
  by (simp_all add: plain_text_def is_ascii_def ascii_spaces_def byte_def)

lemma plain_comma: "plain_text s \<Longrightarrow> CHR '','' \<notin> set s"
  by (auto simp: plain_text_def)

lemma split_authorization:
  assumes "plain_text credential" and "plain_text names" and "plain_text signature"
  shows "cut (authorization_text credential names signature) '' '' =
      (AlgorithmV4, ''Credential='' @ credential @ '', SignedHeaders='' @ names @ '', Signature='' @ signature, True)"
    and "split_byte CHR '','' (''Credential='' @ credential @ '', SignedHeaders='' @ names @ '', Signature='' @ signature) =
      [''Credential='' @ credential, '' SignedHeaders='' @ names, '' Signature='' @ signature]"
proof -
  show "cut (authorization_text credential names signature) '' '' =
      (AlgorithmV4, ''Credential='' @ credential @ '', SignedHeaders='' @ names @ '', Signature='' @ signature, True)"
    using cut_byte_found [of "CHR '' ''" AlgorithmV4] by (simp add: authorization_text_def AlgorithmV4_def)
  have "''Credential='' @ credential @ '', SignedHeaders='' @ names @ '', Signature='' @ signature =
      join '','' [''Credential='' @ credential, '' SignedHeaders='' @ names, '' Signature='' @ signature]" by simp
  then show "split_byte CHR '','' (''Credential='' @ credential @ '', SignedHeaders='' @ names @ '', Signature='' @ signature) =
      [''Credential='' @ credential, '' SignedHeaders='' @ names, '' Signature='' @ signature]"
    using assms [THEN plain_comma] by (simp only:) (rule split_byte_join; auto)
qed

lemma getAuthComponents_text:
  assumes "plain_text credential" and "plain_text names" and "plain_text signature"
    and "get_first (req_header req) ''Authorization'' = authorization_text credential names signature"
  shows "getAuthComponents req = Inr \<lparr>ac_presigned = False, ac_algorithm = AlgorithmV4, ac_credential = credential,
    ac_signed_headers = names, ac_signature = signature\<rparr>"
proof -
  have "trim_space (''Credential='' @ credential) = ''Credential='' @ credential"
    using assms(1) plain_keys by (intro trim_plain) (simp only: plain_append)
  moreover have "trim_space ('' '' @ (''SignedHeaders='' @ names)) = ''SignedHeaders='' @ names"
    "trim_space ('' '' @ (''Signature='' @ signature)) = ''Signature='' @ signature"
    using assms(2,3) plain_keys by (intro trim_plain; simp only: plain_append)+
  moreover have "authorization_text credential names signature \<noteq> []"
    by (simp add: authorization_text_def AlgorithmV4_def)
  moreover have "cut_prefix (''Credential='' @ credential) ''Credential='' = (credential, True)"
    "cut_prefix (''SignedHeaders='' @ names) ''SignedHeaders='' = (names, True)"
    "cut_prefix (''Signature='' @ signature) ''Signature='' = (signature, True)"
    by (rule cut_prefix_append)+
  ultimately show ?thesis
    using split_authorization [OF assms(1-3)] by (simp add: getAuthComponents_def assms(4) Let_def)
qed

section \<open>The body of a control-plane request\<close>

lemma resolve_control_plane:
  assumes "service \<noteq> ''s3''" and "req_body req = Stream bytes fault"
  shows "resolveContentHash req presigned service =
    (if int (length bytes) > MaxPayloadLen
     then (Inl ErrPayloadTooLarge, req\<lparr>req_body := Stream (drop (nat MaxPayloadLen + 1) bytes) fault\<rparr>)
     else if fault = None \<or> fault = Some EOF
     then (Inr (hex_encode (sha256 bytes), []), req\<lparr>req_body := Stream bytes None\<rparr>)
     else (Inl (ErrReadingBody (the fault)), req\<lparr>req_body := Stream [] fault\<rparr>))"
  using assms by (auto simp: resolveContentHash_def read_limited_def MaxPayloadLen_def)

section \<open>Separators in a parsed request\<close>

definition no_newline :: "string \<Rightarrow> bool" where
  "no_newline s \<longleftrightarrow> newline \<notin> set s"

lemma join_no_newline: "no_newline sep \<Longrightarrow> \<forall>w\<in>set ws. no_newline w \<Longrightarrow> no_newline (join sep ws)"
  by (auto simp: no_newline_def dest: set_join)

lemma strip_subset: "set (strip runes s) \<subseteq> set s"
proof (induction runes s rule: strip.induct)
  case (1 runes s)
  show ?case
  proof (cases "find (\<lambda>r. r \<noteq> [] \<and> has_prefix s r) runes")
    case None
    then show ?thesis by (subst strip.simps) simp
  next
    case (Some r)
    have "set (strip runes s) = set (strip runes (drop (length r) s))"
      by (subst strip.simps) (simp add: Some)
    also have "\<dots> \<subseteq> set (drop (length r) s)" by (rule 1 [OF Some])
    also have "\<dots> \<subseteq> set s" by (rule set_drop_subset)
    finally show ?thesis .
  qed
qed

lemma trim_space_subset: "set (trim_space s) \<subseteq> set s"
  using strip_subset [of "map rev space_runes" "rev (strip space_runes s)"] strip_subset [of space_runes s]
  by (auto simp: trim_space_def)

lemma canonicalHeaderValue_no_newline: "no_newline (canonicalHeaderValue values)"
proof -
  have "no_newline w" if "w \<in> set (space_fields v)" for v w
    using space_fields_chars [OF that] by (auto simp: no_newline_def ascii_spaces_def)
  then have "no_newline (join '' '' (space_fields v))" for v
    by (intro join_no_newline) (auto simp: no_newline_def)
  then show ?thesis
    unfolding canonicalHeaderValue_def by (intro join_no_newline) (auto simp: no_newline_def)
qed

lemma header_map_value: "header_map U hs n = Some v \<Longrightarrow> \<exists>vs. v = canonicalHeaderValue vs"
proof -
  have "foldl (\<lambda>m (n, vs). m(to_lower U n \<mapsto> canonicalHeaderValue vs)) m hs n = Some v \<Longrightarrow>
      m n = Some v \<or> (\<exists>vs. v = canonicalHeaderValue vs)" for m
    by (induction hs arbitrary: m) (fastforce split: if_splits)+
  then show "header_map U hs n = Some v \<Longrightarrow> ?thesis" by (fastforce simp: header_map_def)
qed

lemma format_int_no_newline: "no_newline (format_int v)"
proof -
  have "no_newline (nat_string n)" for n
    using nat_string_spec [of n] digits_newline by (auto simp: no_newline_def)
  then show ?thesis by (simp add: format_int_def no_newline_def)
qed

lemma snapshot_value_no_newline:
  assumes "no_newline (req_host req)" and "map_of (snapshot_headers U req) n = Some v"
  shows "no_newline v"
proof -
  have "no_newline (trim_space (req_host req))"
    using assms(1) trim_space_subset [of "req_host req"] by (auto simp: no_newline_def)
  moreover have "v = trim_space (req_host req) \<or> v = format_int (req_length req) \<or> header_map U (req_header req) n = Some v"
    using assms(2) by (auto simp: snapshot_map Let_def split: if_splits)
  ultimately show ?thesis
    using format_int_no_newline canonicalHeaderValue_no_newline header_map_value by metis
qed

lemma hex_no_newline: "list_all is_hex s \<Longrightarrow> no_newline s"
  by (auto simp: no_newline_def list_all_iff is_hex_def is_digit_def byte_def)

lemma content_hash_no_newline:
  assumes "resolveContentHash req presigned service = (Inr (h, mode), req')"
  shows "no_newline h"
proof -
  have sentinel: "no_newline UnsignedPayload" "no_newline EmptyPayload" "no_newline StreamingSigned"
    "no_newline StreamingSignedTrailer" "no_newline StreamingUnsignedTrailer"
    by (simp_all add: no_newline_def UnsignedPayload_def EmptyPayload_def StreamingSigned_def
        StreamingSignedTrailer_def StreamingUnsignedTrailer_def)
  have digest: "no_newline (hex_encode s)" for s
    using hex_encode_chars by (auto simp: no_newline_def)
  have mode: "no_newline s" if "payloadMode s = Inr mode" for s
    using that sentinel hex_no_newline by (auto simp: payloadMode_def split: if_splits)
  show ?thesis
    using assms sentinel digest mode
    by (auto simp: resolveContentHash_def Let_def split: if_splits sum.splits body.splits prod.splits)
qed

lemma ascii_lower_separator:
  assumes "byte (ascii_lower c) < 97"
  shows "ascii_lower c = c"
  using assms byte_char_of [of "byte c + 32"] by (auto simp: ascii_lower_def split: if_splits)

lemma split_byte_subset: "w \<in> set (split_byte b s) \<Longrightarrow> set w \<subseteq> set s"
proof -
  have "set w \<subseteq> set (join sep ws)" if "w \<in> set ws" for sep ws
    using that by (induction sep ws rule: join.induct) auto
  then show "w \<in> set (split_byte b s) \<Longrightarrow> ?thesis" by (metis join_split_byte)
qed

lemma to_lower_separators:
  assumes "list_all is_ascii w"
  shows "newline \<in> set (to_lower U w) \<Longrightarrow> newline \<in> set w"
    and "CHR '';'' \<in> set (to_lower U w) \<Longrightarrow> CHR '';'' \<in> set w"
proof -
  have low: "x \<in> set w" if "x \<in> set (to_lower U w)" "byte x < 97" for x
    using that assms ascii_lower_separator by (auto simp: to_lower_ascii) metis
  show "newline \<in> set (to_lower U w) \<Longrightarrow> newline \<in> set w" by (rule low) (simp_all add: byte_def)
  show "CHR '';'' \<in> set (to_lower U w) \<Longrightarrow> CHR '';'' \<in> set w" by (rule low) (simp_all add: byte_def)
qed

text \<open>
  What \<^verbatim>\<open>net/http\<close> has made sure of before a handler runs: no line break in the method, the escaped path or
  the host; and the header names the client lists are ASCII without line breaks.
\<close>

definition http_clean :: "http_request \<Rightarrow> bool" where
  "http_clean req \<longleftrightarrow> no_newline (req_method req) \<and> no_newline (req_path req) \<and> no_newline (req_host req)"

definition auth_clean :: "auth_components \<Rightarrow> bool" where
  "auth_clean auth \<longleftrightarrow> list_all is_ascii (ac_signed_headers auth) \<and> no_newline (ac_signed_headers auth) \<and>
     no_newline (ac_credential auth)"

lemma parsed_line_safe:
  assumes parse: "parseCanonicalRequest U esc req presigned service raw = (Inr c, req')"
    and clean: "http_clean req" "list_all is_ascii raw" "no_newline raw" and esc: "escapes_reserved esc"
  shows "line_safe c"
proof -
  from parse obtain headers names where
    hash: "resolveContentHash req presigned service = (Inr (cr_content_hash c, cr_mode c), req')"
    and hdrs: "parseHeaders U req' raw = Inr (headers, names)"
    and c: "cr_headers c = headers" "cr_signed c = names" "cr_method c = req_method req'" "cr_uri c = parseURI esc req' service"
    by (rule parseCanonicalRequest_InrE)
  obtain b where req': "req' = req\<lparr>req_body := b\<rparr>" using resolved_request [OF hash] by blast
  have "no_newline (cr_uri c)"
  proof -
    have "no_newline (esc s True)" for s using esc by (simp add: escapes_reserved_def no_newline_def)
    then have "no_newline (join ''/'' (map (\<lambda>s. esc s True) ws))" for ws
      by (intro join_no_newline) (auto simp: no_newline_def)
    then show ?thesis using clean(1) by (simp add: c parseURI_def req' http_clean_def)
  qed
  moreover have "no_newline (header_value c n)" for n
  proof -
    have "no_newline (req_host req')" using clean(1) by (simp add: req' http_clean_def)
    from snapshot_value_no_newline [OF this] hdrs show ?thesis
      by (auto simp: header_value_def c(1) parseHeaders_Inr no_newline_def split: option.split)
  qed
  moreover have "newline \<notin> set n \<and> CHR '';'' \<notin> set n" if "n \<in> set (cr_signed c)" for n
  proof -
    from that hdrs obtain w where w: "w \<in> set (split_byte CHR '';'' raw)" "n = to_lower U w"
      by (auto simp: c(2) parseHeaders_Inr)
    then have "set w \<subseteq> set raw" "CHR '';'' \<notin> set w" using split_byte_subset split_byte_no_sep by blast+
    moreover from this have "list_all is_ascii w" "newline \<notin> set w"
      using clean(2,3) by (auto simp: list_all_iff no_newline_def)
    ultimately show ?thesis using to_lower_separators w(2) by blast
  qed
  ultimately show ?thesis
    using clean(1) content_hash_no_newline [OF hash] by (simp add: line_safe_def c(3) req' http_clean_def no_newline_def)
qed

lemma parsed_scope_safe:
  assumes "parseCredential c t = Inr sc" and "no_newline c"
  shows "scope_safe sc"
  using parseCredential_Inr [OF assms(1)] assms(2)
  by (auto simp: scope_safe_def credential_text_def no_newline_def)

section \<open>The signature does not cover the Authorization header\<close>

definition with_auth :: "http_request \<Rightarrow> string \<Rightarrow> http_request" where
  "with_auth req a = req\<lparr>req_header := (''Authorization'', [a]) # req_header req\<rparr>"

lemma lower_authorization: "to_lower U ''Authorization'' = ''authorization''"
proof -
  have "byte (char_of (97 :: nat)) = byte CHR ''a''" by (simp add: byte_char_of) (simp add: byte_def)
  then have "char_of (97 :: nat) = CHR ''a''" by (simp only: byte_inject)
  then show ?thesis by (simp add: to_lower_def is_ascii_def ascii_lower_def byte_def)
qed

lemma get_first_with_auth:
  "get_first (req_header (with_auth req a)) key = (if key = ''Authorization'' then a else get_first (req_header req) key)"
  by (simp add: get_first_def with_auth_def)

lemma with_auth_simps [simp]:
  "req_method (with_auth req a) = req_method req" "req_path (with_auth req a) = req_path req"
  "req_query (with_auth req a) = req_query req" "req_host (with_auth req a) = req_host req"
  "req_length (with_auth req a) = req_length req" "req_body (with_auth req a) = req_body req"
  by (simp_all add: with_auth_def)

lemma foldl_upd_cong:
  "m x = m' x \<Longrightarrow> foldl (\<lambda>m (n, vs). m(f n \<mapsto> g vs)) m hs x = foldl (\<lambda>m (n, vs). m(f n \<mapsto> g vs)) m' hs x"
proof (induction hs arbitrary: m m')
  case (Cons h hs)
  obtain n vs where h: "h = (n, vs)" by (cases h)
  show ?case using Cons.IH [of "m(f n \<mapsto> g vs)" "m'(f n \<mapsto> g vs)"] Cons.prems by (simp add: h)
qed simp

lemma snapshot_with_auth:
  "n \<noteq> ''authorization'' \<Longrightarrow>
   map_of (snapshot_headers U (with_auth req a\<lparr>req_body := b\<rparr>)) n =
   map_of (snapshot_headers U (with_auth req a'\<lparr>req_body := b'\<rparr>)) n"
  using foldl_upd_cong [of "[''authorization'' \<mapsto> canonicalHeaderValue [a]]" n "[''authorization'' \<mapsto> canonicalHeaderValue [a']]"
    "to_lower U" canonicalHeaderValue "req_header req"]
  by (simp add: snapshot_map header_map_def Let_def with_auth_def lower_authorization)

lemma snapshot_names_with_auth:
  "fst ` set (snapshot_headers U (with_auth req a\<lparr>req_body := b\<rparr>)) =
   fst ` set (snapshot_headers U (with_auth req a'\<lparr>req_body := b'\<rparr>))"
  by (simp add: snapshot_names with_auth_def)

lemma request_time_with_auth: "request_time http_time (with_auth req a) presigned = request_time http_time req presigned"
  by (simp add: request_time_def get_first_with_auth Let_def)

lemma parseTimestamp_with_auth:
  "parseTimestamp http_time (with_auth req a) presigned now = parseTimestamp http_time req presigned now"
  by (simp only: parseTimestamp_def request_time_with_auth with_auth_simps)

lemma with_auth_body: "with_auth req a\<lparr>req_body := req_body req\<rparr> = with_auth req a"
  by (simp add: with_auth_def)

lemma resolve_with_auth:
  "resolveContentHash (with_auth req a) presigned service =
     (case resolveContentHash req presigned service of (res, req') \<Rightarrow> (res, with_auth req a\<lparr>req_body := req_body req'\<rparr>))"
  by (simp add: resolveContentHash_def get_first_with_auth Let_def with_auth_body split: body.split prod.split sum.split)

lemma parseHeaders_with_auth:
  assumes "parseHeaders U (with_auth req a\<lparr>req_body := b\<rparr>) raw = Inr (headers, names)"
  shows "parseHeaders U (with_auth req a'\<lparr>req_body := b\<rparr>) raw =
    Inr (snapshot_headers U (with_auth req a'\<lparr>req_body := b\<rparr>), names)"
  using assms unfolding parseHeaders_Inr snapshot_names_with_auth [where a = a' and b = b and a' = a and b' = b] by blast

text \<open>Two canonical requests that differ in headers outside the signature.\<close>

definition same_signed :: "canonical_request \<Rightarrow> canonical_request \<Rightarrow> bool" where
  "same_signed c c' \<longleftrightarrow> cr_method c' = cr_method c \<and> cr_uri c' = cr_uri c \<and> cr_query c' = cr_query c \<and>
     cr_signed c' = cr_signed c \<and> cr_content_hash c' = cr_content_hash c \<and> cr_mode c' = cr_mode c \<and>
     (\<forall>n\<in>set (cr_signed c). map_of (cr_headers c) n = map_of (cr_headers c') n)"

lemma canonicalRequest_same_signed:
  assumes "same_signed c c'"
  shows "canonicalRequest U esc redact c = canonicalRequest U esc redact c'"
proof -
  have "map (header_line U redact (cr_headers c)) (sort (cr_signed c)) =
      map (header_line U redact (cr_headers c')) (sort (cr_signed c))"
    using assms by (auto simp: header_line_def same_signed_def)
  then show ?thesis using assms by (simp only: canonicalRequest_def Let_def same_signed_def)
qed

lemma parseCanonicalRequest_with_auth:
  assumes parse: "parseCanonicalRequest U esc (with_auth req a) presigned service raw = (Inr c, q)"
    and unsigned: "''authorization'' \<notin> set (map (to_lower U) (split_byte CHR '';'' raw))"
  obtains c' where "parseCanonicalRequest U esc (with_auth req a') presigned service raw =
      (Inr c', with_auth req a'\<lparr>req_body := req_body q\<rparr>)" and "same_signed c c'"
proof -
  obtain res p where r: "resolveContentHash req presigned service = (res, p)" by fastforce
  let ?h = "\<lambda>a. snapshot_headers U (with_auth req a\<lparr>req_body := req_body p\<rparr>)"
  from parse r obtain headers names where
    res: "res = Inr (cr_content_hash c, cr_mode c)" "q = with_auth req a\<lparr>req_body := req_body p\<rparr>"
    and hdrs: "parseHeaders U (with_auth req a\<lparr>req_body := req_body p\<rparr>) raw = Inr (headers, names)"
    and c: "cr_method c = req_method req" "cr_uri c = parseURI esc req service" "cr_query c = parseQuery req"
      "cr_headers c = headers" "cr_signed c = names"
    by (auto simp: parseCanonicalRequest_def resolve_with_auth parseURI_def parseQuery_def split: sum.splits)
  have h: "cr_headers c = ?h a" and names: "''authorization'' \<notin> set (cr_signed c)"
    using hdrs unsigned by (auto simp: parseHeaders_Inr c)
  have c': "c\<lparr>cr_headers := hs\<rparr> = \<lparr>cr_method = req_method req, cr_uri = parseURI esc req service,
      cr_query = parseQuery req, cr_headers = hs, cr_signed = names, cr_content_hash = cr_content_hash c,
      cr_mode = cr_mode c\<rparr>" for hs
    using c by (cases c) simp
  let ?c = "c\<lparr>cr_headers := ?h a'\<rparr>"
  have "parseCanonicalRequest U esc (with_auth req a') presigned service raw =
      (Inr ?c, with_auth req a'\<lparr>req_body := req_body q\<rparr>)"
    unfolding parseCanonicalRequest_def resolve_with_auth r prod.case res sum.case parseHeaders_with_auth [OF hdrs]
    by (simp add: c' parseURI_def parseQuery_def)
  moreover have "map_of (cr_headers c) n = map_of (?h a') n" if "n \<in> set (cr_signed c)" for n
  proof -
    have "n \<noteq> ''authorization''" using that names by blast
    then show ?thesis unfolding h by (rule snapshot_with_auth)
  qed
  then have "same_signed c ?c" by (simp add: same_signed_def)
  ultimately show ?thesis by (rule that)
qed

lemma Parse_with_auth:
  assumes parse: "Parse U esc http_time now (with_auth req (authorization_text cred names s)) = (Inr r, q)"
    and plain: "plain_text cred" "plain_text names" "plain_text s" "plain_text s'"
    and unsigned: "''authorization'' \<notin> set (map (to_lower U) (split_byte CHR '';'' names))"
  obtains r' q' where "Parse U esc http_time now (with_auth req (authorization_text cred names s')) = (Inr r', q')"
    and "same_signed (sr_canonical r) (sr_canonical r')" and "sr_credential r' = sr_credential r"
    and "sr_timestamp r' = sr_timestamp r" and "sr_signature r' = s'" and "sr_req r = Some q" and "sr_req r' = Some q'"
    and "req_length q' = req_length q" and "req_body q' = req_body q"
proof -
  let ?a = "\<lambda>s. authorization_text cred names s"
  have auth: "getAuthComponents (with_auth req (?a s)) = Inr \<lparr>ac_presigned = False, ac_algorithm = AlgorithmV4,
      ac_credential = cred, ac_signed_headers = names, ac_signature = s\<rparr>" if "plain_text s" for s
    by (rule getAuthComponents_text [OF plain(1,2) that]) (simp add: get_first_with_auth)
  from parse obtain auth where p: "getAuthComponents (with_auth req (?a s)) = Inr auth"
    "parseTimestamp http_time (with_auth req (?a s)) (ac_presigned auth) now = Inr (sr_timestamp r)"
    "parseCredential (ac_credential auth) (sr_timestamp r) = Inr (sr_credential r)"
    "parseCanonicalRequest U esc (with_auth req (?a s)) (ac_presigned auth) (sc_service (sr_credential r))
       (ac_signed_headers auth) = (Inr (sr_canonical r), q)" "sr_req r = Some q"
    by (rule Parse_InrE)
  note p = p(2-5) [unfolded p(1) [unfolded auth [OF plain(3)], THEN Inr_inject, symmetric] auth_components.simps]
  obtain c' where c': "parseCanonicalRequest U esc (with_auth req (?a s')) False (sc_service (sr_credential r)) names =
      (Inr c', with_auth req (?a s')\<lparr>req_body := req_body q\<rparr>)" "same_signed (sr_canonical r) c'"
    by (rule parseCanonicalRequest_with_auth [OF p(3) unsigned, of "?a s'"])
  let ?q = "with_auth req (?a s')\<lparr>req_body := req_body q\<rparr>"
  let ?r = "\<lparr>sr_canonical = c', sr_credential = sr_credential r, sr_algorithm = AlgorithmV4,
      sr_timestamp = sr_timestamp r, sr_signature = s', sr_req = Some ?q\<rparr>"
  have "Parse U esc http_time now (with_auth req (?a s')) = (Inr ?r, ?q)"
    using p(1,2) c'(1) by (simp add: Parse_def auth [OF plain(4)] parseTimestamp_with_auth)
  moreover have "req_length q = req_length req"
    using p(3) by (auto simp: parseCanonicalRequest_def resolve_with_auth split: sum.splits prod.splits)
  ultimately show ?thesis using c'(2) p(4) by (intro that [of ?r ?q]) simp_all
qed

lemma bindPayload_same_body:
  assumes "sr_req r = Some q" and "sr_req r' = Some q'" and "req_length q' = req_length q" and "req_body q' = req_body q"
    and "sr_credential r' = sr_credential r"
    and "cr_mode (sr_canonical r') = cr_mode (sr_canonical r)"
    and "cr_content_hash (sr_canonical r') = cr_content_hash (sr_canonical r)"
  shows "bindPayload U r' = bindPayload U r"
  by (simp only: bindPayload_def assms option.case)

lemma plain_hex: "plain_text (hex_encode s)"
proof -
  have "is_ascii c \<and> c \<notin> set ascii_spaces \<and> c \<noteq> CHR '',''" if "c \<in> set ''0123456789abcdef''" for c
    using that by (auto simp: is_ascii_def ascii_spaces_def byte_def)
  then show ?thesis using hex_encode_chars unfolding plain_text_def by blast
qed

section \<open>Properties\<close>

text \<open>C15: A client that signs its request is let in, under these conditions: the credential scope and the header list it
  puts into the Authorization header are plain text (ASCII without commas or white space), the list does not
  name the Authorization header itself, in any case, and the request with that header and an empty signature
  is one Parse reads, for the region and service Verify is asked about. When the client then puts the
  signature computed over what Parse reads into the header instead, Parse still accepts, with the same
  canonical request, and Verify under the same secret succeeds as far as the body allows. A client whose
  list names the Authorization header is outside this statement: there the header that carries the signature
  is itself part of what is signed.\<close>
theorem client_request_accepted:
  assumes "Parse U esc http_time now (with_auth req (authorization_text cred names [])) = (Inr r, q)"
    and "plain_text cred" and "plain_text names"
    and "''authorization'' \<notin> set (map (to_lower U) (split_byte CHR '';'' names))"
    and "sc_region (sr_credential r) = region" and "sc_service (sr_credential r) = service"
    and "signature = hex_encode (hmac_sha256 (buildSigningKey r secret) (buildStringToSign U esc r))"
  shows "\<exists>r' q'. Parse U esc http_time now (with_auth req (authorization_text cred names signature)) = (Inr r', q') \<and>
    canonicalRequest U esc False (sr_canonical r') = canonicalRequest U esc False (sr_canonical r) \<and>
    Verify U esc r' secret region service =
      (case bindPayload U r of
         Inl e \<Rightarrow> Inl e
       | Inr b \<Rightarrow> Inr \<lparr>vr_body = b, vr_signing_key = buildSigningKey r secret\<rparr>)"
proof -
  have nil: "plain_text []" and sig: "plain_text signature"
    using plain_hex by (simp_all add: plain_text_def assms(7))
  from Parse_with_auth [OF assms(1-3) nil sig assms(4)] obtain r' q' where
    r': "Parse U esc http_time now (with_auth req (authorization_text cred names signature)) = (Inr r', q')"
    and same: "same_signed (sr_canonical r) (sr_canonical r')" and cred: "sr_credential r' = sr_credential r"
    and t: "sr_timestamp r' = sr_timestamp r" and s: "sr_signature r' = signature"
    and q: "sr_req r = Some q" "sr_req r' = Some q'" "req_length q' = req_length q" "req_body q' = req_body q"
    by blast
  have canon: "canonicalRequest U esc False (sr_canonical r') = canonicalRequest U esc False (sr_canonical r)"
    using canonicalRequest_same_signed [OF same] by simp
  have "buildStringToSign U esc r' = buildStringToSign U esc r"
    by (simp add: buildStringToSign_def buildCanonicalHash_def CanonicalRequest_def canon cred t)
  moreover have "buildSigningKey r' secret = buildSigningKey r secret" by (simp add: buildSigningKey_def cred)
  moreover have "bindPayload U r' = bindPayload U r"
    using same by (intro bindPayload_same_body [OF q cred]) (simp_all add: same_signed_def)
  ultimately have "Verify U esc r' secret region service =
      (case bindPayload U r of Inl e \<Rightarrow> Inl e | Inr b \<Rightarrow> Inr \<lparr>vr_body = b, vr_signing_key = buildSigningKey r secret\<rparr>)"
    by (simp add: Verify_def cred s assms(5-7) Let_def)
  with r' canon show ?thesis by blast
qed

text \<open>C16: Time limits: a request that Parse accepts was signed at most 15 minutes away from the reference time when the
  Authorization header carries the signature; a presigned one at most 15 minutes ahead of it and never more
  than seven days before it, nor more than its own lifetime when that is at most seven days. The limits hold
  in exact nanoseconds, in spite of Go's saturating and wrapping durations.\<close>
theorem accepted_time_window:
  assumes "Parse U esc http_time now req = (Inr r, req')"
  shows "\<exists>auth. getAuthComponents req = Inr auth \<and>
    (if ac_presigned auth then
       - MaxClockSkew \<le> elapsed now (sr_timestamp r) \<and> elapsed now (sr_timestamp r) \<le> MaxPresignAge \<and>
       (\<exists>expires. parse_int 64 (get_first (req_query req) ''X-Amz-Expires'') = Some expires \<and> 0 < expires \<and>
          (expires \<le> 604800 \<longrightarrow> elapsed now (sr_timestamp r) \<le> expires * second))
     else \<bar>elapsed now (sr_timestamp r)\<bar> \<le> MaxClockSkew)"
proof -
  from assms obtain auth where auth: "getAuthComponents req = Inr auth"
    and ts: "parseTimestamp http_time req (ac_presigned auth) now = Inr (sr_timestamp r)"
    by (rule Parse_InrE)
  show ?thesis
  proof (cases "ac_presigned auth")
    case False
    then show ?thesis using auth header_window ts by (auto simp: False)
  next
    case True
    then have "parseTimestamp http_time req True now = Inr (sr_timestamp r)" using ts by simp
    then obtain expires where
      e: "parse_int 64 (get_first (req_query req) ''X-Amz-Expires'') = Some expires" "0 < expires"
        "- MaxClockSkew \<le> elapsed now (sr_timestamp r)" "elapsed now (sr_timestamp r) \<le> wrap64 (expires * second)"
        "wrap64 (expires * second) \<le> MaxPresignAge"
      by (rule presigned_window)
    moreover have "wrap64 (expires * second) = expires * second" if "expires \<le> 604800"
      using that e(2) by (intro wrap64_id) (simp_all add: second_def)
    ultimately show ?thesis using auth True by (intro exI [of _ auth]) (auto intro: order_trans)
  qed
qed

text \<open>C20: The lifetime limit of presigned URLs: a lifetime is refused as too long exactly when it exceeds seven days
  after the product with a second has wrapped around at 64 bits. Up to 9223372036 seconds that is the
  documented limit of 604800; beyond, a lifetime such as 18446744074 seconds wraps to 0.29 seconds and is not
  refused.\<close>
theorem presign_lifetime_limit:
  assumes "request_time http_time req True = Inr ts" and "0 < expires"
    and "parse_int 64 (get_first (req_query req) ''X-Amz-Expires'') = Some expires"
  shows "(parseTimestamp http_time req True now = Inl ErrMalformedPresignedURL \<longleftrightarrow>
      MaxPresignAge < wrap64 (expires * second)) \<and>
    (expires \<le> 9223372036 \<longrightarrow> (MaxPresignAge < wrap64 (expires * second) \<longleftrightarrow> 604800 < expires)) \<and>
    wrap64 (18446744074 * second) = 290448384"
proof -
  have "parseTimestamp http_time req True now = Inl ErrMalformedPresignedURL \<longleftrightarrow> MaxPresignAge < wrap64 (expires * second)"
    using assms by (simp add: parseTimestamp_def Let_def)
  moreover have "wrap64 (expires * second) = expires * second" if "expires \<le> 9223372036"
    using that assms(2) by (intro wrap64_id) (simp_all add: second_def)
  moreover have "wrap64 (18446744074 * second) = 290448384"
    by (simp add: wrap64_def second_def int_word_sint)
  ultimately show ?thesis by (auto simp: MaxPresignAge_def second_def)
qed

text \<open>C17: Headers that must be signed are signed: in every request Parse accepts, the signature covers the host, with the
  value of the request itself whatever its headers say, and every Content-MD5 and x-amz header of the request
  other than the content hash, in any spelling of the name; and the parsed header and signed-header maps have
  each key once.\<close>
theorem required_headers_signed:
  assumes "Parse U esc http_time now req = (Inr r, req')"
  shows "''host'' \<in> set (cr_signed (sr_canonical r)) \<and>
    (\<forall>name\<in>fst ` set (req_header req). must_be_signed (to_lower U name) \<longrightarrow>
       to_lower U name \<in> set (cr_signed (sr_canonical r))) \<and>
    distinct (cr_signed (sr_canonical r)) \<and> distinct (map fst (cr_headers (sr_canonical r))) \<and>
    header_value (sr_canonical r) ''host'' = trim_space (req_host req)"
proof -
  from Parse_canonical [OF assms] obtain auth :: auth_components where "parseCanonicalRequest U esc req (ac_presigned auth) (sc_service (sr_credential r))
      (ac_signed_headers auth) = (Inr (sr_canonical r), req')"
    by blast
  then obtain headers names where
    hash: "resolveContentHash req (ac_presigned auth) (sc_service (sr_credential r)) =
      (Inr (cr_content_hash (sr_canonical r), cr_mode (sr_canonical r)), req')"
    and h: "parseHeaders U req' (ac_signed_headers auth) = Inr (headers, names)"
    and c: "cr_headers (sr_canonical r) = headers" "cr_signed (sr_canonical r) = names"
    by (rule parseCanonicalRequest_InrE)
  obtain b where req': "req' = req\<lparr>req_body := b\<rparr>" using resolved_request [OF hash] by blast
  have "\<forall>n\<in>{''host''} \<union> to_lower U ` fst ` set (req_header req). must_be_signed n \<longrightarrow> n \<in> set names"
  proof -
    have "{''host''} \<union> to_lower U ` fst ` set (req_header req) \<subseteq> fst ` set (snapshot_headers U req')"
      unfolding snapshot_names req' by auto
    then show ?thesis using h unfolding parseHeaders_Inr by blast
  qed
  moreover have "must_be_signed ''host''" by (simp add: must_be_signed_def)
  moreover have "distinct names" "distinct (map fst headers)"
    using h snapshot_distinct by (auto simp: parseHeaders_Inr)
  moreover have "header_value (sr_canonical r) ''host'' = trim_space (req_host req)"
    using h by (auto simp: header_value_def c parseHeaders_Inr snapshot_map Let_def req')
  ultimately show ?thesis by (simp add: c)
qed

text \<open>C19: Every request Parse accepts is well formed for signing: as long as the HTTP server has kept line breaks out of
  method, path and host, and the client lists its headers and scope in ASCII without line breaks, no field of
  the parsed request holds a character that separates fields of the text that is signed. Header values
  need no assumption: canonicalising them removes line breaks.\<close>
theorem parsed_request_safe:
  assumes "Parse U esc http_time now req = (Inr r, req')" and "escapes_reserved esc" and "http_clean req"
    and "getAuthComponents req = Inr auth" and "auth_clean auth"
  shows "line_safe (sr_canonical r) \<and> scope_safe (sr_credential r)"
proof -
  from assms(1) obtain auth' where a: "getAuthComponents req = Inr auth'"
    and p: "parseCredential (ac_credential auth') (sr_timestamp r) = Inr (sr_credential r)"
    "parseCanonicalRequest U esc req (ac_presigned auth') (sc_service (sr_credential r)) (ac_signed_headers auth') =
      (Inr (sr_canonical r), req')"
    by (rule Parse_InrE)
  have "auth' = auth" using a assms(4) by simp
  then show ?thesis
    using parsed_line_safe [OF p(2) assms(3) _ _ assms(2)] parsed_scope_safe [OF p(1)] assms(5)
    by (simp add: auth_clean_def)
qed

text \<open>Dates and scope round trip: a time in the form YYYYMMDDThhmmssZ is read to the instant that is printed as the
  same text in the string to sign, and under that time a credential is accepted exactly when it is
  key/date/region/service/aws4_request with no further slash and the date is the first eight characters of
  that text.\<close>
theorem scope_date_roundtrip:
  assumes "valid_date y m d" and "valid_clock h mi s"
  shows "\<exists>t. time_parse AmzTimeFormat (amz_time_text y m d h mi s) = Some t \<and>
    time_format AmzTimeFormat t = amz_time_text y m d h mi s \<and>
    (parseCredential c t = Inr sc \<longleftrightarrow>
       c = credential_text sc \<and>
       (\<forall>f\<in>{sc_access_key sc, sc_date sc, sc_region sc, sc_service sc}. CHR ''/'' \<notin> set f) \<and>
       sc_date sc = take 8 (amz_time_text y m d h mi s))"
proof -
  let ?t = "Time (civil_secs y m d h mi s) 0"
  have y: "y < 10000" using assms(1) by (simp add: valid_date_def)
  have fields: "civil_fields ?t = (int y, m, d, h, mi, s)" by (rule civil_fields_unique [OF assms]) simp
  have date: "time_format AmzDateFormat ?t = take 8 (amz_time_text y m d h mi s)"
    unfolding format_amz(1) [OF fields y] amz_time_text_def
    by (simp add: amz_date_text_def del: padded.simps)
  note range = civil_secs_range [OF assms]
  have "parseCredential c ?t = Inr sc \<longleftrightarrow> c = credential_text sc \<and>
      (\<forall>f\<in>{sc_access_key sc, sc_date sc, sc_region sc, sc_service sc}. CHR ''/'' \<notin> set f) \<and>
      sc_date sc = time_format AmzDateFormat ?t"
    using parseCredential_Inr [of c ?t sc] parseCredential_text [of sc ?t] range by auto
  then show ?thesis
    using time_parse_amz_time [OF assms] format_amz(2) [OF fields y] unfolding date by blast
qed

text \<open>A request to a service other than S3 has its whole body in the signature: when Parse accepts it, the body was at
  most 10 MiB and was read without a fault, the content hash that is signed is the hash of exactly those bytes,
  the handler reads the same bytes again from the rewound body, and Verify leaves them alone.\<close>
theorem control_plane_body_hashed:
  assumes "Parse U esc http_time now req = (Inr r, req')" and "sc_service (sr_credential r) \<noteq> ''s3''"
    and "req_body req = Stream bytes fault"
  shows "int (length bytes) \<le> MaxPayloadLen \<and> (fault = None \<or> fault = Some EOF) \<and>
    cr_content_hash (sr_canonical r) = hex_encode (sha256 bytes) \<and>
    sr_req r = Some req' \<and> req_body req' = Stream bytes None \<and> bindPayload U r = Inr Unchanged"
proof -
  from Parse_canonical [OF assms(1)] obtain auth :: auth_components where p: "parseCanonicalRequest U esc req (ac_presigned auth) (sc_service (sr_credential r))
      (ac_signed_headers auth) = (Inr (sr_canonical r), req')" and q: "sr_req r = Some req'"
    by blast
  from p obtain headers names where "resolveContentHash req (ac_presigned auth) (sc_service (sr_credential r)) =
      (Inr (cr_content_hash (sr_canonical r), cr_mode (sr_canonical r)), req')"
    by (rule parseCanonicalRequest_InrE)
  then show ?thesis
    using q assms(2) unfolding resolve_control_plane [OF assms(2,3)]
    by (auto simp: bindPayload_def split: if_splits)
qed

section \<open>Witnesses\<close>

text \<open>A POST to a control-plane service at midnight, signed in the Authorization header; and a presigned GET.\<close>

definition no_unicode :: unicode where
  "no_unicode = \<lparr>lower_runes = (\<lambda>s. s), fold_runes = (\<lambda>s t. False)\<rparr>"

definition midnight :: string where "midnight = ''20200101T000000Z''"

definition sample_post :: http_request where
  "sample_post = \<lparr>req_method = ''POST'', req_path = ''/'', req_query = [], req_header = [(''X-Amz-Date'', [midnight])],
     req_host = ''iam'', req_length = -1, req_body = Stream ''abc'' None\<rparr>"

definition sample_scope :: scoped_credential where
  "sample_scope = \<lparr>sc_access_key = ''AK'', sc_date = ''20200101'', sc_region = ''eu'', sc_service = ''iam''\<rparr>"

definition sample_names :: string where "sample_names = ''host;x-amz-date''"

definition sample_auth :: http_request where
  "sample_auth = with_auth sample_post (authorization_text (credential_text sample_scope) sample_names [])"

lemma padded_digits_2: "padded 2 n = [digit_char (n div 10 mod 10), digit_char (n mod 10)]"
  by (simp add: numeral_2_eq_2)

lemma padded_digits_4:
  "padded 4 n = [digit_char (n div 1000 mod 10), digit_char (n div 100 mod 10), digit_char (n div 10 mod 10), digit_char (n mod 10)]"
proof -
  have four: "(4 :: nat) = Suc (Suc (Suc (Suc 0)))" by simp
  show ?thesis unfolding four by (simp add: div_mult2_eq [symmetric])
qed

lemma midnight_text: "midnight = amz_time_text 2020 1 1 0 0 0"
proof -
  have "char_of (48 :: nat) = CHR ''0''" "char_of (49 :: nat) = CHR ''1''" "char_of (50 :: nat) = CHR ''2''"
    by (simp_all only: byte_inject [symmetric], simp_all add: byte_char_of, simp_all add: byte_def)
  then show ?thesis
    by (simp add: midnight_def amz_time_text_def amz_date_text_def digit_char_def padded_digits_2 padded_digits_4
        del: padded.simps)
qed

lemma midnight_valid: "valid_date 2020 1 1" "valid_clock 0 0 0"
  by (simp_all add: valid_date_def valid_clock_def)

lemma midnight_secs: "civil_secs 2020 1 1 0 0 0 = 1577836800"
  by (simp add: civil_secs_def civil_days_def days_before_year_def days_before_month_def)

lemma parse_midnight: "time_parse AmzTimeFormat midnight = Some (Time 1577836800 0)"
  using time_parse_amz_time [OF midnight_valid] by (simp only: midnight_text midnight_secs)

lemma lower_x_amz_date: "to_lower U ''X-Amz-Date'' = ''x-amz-date''"
proof -
  have "char_of (120 :: nat) = CHR ''x''" "char_of (97 :: nat) = CHR ''a''" "char_of (100 :: nat) = CHR ''d''"
    by (simp_all only: byte_inject [symmetric], simp_all add: byte_char_of, simp_all add: byte_def)
  then show ?thesis by (simp add: to_lower_def is_ascii_def ascii_lower_def byte_def)
qed

lemma sample_plain: "plain_text (credential_text sample_scope)" "plain_text sample_names"
  by (simp_all add: plain_text_def credential_text_def sample_scope_def sample_names_def AmzScopeTerminator_def
      is_ascii_def ascii_spaces_def byte_def)

lemma sample_components: "getAuthComponents sample_auth = Inr \<lparr>ac_presigned = False, ac_algorithm = AlgorithmV4,
    ac_credential = credential_text sample_scope, ac_signed_headers = sample_names, ac_signature = []\<rparr>"
  unfolding sample_auth_def
  by (rule getAuthComponents_text [OF sample_plain]) (simp_all add: plain_text_def get_first_with_auth)

lemma sample_time:
  assumes "elapsed now (Time 1577836800 0) = 0" and "nanos now = 0"
  shows "parseTimestamp http_time sample_auth False now = Inr (Time 1577836800 0)"
proof -
  have "time_sub now (Time 1577836800 0) = 0"
    using assms by (simp add: elapsed_def time_sub_def second_def min_duration_def max_duration_def)
  moreover have "get_first (req_header sample_post) ''X-Amz-Date'' = midnight"
    by (simp add: get_first_def sample_post_def)
  moreover have "midnight \<noteq> []" by (simp add: midnight_def)
  ultimately show ?thesis
    unfolding sample_auth_def parseTimestamp_with_auth
    by (simp add: parseTimestamp_def request_time_def parse_midnight duration_abs_def MaxClockSkew_def)
qed

definition sample_hash :: string where "sample_hash = hex_encode (sha256 ''abc'')"

definition sample_parsed :: "unicode \<Rightarrow> signed_request" where
  "sample_parsed U = \<lparr>sr_canonical = \<lparr>cr_method = ''POST'', cr_uri = percent_escape [] True @ ''/'' @ percent_escape [] True,
       cr_query = [], cr_headers = snapshot_headers U sample_auth, cr_signed = [''host'', ''x-amz-date''],
       cr_content_hash = sample_hash, cr_mode = []\<rparr>,
     sr_credential = sample_scope, sr_algorithm = AlgorithmV4, sr_timestamp = Time 1577836800 0, sr_signature = [],
     sr_req = Some sample_auth\<rparr>"

lemma sample_body: "req_body sample_auth = Stream ''abc'' None" "sample_auth\<lparr>req_body := Stream ''abc'' None\<rparr> = sample_auth"
  by (simp_all add: sample_auth_def with_auth_def sample_post_def)

lemma sample_lower: "to_lower U ''host'' = ''host''" "to_lower U ''x-amz-date'' = ''x-amz-date''"
  by (simp_all add: to_lower_def is_ascii_def ascii_lower_def byte_def)

lemma sample_signed_names: "remdups (map (to_lower U) (split_byte CHR '';'' sample_names)) = [''host'', ''x-amz-date'']"
  by (simp add: sample_names_def sample_lower)

lemma sample_headers_parse:
  "parseHeaders U sample_auth sample_names = Inr (snapshot_headers U sample_auth, [''host'', ''x-amz-date''])"
proof -
  have "fst ` set (snapshot_headers U sample_auth) = {''host'', ''authorization'', ''x-amz-date''}"
    by (auto simp: snapshot_names sample_auth_def with_auth_def sample_post_def lower_authorization lower_x_amz_date)
  then show ?thesis
    unfolding parseHeaders_Inr sample_signed_names by (simp add: must_be_signed_def)
qed

lemma sample_parse: "Parse U percent_escape http_time (Time 1577836800 0) sample_auth = (Inr (sample_parsed U), sample_auth)"
proof -
  have "elapsed (Time 1577836800 0) (Time 1577836800 0) = 0" by (simp add: elapsed_def)
  note time = sample_time [OF this]
  have "parseCredential (credential_text sample_scope) (Time 1577836800 0) = Inr sample_scope"
  proof (rule parseCredential_text)
    have "civil_fields (Time 1577836800 0) = (int 2020, 1, 1, 0, 0, 0)"
      by (rule civil_fields_unique [OF midnight_valid]) (simp only: midnight_secs go_time.sel)
    then have "time_format AmzDateFormat (Time 1577836800 0) = take 8 midnight"
      by (subst format_amz(1) [of _ 2020 1 1 0 0 0]) (simp_all add: midnight_text amz_time_text_def amz_date_text_def del: padded.simps)
    then show "sc_date sample_scope = time_format AmzDateFormat (Time 1577836800 0)"
      by (simp add: sample_scope_def midnight_def)
  qed (simp_all add: sample_scope_def)
  moreover have "resolveContentHash sample_auth False ''iam'' = (Inr (sample_hash, []), sample_auth)"
    by (subst resolve_control_plane [OF _ sample_body(1)]) (simp_all add: MaxPayloadLen_def sample_body sample_hash_def)
  moreover have "req_method sample_auth = ''POST''" "req_path sample_auth = ''/''" "req_query sample_auth = []"
    by (simp_all add: sample_auth_def sample_post_def)
  moreover have "sc_service sample_scope = ''iam''" by (simp add: sample_scope_def)
  ultimately show ?thesis
    using time by (simp add: Parse_def sample_components parseCanonicalRequest_def sample_headers_parse
        sample_parsed_def parseURI_def parseQuery_def)
qed

theorem client_request_accepted_witness:
  "\<exists>r' q'. Parse no_unicode percent_escape (\<lambda>_. None) (Time 1577836800 0)
     (with_auth sample_post (authorization_text (credential_text sample_scope) sample_names
        (hex_encode (hmac_sha256 (buildSigningKey (sample_parsed no_unicode) ''k'')
           (buildStringToSign no_unicode percent_escape (sample_parsed no_unicode)))))) = (Inr r', q') \<and>
     sum.isl (Verify no_unicode percent_escape r' ''k'' ''eu'' ''iam'') = False"
proof -
  have "''authorization'' \<notin> set (map (to_lower no_unicode) (split_byte CHR '';'' sample_names))"
    by (simp add: sample_names_def sample_lower)
  moreover have "sc_region (sr_credential (sample_parsed no_unicode)) = ''eu''" "sc_service (sr_credential (sample_parsed no_unicode)) = ''iam''"
    by (simp_all add: sample_parsed_def sample_scope_def)
  moreover have "bindPayload no_unicode (sample_parsed no_unicode) = Inr Unchanged"
    by (simp add: bindPayload_def sample_parsed_def sample_scope_def)
  moreover have "Parse no_unicode percent_escape (\<lambda>_. None) (Time 1577836800 0)
      (with_auth sample_post (authorization_text (credential_text sample_scope) sample_names [])) =
      (Inr (sample_parsed no_unicode), sample_auth)"
    using sample_parse by (simp only: sample_auth_def)
  ultimately show ?thesis
    using client_request_accepted [OF _ sample_plain _ _ _ refl] by fastforce
qed

theorem accepted_time_window_witness:
  "\<bar>elapsed (Time 1577836800 0) (sr_timestamp (sample_parsed no_unicode))\<bar> \<le> MaxClockSkew"
  using accepted_time_window [OF sample_parse [of no_unicode "\<lambda>_. None"]] by (simp add: sample_components)

theorem required_headers_signed_witness:
  "''x-amz-date'' \<in> set (cr_signed (sr_canonical (sample_parsed no_unicode)))"
proof -
  have "''X-Amz-Date'' \<in> fst ` set (req_header sample_auth)"
    by (simp add: sample_auth_def with_auth_def sample_post_def)
  moreover have "must_be_signed (to_lower no_unicode ''X-Amz-Date'')"
    by (simp add: lower_x_amz_date must_be_signed_def)
  ultimately show ?thesis
    using required_headers_signed [OF sample_parse [of no_unicode "\<lambda>_. None"]] lower_x_amz_date by metis
qed

theorem parsed_request_safe_witness:
  "line_safe (sr_canonical (sample_parsed no_unicode)) \<and> scope_safe sample_scope"
proof -
  have "http_clean sample_auth" by (simp add: http_clean_def sample_auth_def sample_post_def no_newline_def)
  moreover have "auth_clean \<lparr>ac_presigned = False, ac_algorithm = AlgorithmV4,
      ac_credential = credential_text sample_scope, ac_signed_headers = sample_names, ac_signature = []\<rparr>"
    by (simp add: auth_clean_def sample_names_def no_newline_def credential_text_def sample_scope_def
        AmzScopeTerminator_def is_ascii_def byte_def)
  ultimately show ?thesis
    using parsed_request_safe [OF sample_parse [of no_unicode "\<lambda>_. None"] percent_escape_reserved _ sample_components]
    by (simp add: sample_parsed_def)
qed

theorem control_plane_body_hashed_witness:
  "sample_hash = hex_encode (sha256 ''abc'') \<and> bindPayload no_unicode (sample_parsed no_unicode) = Inr Unchanged"
  using control_plane_body_hashed [OF sample_parse [of no_unicode "\<lambda>_. None"] _ sample_body(1)]
  by (simp add: sample_parsed_def sample_scope_def)

theorem scope_date_roundtrip_witness:
  "\<exists>t. time_parse AmzTimeFormat midnight = Some t \<and> time_format AmzTimeFormat t = midnight"
  using scope_date_roundtrip [OF midnight_valid] unfolding midnight_text by blast

definition presigned_get :: http_request where
  "presigned_get = \<lparr>req_method = ''GET'', req_path = ''/b/k'',
     req_query = [(''X-Amz-Date'', [midnight]), (''X-Amz-Expires'', [''18446744074''])], req_header = [],
     req_host = ''s3'', req_length = 0, req_body = NoBody\<rparr>"

theorem presign_lifetime_limit_witness:
  "604800 < (18446744074 :: int) \<and>
   parseTimestamp (\<lambda>_. None) presigned_get True (Time 1577836800 0) \<noteq> Inl ErrMalformedPresignedURL"
proof -
  have "request_time (\<lambda>_. None) presigned_get True = Inr (Time 1577836800 0)"
    using parse_midnight by (simp add: request_time_def presigned_get_def get_first_def)
  moreover have "parse_int 64 (get_first (req_query presigned_get) ''X-Amz-Expires'') = Some 18446744074"
    by (simp add: presigned_get_def get_first_def parse_int_def digits_nat_def digit_val_def is_digit_def byte_def)
  ultimately show ?thesis
    using presign_lifetime_limit [of "\<lambda>_. None" presigned_get "Time 1577836800 0" 18446744074 "Time 1577836800 0"]
    by (simp add: MaxPresignAge_def)
qed

end
