(* ===== verification/RateLimit.thy ===== *)
theory RateLimit
  imports GoStrings
begin

text \<open>
  \<^verbatim>\<open>pkg/ratelimit\<close>: the limits of an action (\<^verbatim>\<open>config.go\<close>), the table of limiters with its eviction, and
  the middleware (\<^verbatim>\<open>ratelimit.go\<close>). A token bucket of \<^verbatim>\<open>golang.org/x/time/rate\<close> is third-party code: its
  four operations are the parameter \<open>limiter_ops\<close>. Limiters are shared by pointer, so they live in a store
  and the table holds their addresses. Concurrent requests run \<open>getOrCreate\<close> in atomic steps, one per
  critical section, interleaved with each other, with the sweeps of the collector and with the use of the
  limiters. Times are nanoseconds since the epoch; logging is left out.
\<close>

section \<open>Configuration\<close>

record bucket_config =
  bc_rate :: int
  bc_burst :: int

record throttle_config =
  tc_enabled :: bool
  tc_rate :: int
  tc_burst :: int
  tc_action :: "string \<Rightarrow> bucket_config option"

definition ResolveLimit :: "throttle_config \<Rightarrow> string \<Rightarrow> int \<times> int" where
  "ResolveLimit c action =
     (case tc_action c action of
        Some override \<Rightarrow> (bc_rate override, bc_burst override)
      | None \<Rightarrow> (tc_rate c, tc_burst c))"

section \<open>Limiters and the table\<close>

text \<open>\<^verbatim>\<open>rate.NewLimiter\<close>, \<^verbatim>\<open>Reserve\<close>, \<^verbatim>\<open>Delay\<close> and \<^verbatim>\<open>Cancel\<close>, each reading the clock it is given.\<close>

record ('l, 'r) limiter_ops =
  lo_new :: "int \<Rightarrow> int \<Rightarrow> 'l"
  lo_reserve :: "int \<Rightarrow> 'l \<Rightarrow> 'r \<times> 'l"
  lo_delay :: "int \<Rightarrow> 'r \<Rightarrow> int"
  lo_cancel :: "int \<Rightarrow> 'r \<Rightarrow> 'l \<Rightarrow> 'l"

record entry =
  en_limiter :: nat
  en_lastSeen :: int

record 'l throttler =
  th_entries :: "string \<Rightarrow> entry option"
  th_store :: "nat \<Rightarrow> 'l"
  th_next :: nat

definition gcInterval :: int where "gcInterval = 60 * 1000000000"
definition staleAfter :: int where "staleAfter = 5 * 60 * 1000000000"

definition new_throttler :: "'l \<Rightarrow> 'l throttler" where
  "new_throttler l = \<lparr>th_entries = Map.empty, th_store = (\<lambda>_. l), th_next = 0\<rparr>"

text \<open>One tick of the collector: everything under the write lock.\<close>

definition sweep :: "int \<Rightarrow> 'l throttler \<Rightarrow> 'l throttler" where
  "sweep now th =
     (let cutoff = now - staleAfter in
      th\<lparr>th_entries := (\<lambda>key. case th_entries th key of
           None \<Rightarrow> None
         | Some e \<Rightarrow> if en_lastSeen e < cutoff then None else Some e)\<rparr>)"

section \<open>getOrCreate\<close>

text \<open>
  Where a request stands: it has entered, read the clock, missed under the read lock, made a limiter of its
  own, or returned with a limiter.
\<close>

datatype getter = Entered string string
  | Clocked string string int
  | Missed string string int
  | Created string string int nat
  | Returned string nat

definition touch :: "string \<Rightarrow> entry \<Rightarrow> int \<Rightarrow> 'l throttler \<Rightarrow> 'l throttler" where
  "touch key e now th = th\<lparr>th_entries := (th_entries th)(key \<mapsto> e\<lparr>en_lastSeen := now\<rparr>)\<rparr>"

fun getter_step :: "throttle_config \<Rightarrow> ('l, 'r) limiter_ops \<Rightarrow> int \<Rightarrow> getter \<times> 'l throttler \<Rightarrow> getter \<times> 'l throttler" where
  "getter_step cfg ops clock (Entered key action, th) = (Clocked key action clock, th)"
| "getter_step cfg ops clock (Clocked key action now, th) =
     (case th_entries th key of
        Some e \<Rightarrow> (Returned key (en_limiter e), touch key e now th)
      | None \<Rightarrow> (Missed key action now, th))"
| "getter_step cfg ops clock (Missed key action now, th) =
     (case ResolveLimit cfg action of (r, burst) \<Rightarrow>
        (Created key action now (th_next th),
         th\<lparr>th_store := (th_store th)(th_next th := lo_new ops r burst), th_next := Suc (th_next th)\<rparr>))"
| "getter_step cfg ops clock (Created key action now limiter, th) =
     (case th_entries th key of
        Some e \<Rightarrow> (Returned key (en_limiter e), touch key e now th)
      | None \<Rightarrow> (Returned key limiter,
          th\<lparr>th_entries := (th_entries th)(key \<mapsto> \<lparr>en_limiter = limiter, en_lastSeen = now\<rparr>)\<rparr>))"
| "getter_step cfg ops clock (Returned key limiter, th) = (Returned key limiter, th)"

text \<open>A request that nothing interrupts.\<close>

definition getOrCreate :: "throttle_config \<Rightarrow> ('l, 'r) limiter_ops \<Rightarrow> int \<Rightarrow> string \<Rightarrow> string \<Rightarrow> 'l throttler \<Rightarrow> nat \<times> 'l throttler" where
  "getOrCreate cfg ops now key action th =
     (case (getter_step cfg ops now ^^ 4) (Entered key action, th) of
        (Returned _ limiter, th') \<Rightarrow> (limiter, th')
      | (_, th') \<Rightarrow> (0, th'))"

section \<open>The middleware\<close>

text \<open>
  \<^verbatim>\<open>int(delay.Seconds())\<close>: the seconds and the fraction are added as 64-bit floats, which rounds up to the
  next second when the fraction is within half a unit of the last place: for \<open>2 ^ k \<le> sec < 2 ^ (k + 1)\<close> when
  the fraction, itself rounded to a multiple of \<open>2 ^ -53\<close>, is at least \<open>1 - 2 ^ (k - 53)\<close>.
\<close>

fun log2 :: "nat \<Rightarrow> nat" where
  "log2 n = (if n < 2 then 0 else Suc (log2 (n div 2)))"

declare log2.simps [simp del]

definition float_seconds :: "int \<Rightarrow> int" where
  "float_seconds d =
     (let sec = d div 1000000000; nsec = d mod 1000000000
      in if sec > 0 \<and> nsec * 2 ^ 54 > 1000000000 * (2 ^ 54 - 2 ^ (log2 (nat sec) + 1) - 1) then sec + 1 else sec)"

type_synonym 'q key_func = "'q \<Rightarrow> string option"

text \<open>The loop over the key functions: \<open>None\<close> is an early return that lets the request through.\<close>

fun key_parts :: "nat \<Rightarrow> 'q key_func list \<Rightarrow> 'q \<Rightarrow> string list option" where
  "key_parts i [] r = Some []"
| "key_parts i (kf # kfs) r =
     (case kf r of
        None \<Rightarrow> None
      | Some val \<Rightarrow> if i = 0 \<and> val = [] then None
          else (case key_parts (Suc i) kfs r of None \<Rightarrow> None | Some parts \<Rightarrow> Some (val # parts)))"

definition limit_action :: "string list \<Rightarrow> string" where
  "limit_action parts = (if length parts > 1 \<and> parts ! 1 \<noteq> [] then parts ! 1 else ''unknown'')"

definition limit_key :: "string list \<Rightarrow> string" where
  "limit_key parts = parts ! 0 @ '':'' @ limit_action parts"

text \<open>
  The request is served, answered with a Retry-After header, or the handler panics: with no key function
  at all \<^verbatim>\<open>parts[0]\<close> is out of range. \<open>clock i\<close> is the \<open>i\<close>-th reading of the clock.
\<close>

datatype outcome = Served | Throttled string | Panicked

definition Middleware ::
  "throttle_config \<Rightarrow> ('l, 'r) limiter_ops \<Rightarrow> (nat \<Rightarrow> int) \<Rightarrow> 'q key_func list \<Rightarrow> 'q \<Rightarrow> 'l throttler \<Rightarrow> outcome \<times> 'l throttler" where
  "Middleware cfg ops clock keyFuncs r th =
     (case key_parts 0 keyFuncs r of
        None \<Rightarrow> (Served, th)
      | Some parts \<Rightarrow>
          if parts = [] then (Panicked, th)
          else (case getOrCreate cfg ops (clock 0) (limit_key parts) (limit_action parts) th of
              (limiter, th1) \<Rightarrow>
                (case lo_reserve ops (clock 1) (th_store th1 limiter) of
                   (reservation, l1) \<Rightarrow>
                     let delay = lo_delay ops (clock 2) reservation
                     in if delay > 0 then
                          (Throttled (format_int (float_seconds delay + 1)),
                           th1\<lparr>th_store := (th_store th1)(limiter := lo_cancel ops (clock 3) reservation l1)\<rparr>)
                        else (Served, th1\<lparr>th_store := (th_store th1)(limiter := l1)\<rparr>))))"

section \<open>The uninterrupted request\<close>

lemma getOrCreate_hit:
  "th_entries th key = Some e \<Longrightarrow> getOrCreate cfg ops now key action th = (en_limiter e, touch key e now th)"
  by (simp add: getOrCreate_def numeral_eq_Suc)

lemma getOrCreate_miss:
  "th_entries th key = None \<Longrightarrow> getOrCreate cfg ops now key action th =
     (th_next th, th\<lparr>th_entries := (th_entries th)(key \<mapsto> \<lparr>en_limiter = th_next th, en_lastSeen = now\<rparr>),
        th_store := (th_store th)(th_next th := case ResolveLimit cfg action of (r, burst) \<Rightarrow> lo_new ops r burst),
        th_next := Suc (th_next th)\<rparr>)"
  by (cases th) (simp add: getOrCreate_def numeral_eq_Suc split: prod.split)

section \<open>The table as an interface\<close>

text \<open>
  What a client relies on: a lookup creates or finds the one limiter of its key and refreshes it; an eviction
  keeps every key seen within the window; different keys never share a limiter.
\<close>

datatype table_op = Lookup int string string | Evict int

locale limiter_table =
  fixes get :: "int \<Rightarrow> string \<Rightarrow> string \<Rightarrow> 't \<Rightarrow> nat \<times> 't"
    and evict :: "int \<Rightarrow> 't \<Rightarrow> 't"
    and limiter :: "'t \<Rightarrow> string \<Rightarrow> nat option"
    and seen :: "'t \<Rightarrow> string \<Rightarrow> int"
    and window :: int
    and inv :: "'t \<Rightarrow> bool"
  assumes inv_get: "inv t \<Longrightarrow> inv (snd (get now key action t))"
    and inv_evict: "inv t \<Longrightarrow> inv (evict now t)"
    and get_limiter: "inv t \<Longrightarrow> limiter (snd (get now key action t)) key = Some (fst (get now key action t))"
    and get_found: "inv t \<Longrightarrow> limiter t key = Some l \<Longrightarrow> fst (get now key action t) = l"
    and get_seen: "inv t \<Longrightarrow> seen (snd (get now key action t)) key = now"
    and get_other: "inv t \<Longrightarrow> key \<noteq> key' \<Longrightarrow>
      limiter (snd (get now key action t)) key' = limiter t key' \<and> seen (snd (get now key action t)) key' = seen t key'"
    and evict_kept: "inv t \<Longrightarrow> limiter t key = Some l \<Longrightarrow> now - window \<le> seen t key \<Longrightarrow>
      limiter (evict now t) key = Some l \<and> seen (evict now t) key = seen t key"
    and distinct_limiters: "inv t \<Longrightarrow> limiter t key = Some l \<Longrightarrow> limiter t key' = Some l \<Longrightarrow> key = key'"
begin

definition apply_op :: "'t \<Rightarrow> table_op \<Rightarrow> 't" where
  "apply_op t op = (case op of Lookup now key action \<Rightarrow> snd (get now key action t) | Evict now \<Rightarrow> evict now t)"

definition timely :: "int \<Rightarrow> table_op \<Rightarrow> bool" where
  "timely t0 op = (case op of Lookup now key action \<Rightarrow> t0 \<le> now | Evict now \<Rightarrow> now \<le> t0 + window)"

lemma apply_keeps:
  assumes "inv t" and "limiter t key = Some l" and "t0 \<le> seen t key" and "timely t0 op"
  shows "inv (apply_op t op) \<and> limiter (apply_op t op) key = Some l \<and> t0 \<le> seen (apply_op t op) key"
proof (cases op)
  case (Lookup now key' action)
  show ?thesis
  proof (cases "key' = key")
    case True
    then show ?thesis
      using assms Lookup inv_get get_limiter get_found get_seen by (simp add: apply_op_def timely_def)
  next
    case False
    then show ?thesis using assms Lookup inv_get get_other by (simp add: apply_op_def)
  qed
next
  case (Evict now)
  then show ?thesis using assms inv_evict evict_kept [of t key l now] by (simp add: apply_op_def timely_def)
qed

lemma active_key:
  "inv t \<Longrightarrow> limiter t key = Some l \<Longrightarrow> t0 \<le> seen t key \<Longrightarrow> list_all (timely t0) ops \<Longrightarrow>
   fst (get now key action (foldl apply_op t ops)) = l"
proof (induction ops arbitrary: t)
  case Nil
  then show ?case by (simp add: get_found)
next
  case (Cons op ops)
  then show ?case using apply_keeps [of t key l t0 op] by simp
qed

lemma get_distinct:
  assumes "inv t" and "key \<noteq> key'" and "limiter t key' = Some l"
  shows "fst (get now key action t) \<noteq> l"
  using assms get_limiter [of t now key action] get_other [of t key key' now action]
    distinct_limiters [OF inv_get [OF assms(1), of now key action]] by metis

end

section \<open>The limiter table provides it\<close>

definition limiter_of :: "'l throttler \<Rightarrow> string \<Rightarrow> nat option" where
  "limiter_of th key = map_option en_limiter (th_entries th key)"

definition seen_of :: "'l throttler \<Rightarrow> string \<Rightarrow> int" where
  "seen_of th key = (case th_entries th key of Some e \<Rightarrow> en_lastSeen e | None \<Rightarrow> 0)"

text \<open>Every limiter in the table has been allocated, and belongs to one key.\<close>

definition table_wf :: "'l throttler \<Rightarrow> bool" where
  "table_wf th \<longleftrightarrow> (\<forall>key l. limiter_of th key = Some l \<longrightarrow> l < th_next th) \<and>
     (\<forall>key key' l. limiter_of th key = Some l \<longrightarrow> limiter_of th key' = Some l \<longrightarrow> key = key')"

lemma limiter_of_getOrCreate:
  "limiter_of (snd (getOrCreate cfg ops now key action th)) key' =
     (if key' = key then Some (fst (getOrCreate cfg ops now key action th)) else limiter_of th key')"
  by (cases "th_entries th key")
    (simp_all add: getOrCreate_hit getOrCreate_miss limiter_of_def touch_def)

lemma seen_of_getOrCreate:
  "seen_of (snd (getOrCreate cfg ops now key action th)) key' = (if key' = key then now else seen_of th key')"
  by (cases "th_entries th key")
    (simp_all add: getOrCreate_hit getOrCreate_miss seen_of_def touch_def)

lemma fst_getOrCreate:
  "fst (getOrCreate cfg ops now key action th) = (case limiter_of th key of Some l \<Rightarrow> l | None \<Rightarrow> th_next th)"
  by (cases "th_entries th key") (simp_all add: getOrCreate_hit getOrCreate_miss limiter_of_def)

lemma next_getOrCreate:
  "th_next (snd (getOrCreate cfg ops now key action th)) =
     (if limiter_of th key = None then Suc (th_next th) else th_next th)"
  by (cases "th_entries th key") (simp_all add: getOrCreate_hit getOrCreate_miss limiter_of_def touch_def)

lemma table_wf_getOrCreate:
  assumes "table_wf th"
  shows "table_wf (snd (getOrCreate cfg ops now key action th))"
proof (cases "limiter_of th key")
  case None
  then show ?thesis using assms
    unfolding table_wf_def limiter_of_getOrCreate fst_getOrCreate next_getOrCreate
    by (auto split: if_splits dest: less_SucI)
next
  case (Some l)
  then show ?thesis using assms
    unfolding table_wf_def limiter_of_getOrCreate fst_getOrCreate next_getOrCreate
    by (auto split: if_splits)
qed

lemma limiter_of_sweep:
  "limiter_of (sweep now th) key = (if seen_of th key < now - staleAfter then None else limiter_of th key)
   \<or> limiter_of th key = None \<and> limiter_of (sweep now th) key = None"
  by (cases "th_entries th key") (auto simp: limiter_of_def seen_of_def sweep_def Let_def)

lemma table_wf_sweep: "table_wf th \<Longrightarrow> table_wf (sweep now th)"
proof -
  have "limiter_of (sweep now th) key = Some l \<Longrightarrow> limiter_of th key = Some l" for key l
    using limiter_of_sweep [of now th key] by (auto split: if_splits)
  moreover have "th_next (sweep now th) = th_next th" by (simp add: sweep_def Let_def)
  ultimately show "table_wf th \<Longrightarrow> ?thesis" unfolding table_wf_def by metis
qed

interpretation lt: limiter_table "getOrCreate cfg ops" sweep limiter_of seen_of staleAfter table_wf
  for cfg :: throttle_config and ops :: "('l, 'r) limiter_ops"
proof
  fix t :: "'l throttler" and now key key' action l
  show "table_wf t \<Longrightarrow> limiter_of t key = Some l \<Longrightarrow> fst (getOrCreate cfg ops now key action t) = l"
    by (simp add: fst_getOrCreate)
  show "table_wf t \<Longrightarrow> limiter_of t key = Some l \<Longrightarrow> now - staleAfter \<le> seen_of t key \<Longrightarrow>
      limiter_of (sweep now t) key = Some l \<and> seen_of (sweep now t) key = seen_of t key"
    by (auto simp: limiter_of_def seen_of_def sweep_def Let_def split: option.splits)
  show "table_wf t \<Longrightarrow> limiter_of t key = Some l \<Longrightarrow> limiter_of t key' = Some l \<Longrightarrow> key = key'"
    unfolding table_wf_def by blast
qed (simp_all add: table_wf_getOrCreate table_wf_sweep limiter_of_getOrCreate seen_of_getOrCreate)

section \<open>Concurrent requests\<close>

text \<open>Requests are numbered; each is somewhere in \<open>getOrCreate\<close>. Using a limiter changes its state at will.\<close>

record 'l system =
  sy_table :: "'l throttler"
  sy_getters :: "nat \<Rightarrow> getter"

datatype 'l event = Run nat int | Collect int | Use nat 'l

fun exec :: "throttle_config \<Rightarrow> ('l, 'r) limiter_ops \<Rightarrow> 'l event \<Rightarrow> 'l system \<Rightarrow> 'l system" where
  "exec cfg ops (Run i clock) s =
     (case getter_step cfg ops clock (sy_getters s i, sy_table s) of
        (g, th) \<Rightarrow> s\<lparr>sy_table := th, sy_getters := (sy_getters s)(i := g)\<rparr>)"
| "exec cfg ops (Collect now) s = s\<lparr>sy_table := sweep now (sy_table s)\<rparr>"
| "exec cfg ops (Use limiter l) s = s\<lparr>sy_table := (sy_table s)\<lparr>th_store := (th_store (sy_table s))(limiter := l)\<rparr>\<rparr>"

definition execs :: "throttle_config \<Rightarrow> ('l, 'r) limiter_ops \<Rightarrow> 'l event list \<Rightarrow> 'l system \<Rightarrow> 'l system" where
  "execs cfg ops evs s = foldl (\<lambda>s ev. exec cfg ops ev s) s evs"

inductive reachable :: "throttle_config \<Rightarrow> ('l, 'r) limiter_ops \<Rightarrow> 'l system \<Rightarrow> bool" for cfg ops where
  start: "\<forall>i. \<exists>key action. getters i = Entered key action \<Longrightarrow>
    reachable cfg ops \<lparr>sy_table = new_throttler l, sy_getters = getters\<rparr>"
| step: "reachable cfg ops s \<Longrightarrow> reachable cfg ops (exec cfg ops ev s)"

inductive_cases reachableE: "reachable cfg ops s"

section \<open>What the table promises\<close>

text \<open>
  The specification: a map from keys to limiters, changed in single steps: a key without a limiter gets one
  that no other key has, or keys lose theirs.
\<close>

inductive table_spec :: "(string \<Rightarrow> nat option) \<Rightarrow> (string \<Rightarrow> nat option) \<Rightarrow> bool" where
  stutter: "table_spec m m"
| create: "m key = None \<Longrightarrow> l \<notin> ran m \<Longrightarrow> table_spec m (m(key \<mapsto> l))"
| evict: "m' \<subseteq>\<^sub>m m \<Longrightarrow> table_spec m m'"

definition table_map :: "'l system \<Rightarrow> string \<Rightarrow> nat option" where
  "table_map s = limiter_of (sy_table s)"

text \<open>A limiter made under no lock is known to its request only.\<close>

definition system_inv :: "'l system \<Rightarrow> bool" where
  "system_inv s \<longleftrightarrow> table_wf (sy_table s) \<and>
     (\<forall>i key action now l. sy_getters s i = Created key action now l \<longrightarrow>
        l < th_next (sy_table s) \<and> l \<notin> ran (table_map s) \<and>
        (\<forall>j key' action' now'. sy_getters s j = Created key' action' now' l \<longrightarrow> j = i))"

lemma limiter_of_touch: "th_entries th key = Some e \<Longrightarrow> limiter_of (touch key e now th) = limiter_of th"
  by (auto simp: limiter_of_def touch_def)

lemma table_wf_cong: "limiter_of th' = limiter_of th \<Longrightarrow> th_next th \<le> th_next th' \<Longrightarrow> table_wf th \<Longrightarrow> table_wf th'"
  unfolding table_wf_def by (metis less_le_trans)

lemma limiter_of_store: "limiter_of (th\<lparr>th_store := f\<rparr>) = limiter_of th"
  "limiter_of (th\<lparr>th_store := f, th_next := n\<rparr>) = limiter_of th"
  by (simp_all add: limiter_of_def [abs_def])

lemma limiter_of_insert:
  "limiter_of (th\<lparr>th_entries := (th_entries th)(key \<mapsto> \<lparr>en_limiter = l, en_lastSeen = now\<rparr>)\<rparr>) = (limiter_of th)(key \<mapsto> l)"
  by (auto simp: limiter_of_def)

lemma table_wf_insert:
  assumes "table_wf th" and "l < th_next th" and "l \<notin> ran (limiter_of th)"
  shows "table_wf (th\<lparr>th_entries := (th_entries th)(key \<mapsto> \<lparr>en_limiter = l, en_lastSeen = now\<rparr>)\<rparr>)"
  using assms unfolding table_wf_def limiter_of_insert by (auto simp: ran_def)

text \<open>One lemma per place where a request can stand.\<close>

definition step_ok :: "'l system \<Rightarrow> 'l system \<Rightarrow> nat \<Rightarrow> bool" where
  "step_ok s s' i \<longleftrightarrow> system_inv s' \<and> table_spec (table_map s) (table_map s') \<and>
     (\<forall>key l. sy_getters s' i = Returned key l \<longrightarrow> sy_getters s i \<noteq> Returned key l \<longrightarrow> table_map s' key = Some l)"

lemma found_ok:
  assumes inv: "system_inv s" and e: "th_entries (sy_table s) key = Some e"
    and old: "\<forall>k l. sy_getters s i \<noteq> Returned k l"
  shows "step_ok s (s\<lparr>sy_table := touch key e now (sy_table s),
     sy_getters := (sy_getters s)(i := Returned key (en_limiter e))\<rparr>) i"
proof -
  let ?th = "touch key e now (sy_table s)"
  have lim: "limiter_of ?th = limiter_of (sy_table s)" by (rule limiter_of_touch [OF e])
  moreover have n: "th_next ?th = th_next (sy_table s)" by (simp add: touch_def)
  ultimately have "table_wf ?th" using inv table_wf_cong [OF lim] by (simp add: system_inv_def)
  moreover have "limiter_of (sy_table s) key = Some (en_limiter e)" by (simp add: limiter_of_def e)
  ultimately show ?thesis
    using inv lim n old by (auto simp: step_ok_def system_inv_def table_map_def intro: stutter)
qed

lemma created_ok:
  assumes inv: "system_inv s" and g: "sy_getters s i = Missed key action now"
  shows "step_ok s (s\<lparr>sy_table := (sy_table s)\<lparr>th_store := f, th_next := Suc (th_next (sy_table s))\<rparr>,
     sy_getters := (sy_getters s)(i := Created key action now (th_next (sy_table s)))\<rparr>) i"
proof -
  let ?th = "(sy_table s)\<lparr>th_store := f, th_next := Suc (th_next (sy_table s))\<rparr>"
  have lim: "limiter_of ?th = limiter_of (sy_table s)" by (rule limiter_of_store)
  then have "table_wf ?th" using inv table_wf_cong [OF lim] by (simp add: system_inv_def)
  moreover have "th_next (sy_table s) \<notin> ran (limiter_of (sy_table s))"
    using inv unfolding system_inv_def table_wf_def ran_def by blast
  moreover have "sy_getters s j \<noteq> Created k a t (th_next (sy_table s))" for j k a t
    using inv unfolding system_inv_def by (metis less_irrefl)
  ultimately show ?thesis
    using inv unfolding step_ok_def system_inv_def table_map_def
    by (auto simp: lim intro: stutter less_SucI)
qed

lemma inserted_ok:
  assumes inv: "system_inv s" and g: "sy_getters s i = Created key action now l"
    and none: "th_entries (sy_table s) key = None"
  shows "step_ok s (s\<lparr>sy_table := (sy_table s)\<lparr>th_entries := (th_entries (sy_table s))(key \<mapsto> \<lparr>en_limiter = l, en_lastSeen = now\<rparr>)\<rparr>,
     sy_getters := (sy_getters s)(i := Returned key l)\<rparr>) i"
proof -
  let ?th = "(sy_table s)\<lparr>th_entries := (th_entries (sy_table s))(key \<mapsto> \<lparr>en_limiter = l, en_lastSeen = now\<rparr>)\<rparr>"
  have l: "l < th_next (sy_table s)" "l \<notin> ran (limiter_of (sy_table s))"
    "\<And>j k a t. sy_getters s j = Created k a t l \<Longrightarrow> j = i"
    using inv g unfolding system_inv_def table_map_def by blast+
  have wf: "table_wf ?th" using inv l by (intro table_wf_insert) (auto simp: system_inv_def)
  have n: "limiter_of (sy_table s) key = None" by (simp add: limiter_of_def none)
  have ran: "ran ((limiter_of (sy_table s))(key \<mapsto> l)) = insert l (ran (limiter_of (sy_table s)))"
    using n by (simp add: ran_map_upd)
  have "table_spec (limiter_of (sy_table s)) ((limiter_of (sy_table s))(key \<mapsto> l))"
    using n l(2) by (rule create)
  then show ?thesis
    using inv l wf unfolding step_ok_def system_inv_def table_map_def
    by (auto simp: limiter_of_insert ran)
qed

lemma silent_ok:
  assumes "system_inv s" and "\<forall>k a t l. g \<noteq> Created k a t l" and "\<forall>k l. g \<noteq> Returned k l"
  shows "step_ok s (s\<lparr>sy_getters := (sy_getters s)(i := g)\<rparr>) i"
  using assms by (auto simp: step_ok_def system_inv_def table_map_def intro: stutter)

lemma run_ok:
  assumes inv: "system_inv s"
  shows "step_ok s (exec cfg ops (Run i clock) s) i"
proof (cases "sy_getters s i")
  case (Entered key action)
  have "s\<lparr>sy_table := sy_table s, sy_getters := g\<rparr> = s\<lparr>sy_getters := g\<rparr>" for g by (cases s) simp
  then show ?thesis using silent_ok [OF inv, of "Clocked key action clock" i] Entered by simp
next
  case (Clocked key action now)
  show ?thesis
  proof (cases "th_entries (sy_table s) key")
    case None
    have "s\<lparr>sy_table := sy_table s, sy_getters := g\<rparr> = s\<lparr>sy_getters := g\<rparr>" for g by (cases s) simp
    then show ?thesis using silent_ok [OF inv, of "Missed key action now" i] Clocked None by simp
  next
    case (Some e)
    then show ?thesis using found_ok [OF inv Some, of i now] Clocked by simp
  qed
next
  case (Missed key action now)
  then show ?thesis using created_ok [OF inv Missed] by (simp split: prod.split)
next
  case (Created key action now l)
  show ?thesis
  proof (cases "th_entries (sy_table s) key")
    case None
    then show ?thesis using inserted_ok [OF inv Created None] Created by simp
  next
    case (Some e)
    then show ?thesis using found_ok [OF inv Some, of i now] Created by simp
  qed
next
  case (Returned key l)
  have "s\<lparr>sy_table := sy_table s, sy_getters := (sy_getters s)(i := Returned key l)\<rparr> = s"
    using Returned by (cases s) (simp add: fun_upd_idem)
  then show ?thesis using inv Returned by (simp add: step_ok_def stutter)
qed

lemma sweep_map: "limiter_of (sweep now th) \<subseteq>\<^sub>m limiter_of th"
  by (auto simp: map_le_def limiter_of_def sweep_def Let_def split: option.splits if_splits)

lemma collect_ok:
  assumes inv: "system_inv s"
  shows "system_inv (exec cfg ops (Collect now) s) \<and> table_spec (table_map s) (table_map (exec cfg ops (Collect now) s))"
proof -
  have "ran (limiter_of (sweep now (sy_table s))) \<subseteq> ran (limiter_of (sy_table s))"
  proof
    fix l assume "l \<in> ran (limiter_of (sweep now (sy_table s)))"
    then obtain key where "limiter_of (sweep now (sy_table s)) key = Some l" by (auto simp: ran_def)
    then have "limiter_of (sy_table s) key = Some l"
      using sweep_map [of now "sy_table s"] unfolding map_le_def by (metis domI)
    then show "l \<in> ran (limiter_of (sy_table s))" by (rule ranI)
  qed
  moreover have "th_next (sweep now (sy_table s)) = th_next (sy_table s)" by (simp add: sweep_def Let_def)
  ultimately show ?thesis
    using inv table_wf_sweep [of "sy_table s" now] sweep_map [of now "sy_table s"]
    by (auto simp: system_inv_def table_map_def intro: evict)
qed

lemma use_ok:
  assumes inv: "system_inv s"
  shows "system_inv (exec cfg ops (Use i l) s) \<and> table_map (exec cfg ops (Use i l) s) = table_map s"
proof -
  let ?th = "(sy_table s)\<lparr>th_store := (th_store (sy_table s))(i := l)\<rparr>"
  have "limiter_of ?th = limiter_of (sy_table s)" by (rule limiter_of_store)
  moreover from this have "table_wf ?th" using inv table_wf_cong [of ?th "sy_table s"] by (simp add: system_inv_def)
  ultimately show ?thesis using inv by (simp add: system_inv_def table_map_def)
qed

lemma exec_ok:
  assumes "system_inv s"
  shows "system_inv (exec cfg ops ev s) \<and> table_spec (table_map s) (table_map (exec cfg ops ev s)) \<and>
    (\<forall>i key l. sy_getters (exec cfg ops ev s) i = Returned key l \<longrightarrow> sy_getters s i \<noteq> Returned key l \<longrightarrow>
       table_map (exec cfg ops ev s) key = Some l)"
proof (cases ev)
  case (Run i clock)
  have "sy_getters (exec cfg ops (Run i clock) s) j = sy_getters s j" if "j \<noteq> i" for j
    using that by (simp split: prod.split)
  then show ?thesis using run_ok [OF assms, of cfg ops i clock] unfolding Run step_ok_def by metis
next
  case (Collect now)
  then show ?thesis using collect_ok [OF assms, of cfg ops now] by simp
next
  case (Use i l)
  then show ?thesis using use_ok [OF assms, of cfg ops i l] by (simp add: stutter)
qed

lemma reachable_inv: "reachable cfg ops s \<Longrightarrow> system_inv s"
proof (induction rule: reachable.induct)
  case (start getters l)
  have "getters i \<noteq> Created k a t n" for i k a t n
    using start by (metis getter.distinct(5))
  then show ?case by (simp add: system_inv_def table_wf_def new_throttler_def limiter_of_def)
next
  case (step s ev)
  then show ?case using exec_ok by blast
qed

section \<open>Progress\<close>

definition rank :: "getter \<Rightarrow> nat" where
  "rank g = (case g of Entered _ _ \<Rightarrow> 4 | Clocked _ _ _ \<Rightarrow> 3 | Missed _ _ _ \<Rightarrow> 2 | Created _ _ _ _ \<Rightarrow> 1 | Returned _ _ \<Rightarrow> 0)"

lemma getter_step_rank: "rank (fst (getter_step cfg ops clock (g, th))) \<le> rank g - 1"
  by (cases g) (auto simp: rank_def split: option.split prod.split)

definition runs_of :: "nat \<Rightarrow> 'l event list \<Rightarrow> nat" where
  "runs_of i evs = length (filter (\<lambda>ev. case ev of Run j _ \<Rightarrow> j = i | _ \<Rightarrow> False) evs)"

lemma exec_rank: "rank (sy_getters (exec cfg ops ev s) i) \<le> rank (sy_getters s i) - runs_of i [ev]"
proof (cases ev)
  case (Run j clock)
  then show ?thesis
    using getter_step_rank [of cfg ops clock "sy_getters s i" "sy_table s"]
    by (auto simp: runs_of_def split: prod.splits)
qed (simp_all add: runs_of_def)

lemma execs_rank: "rank (sy_getters (execs cfg ops evs s) i) \<le> rank (sy_getters s i) - runs_of i evs"
proof (induction evs arbitrary: s)
  case (Cons ev evs)
  have "runs_of i (ev # evs) = runs_of i [ev] + runs_of i evs" by (simp add: runs_of_def)
  moreover have "rank (sy_getters (execs cfg ops evs (exec cfg ops ev s)) i) \<le>
      rank (sy_getters (exec cfg ops ev s) i) - runs_of i evs" by (rule Cons.IH)
  ultimately show ?case using exec_rank [of cfg ops ev s i] by (simp add: execs_def)
qed (simp add: execs_def runs_of_def)

lemma rank_0: "rank g = 0 \<longleftrightarrow> (\<exists>key l. g = Returned key l)"
  by (cases g) (auto simp: rank_def)

section \<open>A key that stays in the table\<close>

fun kept :: "throttle_config \<Rightarrow> ('l, 'r) limiter_ops \<Rightarrow> string \<Rightarrow> 'l event list \<Rightarrow> 'l system \<Rightarrow> bool" where
  "kept cfg ops key [] s \<longleftrightarrow> table_map s key \<noteq> None"
| "kept cfg ops key (ev # evs) s \<longleftrightarrow> table_map s key \<noteq> None \<and> kept cfg ops key evs (exec cfg ops ev s)"

lemma table_spec_kept: "table_spec m m' \<Longrightarrow> m key = Some l \<Longrightarrow> m' key \<noteq> None \<Longrightarrow> m' key = Some l"
  by (auto elim!: table_spec.cases simp: map_le_def dom_def split: if_splits)

lemma kept_limiter:
  "system_inv s \<Longrightarrow> table_map s key = Some l \<Longrightarrow> kept cfg ops key evs s \<Longrightarrow>
   \<forall>k. sy_getters s i \<noteq> Returned key k \<or> k = l \<Longrightarrow>
   table_map (execs cfg ops evs s) key = Some l \<and>
   (\<forall>k. sy_getters (execs cfg ops evs s) i = Returned key k \<longrightarrow> k = l)"
proof (induction evs arbitrary: s)
  case Nil
  then show ?case by (auto simp: execs_def)
next
  case (Cons ev evs)
  let ?s = "exec cfg ops ev s"
  note ok = exec_ok [OF Cons.prems(1), of cfg ops ev]
  have kept: "kept cfg ops key evs ?s" using Cons.prems(3) by simp
  then have "table_map ?s key \<noteq> None" by (cases evs) simp_all
  then have m: "table_map ?s key = Some l"
    using table_spec_kept ok Cons.prems(2) by blast
  have ret: "\<forall>k. sy_getters ?s i \<noteq> Returned key k \<or> k = l"
  proof
    fix k show "sy_getters ?s i \<noteq> Returned key k \<or> k = l"
    proof (cases "sy_getters ?s i = Returned key k \<and> sy_getters s i \<noteq> Returned key k")
      case True
      then have "table_map ?s key = Some k" using ok by blast
      then show ?thesis using m by simp
    next
      case False
      then show ?thesis using Cons.prems(4) by blast
    qed
  qed
  have "system_inv ?s" using ok by blast
  from Cons.IH [OF this m kept ret] show ?case by (simp add: execs_def)
qed

definition getter_key :: "getter \<Rightarrow> string" where
  "getter_key g = (case g of Entered key _ \<Rightarrow> key | Clocked key _ _ \<Rightarrow> key | Missed key _ _ \<Rightarrow> key
     | Created key _ _ _ \<Rightarrow> key | Returned key _ \<Rightarrow> key)"

lemma getter_step_key: "getter_key (fst (getter_step cfg ops clock (g, th))) = getter_key g"
  by (cases g) (auto simp: getter_key_def split: option.split prod.split)

lemma execs_key: "getter_key (sy_getters (execs cfg ops evs s) i) = getter_key (sy_getters s i)"
proof (induction evs arbitrary: s)
  case (Cons ev evs)
  have "getter_key (sy_getters (exec cfg ops ev s) i) = getter_key (sy_getters s i)"
  proof (cases ev)
    case (Run j clock)
    then show ?thesis
      using getter_step_key [of cfg ops clock "sy_getters s i" "sy_table s"] by (auto split: prod.splits)
  qed simp_all
  then show ?case using Cons.IH [of "exec cfg ops ev s"] by (simp add: execs_def)
qed (simp add: execs_def)

section \<open>The buckets behind the table\<close>

text \<open>What the clients can tell of the table: the bucket of each key.\<close>

definition buckets :: "'l throttler \<Rightarrow> string \<Rightarrow> 'l option" where
  "buckets th key = map_option (th_store th) (limiter_of th key)"

text \<open>The specification of a request: it works on the bucket of its key, made afresh if there is none.\<close>

definition bucket_request ::
  "throttle_config \<Rightarrow> ('l, 'r) limiter_ops \<Rightarrow> (nat \<Rightarrow> int) \<Rightarrow> string \<Rightarrow> string \<Rightarrow> (string \<Rightarrow> 'l option) \<Rightarrow> outcome \<times> (string \<Rightarrow> 'l option)" where
  "bucket_request cfg ops clock key action m =
     (let bucket = (case m key of Some l \<Rightarrow> l | None \<Rightarrow> (case ResolveLimit cfg action of (r, burst) \<Rightarrow> lo_new ops r burst));
          (reservation, reserved) = lo_reserve ops (clock 1) bucket;
          delay = lo_delay ops (clock 2) reservation
      in if delay > 0 then (Throttled (format_int (float_seconds delay + 1)), m(key \<mapsto> lo_cancel ops (clock 3) reservation reserved))
         else (Served, m(key \<mapsto> reserved)))"

lemma buckets_getOrCreate:
  assumes "table_wf th"
  shows "buckets (snd (getOrCreate cfg ops now key action th)) =
    (buckets th)(key \<mapsto> th_store (snd (getOrCreate cfg ops now key action th)) (fst (getOrCreate cfg ops now key action th)))"
proof
  fix key'
  have store: "th_store (snd (getOrCreate cfg ops now key action th)) l = th_store th l" if "l < th_next th" for l
    using that by (cases "th_entries th key") (simp_all add: getOrCreate_hit getOrCreate_miss touch_def)
  have "l < th_next th" if "limiter_of th key' = Some l" for l
    using that assms unfolding table_wf_def by blast
  then show "buckets (snd (getOrCreate cfg ops now key action th)) key' =
      ((buckets th)(key \<mapsto> th_store (snd (getOrCreate cfg ops now key action th)) (fst (getOrCreate cfg ops now key action th)))) key'"
    using store by (cases "limiter_of th key'") (simp_all add: buckets_def limiter_of_getOrCreate)
qed

lemma store_getOrCreate:
  "th_store (snd (getOrCreate cfg ops now key action th)) (fst (getOrCreate cfg ops now key action th)) =
     (case buckets th key of Some l \<Rightarrow> l | None \<Rightarrow> (case ResolveLimit cfg action of (r, burst) \<Rightarrow> lo_new ops r burst))"
  by (cases "th_entries th key")
    (simp_all add: getOrCreate_hit getOrCreate_miss touch_def buckets_def limiter_of_def)

lemma buckets_store:
  assumes "table_wf th" and "limiter_of th key = Some l"
  shows "buckets (th\<lparr>th_store := (th_store th)(l := b)\<rparr>) = (buckets th)(key \<mapsto> b)"
    and "table_wf (th\<lparr>th_store := (th_store th)(l := b)\<rparr>)"
proof -
  have lim: "limiter_of (th\<lparr>th_store := f\<rparr>) = limiter_of th" for f by (rule limiter_of_store)
  show "buckets (th\<lparr>th_store := (th_store th)(l := b)\<rparr>) = (buckets th)(key \<mapsto> b)"
  proof
    fix key'
    have "limiter_of th key' = Some l \<longleftrightarrow> key' = key" using assms unfolding table_wf_def by blast
    then show "buckets (th\<lparr>th_store := (th_store th)(l := b)\<rparr>) key' = ((buckets th)(key \<mapsto> b)) key'"
      using assms(2) by (cases "limiter_of th key'") (auto simp: buckets_def lim)
  qed
  show "table_wf (th\<lparr>th_store := (th_store th)(l := b)\<rparr>)"
    by (rule table_wf_cong [OF lim _ assms(1)]) simp
qed

lemma Middleware_buckets:
  assumes wf: "table_wf th" and parts: "key_parts 0 keyFuncs r = Some parts" "parts \<noteq> []"
    and run: "Middleware cfg ops clock keyFuncs r th = (out, th')"
  shows "table_wf th' \<and> (out, buckets th') = bucket_request cfg ops clock (limit_key parts) (limit_action parts) (buckets th)"
proof -
  let ?key = "limit_key parts" and ?action = "limit_action parts"
  obtain l th1 where g: "getOrCreate cfg ops (clock 0) ?key ?action th = (l, th1)" by fastforce
  have wf1: "table_wf th1" using table_wf_getOrCreate [OF wf] g by (metis snd_conv)
  have lim: "limiter_of th1 ?key = Some l" using limiter_of_getOrCreate [of cfg ops "clock 0" ?key ?action th ?key] by (simp add: g)
  have b1: "buckets th1 = (buckets th)(?key \<mapsto> th_store th1 l)"
    using buckets_getOrCreate [OF wf, of cfg ops "clock 0" ?key ?action] by (simp add: g)
  have st: "th_store th1 l = (case buckets th ?key of Some l \<Rightarrow> l
      | None \<Rightarrow> (case ResolveLimit cfg ?action of (r, burst) \<Rightarrow> lo_new ops r burst))"
    using store_getOrCreate [of cfg ops "clock 0" ?key ?action th] by (simp add: g)
  obtain res l1 where r: "lo_reserve ops (clock 1) (th_store th1 l) = (res, l1)" by fastforce
  show ?thesis
    using run buckets_store [OF wf1 lim]
    by (auto simp: Middleware_def parts g r bucket_request_def st [symmetric] Let_def b1
        simp del: One_nat_def split: if_splits)
qed

section \<open>Retry-After\<close>

lemma log2_less: "0 < n \<Longrightarrow> n < 2 ^ k \<Longrightarrow> log2 n < k"
proof (induction n arbitrary: k rule: log2.induct)
  case (1 n)
  show ?case
  proof (cases "n < 2")
    case True
    then have "k \<noteq> 0" using 1 by (cases k) auto
    then show ?thesis using True by (subst log2.simps) simp
  next
    case False
    then obtain j where k: "k = Suc j" using 1 by (cases k) auto
    then have "n div 2 < 2 ^ j" using 1 by (simp add: less_mult_imp_div_less mult.commute)
    then have "log2 (n div 2) < j" using 1 False by simp
    then show ?thesis using False k by (subst log2.simps) simp
  qed
qed

lemma float_seconds_near: "d div 1000000000 \<le> float_seconds d \<and> float_seconds d \<le> d div 1000000000 + 1"
  by (simp add: float_seconds_def Let_def)

lemma float_seconds_exact:
  assumes "0 \<le> d" and "d < 2 ^ 24 * 1000000000"
  shows "float_seconds d = d div 1000000000"
proof -
  let ?sec = "d div 1000000000" and ?nsec = "d mod 1000000000"
  have "\<not> ?nsec * 2 ^ 54 > 1000000000 * (2 ^ 54 - 2 ^ (log2 (nat ?sec) + 1) - 1)" if "?sec > 0"
  proof -
    have "?sec < 2 ^ 24" using assms by (simp add: div_less_iff_less_mult)
    then have "nat ?sec < 2 ^ 24" using that by simp
    then have "log2 (nat ?sec) < 24" using that by (intro log2_less) simp_all
    then have "(2 :: int) ^ (log2 (nat ?sec) + 1) \<le> 2 ^ 24" by (intro power_increasing) simp_all
    moreover have "?nsec \<le> 999999999" using pos_mod_bound [of 1000000000 d] by simp
    ultimately show ?thesis by simp
  qed
  then show ?thesis by (auto simp: float_seconds_def Let_def)
qed

section \<open>Properties\<close>

text \<open>C21: The limiter table is linearizable: however concurrent requests, eviction sweeps and uses of limiters
  interleave, every atomic step changes the table as the specification allows (nothing, one fresh limiter for
  one key that has none, or removals), no two keys ever share a limiter, and a request that returns gets the
  limiter its key has in the table at that moment. The second look-up under the write lock is what makes this
  true.\<close>
theorem limiter_table_refines:
  assumes "reachable cfg ops s"
  shows "table_spec (table_map s) (table_map (exec cfg ops ev s)) \<and> table_wf (sy_table (exec cfg ops ev s)) \<and>
    (\<forall>i key l. sy_getters (exec cfg ops ev s) i = Returned key l \<longrightarrow> sy_getters s i \<noteq> Returned key l \<longrightarrow>
       table_map (exec cfg ops ev s) key = Some l)"
proof -
  have "system_inv (exec cfg ops ev s)" using exec_ok [OF reachable_inv [OF assms]] by blast
  then show ?thesis using exec_ok [OF reachable_inv [OF assms], of cfg ops ev] by (simp add: system_inv_def)
qed

text \<open>Concurrent requests for a key share its bucket: while the key stays in the table, every request for it that
  completes gets the one limiter the table had, even if it had missed and made a limiter of its own before, so
  racing requests cannot multiply the burst.\<close>
theorem concurrent_requests_share:
  assumes "reachable cfg ops s" and "table_map s key = Some l" and "kept cfg ops key evs s"
    and "\<forall>k l'. sy_getters s i \<noteq> Returned k l'" and "sy_getters (execs cfg ops evs s) i = Returned key l'"
  shows "l' = l"
proof -
  have "\<forall>k. sy_getters s i \<noteq> Returned key k \<or> k = l" using assms(4) by blast
  from kept_limiter [OF reachable_inv [OF assms(1)] assms(2,3) this] show ?thesis using assms(5) by blast
qed

text \<open>getOrCreate is wait-free: a request that gets to take four steps has returned with a limiter for its own key,
  whatever other requests and the collector do in between; no retry loop can starve it.\<close>
theorem getOrCreate_wait_free:
  assumes "4 \<le> runs_of i evs"
  shows "\<exists>l. sy_getters (execs cfg ops evs s) i = Returned (getter_key (sy_getters s i)) l"
proof -
  have "rank (sy_getters s i) \<le> 4" by (cases "sy_getters s i") (simp_all add: rank_def)
  then have "rank (sy_getters (execs cfg ops evs s) i) = 0"
    using assms execs_rank [of cfg ops evs s i] by linarith
  then obtain key l where r: "sy_getters (execs cfg ops evs s) i = Returned key l" by (auto simp: rank_0)
  then show ?thesis using execs_key [of cfg ops evs s i] by (simp add: getter_key_def)
qed

text \<open>C22: An active key keeps its bucket: between two requests for a key, any sweeps up to five minutes after the first
  one and any later requests for any keys leave the key its limiter, so the collector cannot hand an active
  client a full bucket.\<close>
theorem active_key_keeps_limiter:
  fixes ops :: "('l, 'r) limiter_ops"
  assumes "table_wf th" and "getOrCreate cfg ops t0 key action th = (l, th')"
    and "\<forall>op\<in>set tops. case op of Lookup now _ _ \<Rightarrow> t0 \<le> now | Evict now \<Rightarrow> now \<le> t0 + staleAfter"
  shows "fst (getOrCreate cfg ops t1 key action' (foldl (\<lambda>th op. case op of
      Lookup now key action \<Rightarrow> snd (getOrCreate cfg ops now key action th)
    | Evict now \<Rightarrow> sweep now th) th' tops)) = l"
proof -
  have th': "th' = snd (getOrCreate cfg ops t0 key action th)" "l = fst (getOrCreate cfg ops t0 key action th)"
    using assms(2) by simp_all
  have "list_all (lt.timely t0) tops"
    using assms(3) unfolding list_all_iff lt.timely_def by blast
  moreover have "lt.apply_op TYPE('r) cfg ops = (\<lambda>th op. case op of
      Lookup now key action \<Rightarrow> snd (getOrCreate cfg ops now key action th)
    | Evict now \<Rightarrow> sweep now th)"
    by (intro ext) (simp add: lt.apply_op_def)
  moreover have "table_wf th'" "limiter_of th' key = Some l" "t0 \<le> seen_of th' key"
    using assms(1) unfolding th' by (simp_all add: table_wf_getOrCreate limiter_of_getOrCreate seen_of_getOrCreate)
  ultimately show ?thesis using lt.active_key [of th' key l t0 tops cfg ops t1 action'] by simp
qed

text \<open>C23: The middleware refines a map of buckets: a request with a usable key is answered from the bucket of its own
  account and action, made with the limits of the action if there is none, is refused exactly when the
  reservation has to wait, then gives its tokens back, and leaves the buckets of all other keys as they were.\<close>
theorem Middleware_refines:
  assumes "table_wf th" and "key_parts 0 keyFuncs r = Some parts" and "parts \<noteq> []"
    and "Middleware cfg ops clock keyFuncs r th = (out, th')"
  shows "table_wf th' \<and> (out, buckets th') = bucket_request cfg ops clock (limit_key parts) (limit_action parts) (buckets th)"
  by (rule Middleware_buckets [OF assms])

text \<open>Retry-After is long enough and not much too long: the advertised whole number of seconds exceeds the delay, by
  two seconds at most, in spite of the rounding of the floating-point conversion, which does not occur at all
  below 194 days.\<close>
theorem retry_after_bounds:
  assumes "0 \<le> d"
  shows "d < (float_seconds d + 1) * 1000000000 \<and> (float_seconds d + 1) * 1000000000 \<le> d + 2 * 1000000000 \<and>
    (d < 2 ^ 24 * 1000000000 \<longrightarrow> (float_seconds d + 1) * 1000000000 \<le> d + 1000000000)"
proof -
  have d: "1000000000 * (d div 1000000000) \<le> d" "d < 1000000000 * (d div 1000000000) + 1000000000"
    by (simp_all add: minus_mod_eq_mult_div [symmetric])
  then show ?thesis
    using float_seconds_near [of d] float_seconds_exact [OF assms] by auto
qed

section \<open>Witnesses\<close>

text \<open>A bucket that counts tokens and owes a second per missing one.\<close>

definition token_ops :: "(int, int) limiter_ops" where
  "token_ops = \<lparr>lo_new = (\<lambda>rate burst. burst), lo_reserve = (\<lambda>now l. (l - 1, l - 1)),
     lo_delay = (\<lambda>now res. if res < 0 then - res * 1000000000 else 0), lo_cancel = (\<lambda>now res l. l + 1)\<rparr>"

definition token_config :: throttle_config where
  "token_config = \<lparr>tc_enabled = True, tc_rate = 1, tc_burst = 1, tc_action = Map.empty\<rparr>"

definition two_requests :: "int system" where
  "two_requests = \<lparr>sy_table = new_throttler 0, sy_getters = (\<lambda>_. Entered ''a:x'' ''x'')\<rparr>"

lemma two_reachable: "reachable cfg ops two_requests"
  unfolding two_requests_def by (rule reachable.start) simp

text \<open>Both requests miss and make a limiter; the first one inserts, the second one finds it.\<close>

definition race :: "int event list" where
  "race = [Run 0 1, Run 1 1, Run 0 1, Run 1 1, Run 0 1, Run 1 1, Run 0 1]"

lemmas race_simps = execs_def race_def two_requests_def new_throttler_def ResolveLimit_def token_config_def token_ops_def

lemma execs_append: "execs cfg ops (xs @ ys) s = execs cfg ops ys (execs cfg ops xs s)"
  by (simp add: execs_def)

lemma execs_reachable: "reachable cfg ops s \<Longrightarrow> reachable cfg ops (execs cfg ops evs s)"
proof (induction evs arbitrary: s)
  case (Cons ev evs)
  from Cons.IH [OF reachable.step [OF Cons.prems]] show ?case by (simp add: execs_def)
qed (simp add: execs_def)

lemma race_state:
  "table_map (execs token_config token_ops race two_requests) ''a:x'' = Some 0"
  "sy_getters (execs token_config token_ops race two_requests) 1 = Created ''a:x'' ''x'' 1 1"
  "sy_getters (execs token_config token_ops (race @ [Run 1 2]) two_requests) 1 = Returned ''a:x'' 0"
  "kept token_config token_ops ''a:x'' [Run 1 2] (execs token_config token_ops race two_requests)"
  by (simp_all add: race_simps table_map_def limiter_of_def touch_def)

theorem limiter_table_refines_witness:
  "table_wf (sy_table (exec token_config token_ops (Run 1 2) (execs token_config token_ops race two_requests)))"
  using limiter_table_refines [OF execs_reachable [OF two_reachable, of token_config token_ops race]] by blast

theorem concurrent_requests_share_witness:
  "sy_getters (execs token_config token_ops race two_requests) 1 = Created ''a:x'' ''x'' 1 1 \<and>
   sy_getters (execs token_config token_ops (race @ [Run 1 2]) two_requests) 1 = Returned ''a:x'' 0"
proof -
  have missed: "\<forall>k l'. sy_getters (execs token_config token_ops race two_requests) 1 \<noteq> Returned k l'"
    unfolding race_state(2) by simp
  obtain l where l: "sy_getters (execs token_config token_ops (race @ [Run 1 2]) two_requests) 1 = Returned ''a:x'' l"
    using race_state(3) by blast
  from concurrent_requests_share [OF execs_reachable [OF two_reachable] race_state(1) race_state(4) missed]
  have "l = 0" using l unfolding execs_append by blast
  then show ?thesis using race_state(2) l by simp
qed

theorem getOrCreate_wait_free_witness:
  "\<exists>l. sy_getters (execs token_config token_ops [Run 0 1, Collect 9, Run 0 2, Run 1 1, Run 0 3, Run 0 4] two_requests) 0 =
     Returned (getter_key (Entered ''a:x'' ''x'')) l"
  using getOrCreate_wait_free [of 0 "[Run 0 1, Collect 9, Run 0 2, Run 1 1, Run 0 3, Run 0 4]" token_config token_ops two_requests]
  by (simp add: runs_of_def two_requests_def)

lemma new_throttler_wf: "table_wf (new_throttler l)"
  by (simp add: table_wf_def new_throttler_def limiter_of_def)

theorem active_key_keeps_limiter_witness:
  "fst (getOrCreate token_config token_ops 400 ''a:x'' ''x''
     (sweep 300 (snd (getOrCreate token_config token_ops 200 ''b:x'' ''x''
        (snd (getOrCreate token_config token_ops 100 ''a:x'' ''x'' (new_throttler 0))))))) = 0"
proof -
  have "getOrCreate token_config token_ops 100 ''a:x'' ''x'' (new_throttler 0) =
      (0, snd (getOrCreate token_config token_ops 100 ''a:x'' ''x'' (new_throttler 0)))"
    by (simp add: getOrCreate_miss new_throttler_def)
  from active_key_keeps_limiter [OF new_throttler_wf this, of "[Lookup 200 ''b:x'' ''x'', Evict 300]" 400 "''x''"]
  show ?thesis by (simp add: staleAfter_def)
qed

theorem Middleware_refines_witness:
  "(fst (Middleware token_config token_ops (\<lambda>_. 0) [\<lambda>r. Some ''a'', \<lambda>r. Some ''x''] () (new_throttler 0)),
    buckets (snd (Middleware token_config token_ops (\<lambda>_. 0) [\<lambda>r. Some ''a'', \<lambda>r. Some ''x''] () (new_throttler 0)))) =
   (Served, [''a:x'' \<mapsto> 0])"
proof -
  let ?kfs = "[\<lambda>r. Some ''a'', \<lambda>r. Some ''x'']"
  let ?run = "Middleware token_config token_ops (\<lambda>_. 0) ?kfs () (new_throttler 0)"
  have empty: "buckets (new_throttler (0 :: int)) = Map.empty"
    by (rule ext) (simp add: buckets_def limiter_of_def new_throttler_def)
  have parts: "key_parts 0 ?kfs () = Some [''a'', ''x'']" by simp
  have run: "?run = (fst ?run, snd ?run)" by simp
  show ?thesis
    using Middleware_refines [OF new_throttler_wf parts _ run] empty
    by (simp add: bucket_request_def limit_key_def limit_action_def ResolveLimit_def token_config_def token_ops_def Let_def)
qed

theorem retry_after_bounds_witness:
  "1500000000 < (float_seconds 1500000000 + 1) * 1000000000"
  using retry_after_bounds [of 1500000000] by simp

end
