(* ===== verification/Collector.thy ===== *)
theory Collector
  imports RateLimit
begin

text \<open>
  The life of the eviction goroutine of \<^verbatim>\<open>pkg/ratelimit/ratelimit.go\<close>: \<^verbatim>\<open>New\<close> starts \<^verbatim>\<open>gc\<close>, any number of
  goroutines may call \<^verbatim>\<open>Stop\<close>, and requests go on using the table. The channels are flags (\<open>lc_cancelled\<close> for
  the context, \<open>lc_done\<close> for the closed \<^verbatim>\<open>done\<close>) and \<^verbatim>\<open>sync.Once\<close> is its three states; each rule of
  \<open>lifecycle_step\<close> is one blocking operation or one critical section of one goroutine.
\<close>

section \<open>State\<close>

text \<open>\<^verbatim>\<open>once.Do\<close>: not begun, running in one caller while the others wait, or over.\<close>

datatype once = Fresh | Running nat | Finished

text \<open>A caller of \<^verbatim>\<open>Stop\<close>: before \<^verbatim>\<open>once.Do\<close>, before \<^verbatim>\<open>cancel\<close>, before the receive from \<^verbatim>\<open>done\<close>, returned.\<close>

datatype stop_pc = Calling | Cancelling | Receiving | Stopped

record 'l lifecycle =
  lc_table :: "'l throttler"
  lc_cancelled :: bool
  lc_done :: bool
  lc_once :: once
  lc_callers :: "nat \<Rightarrow> stop_pc"

definition launch :: "'l \<Rightarrow> 'l lifecycle" where
  "launch l = \<lparr>lc_table = new_throttler l, lc_cancelled = False, lc_done = False, lc_once = Fresh,
     lc_callers = (\<lambda>_. Calling)\<rparr>"

section \<open>Steps\<close>

text \<open>One atomic operation of the \<open>i\<close>-th caller of \<^verbatim>\<open>Stop\<close>, where it does not block.\<close>

definition Stop_step :: "nat \<Rightarrow> 'l lifecycle \<Rightarrow> 'l lifecycle option" where
  "Stop_step i s =
     (case lc_callers s i of
        Calling \<Rightarrow>
          (case lc_once s of
             Fresh \<Rightarrow> Some (s\<lparr>lc_once := Running i, lc_callers := (lc_callers s)(i := Cancelling)\<rparr>)
           | Running _ \<Rightarrow> None
           | Finished \<Rightarrow> Some (s\<lparr>lc_callers := (lc_callers s)(i := Stopped)\<rparr>))
      | Cancelling \<Rightarrow> Some (s\<lparr>lc_cancelled := True, lc_callers := (lc_callers s)(i := Receiving)\<rparr>)
      | Receiving \<Rightarrow>
          (if lc_done s then Some (s\<lparr>lc_once := Finished, lc_callers := (lc_callers s)(i := Stopped)\<rparr>) else None)
      | Stopped \<Rightarrow> None)"

text \<open>
  One turn of the loop of \<^verbatim>\<open>gc\<close>: \<open>None\<close> for the tick picks the context, which returns and runs the deferred
  \<^verbatim>\<open>close(t.done)\<close>; with both ready \<^verbatim>\<open>select\<close> may pick either.
\<close>

definition gc_step :: "int option \<Rightarrow> 'l lifecycle \<Rightarrow> 'l lifecycle option" where
  "gc_step tick s =
     (if lc_done s then None
      else case tick of
          Some now \<Rightarrow> Some (s\<lparr>lc_table := sweep now (lc_table s)\<rparr>)
        | None \<Rightarrow> if lc_cancelled s then Some (s\<lparr>lc_done := True\<rparr>) else None)"

inductive shutdown_step :: "'l lifecycle \<Rightarrow> 'l lifecycle \<Rightarrow> bool" where
  caller: "Stop_step i s = Some s' \<Longrightarrow> shutdown_step s s'"
| leave: "gc_step None s = Some s' \<Longrightarrow> shutdown_step s s'"

inductive lifecycle_step :: "throttle_config \<Rightarrow> ('l, 'r) limiter_ops \<Rightarrow> 'l lifecycle \<Rightarrow> 'l lifecycle \<Rightarrow> bool" for cfg ops where
  shutdown: "shutdown_step s s' \<Longrightarrow> lifecycle_step cfg ops s s'"
| tick: "gc_step (Some now) s = Some s' \<Longrightarrow> lifecycle_step cfg ops s s'"
| request: "lifecycle_step cfg ops s (s\<lparr>lc_table := snd (getOrCreate cfg ops now key action (lc_table s))\<rparr>)"

inductive_cases shutdown_stepE: "shutdown_step s s'"
inductive_cases lifecycle_stepE: "lifecycle_step cfg ops s s'"

section \<open>Invariant\<close>

text \<open>
  The context is cancelled before the collector leaves; a caller inside \<^verbatim>\<open>once.Do\<close> is the one that runs it;
  a finished \<^verbatim>\<open>once\<close> or a returned caller means that the collector has left.
\<close>

definition lifecycle_inv :: "'l lifecycle \<Rightarrow> bool" where
  "lifecycle_inv s \<longleftrightarrow>
     (lc_done s \<longrightarrow> lc_cancelled s) \<and>
     (\<forall>i. lc_callers s i \<in> {Cancelling, Receiving} \<longleftrightarrow> lc_once s = Running i) \<and>
     (\<forall>i. lc_callers s i = Receiving \<longrightarrow> lc_cancelled s) \<and>
     (\<forall>i. lc_callers s i = Stopped \<longrightarrow> lc_once s = Finished) \<and>
     (lc_once s = Finished \<longrightarrow> lc_done s)"

lemma lifecycle_invD:
  assumes "lifecycle_inv s"
  shows "lc_callers s i = Receiving \<Longrightarrow> lc_cancelled s"
    and "lc_callers s i = Stopped \<Longrightarrow> lc_done s"
    and "lc_once s = Running i \<Longrightarrow> lc_callers s i = Cancelling \<or> lc_callers s i = Receiving"
  using assms unfolding lifecycle_inv_def by blast+

lemma Stop_step_inv:
  assumes "lifecycle_inv s" and "Stop_step i s = Some s'"
  shows "lifecycle_inv s'"
proof -
  have own: "lc_callers s i \<in> {Cancelling, Receiving} \<longleftrightarrow> lc_once s = Running i"
    using assms(1) by (simp add: lifecycle_inv_def)
  show ?thesis
  proof (cases "lc_once s = Running i")
    case True
    then show ?thesis
      using assms own unfolding Stop_step_def lifecycle_inv_def
      by (auto split: stop_pc.splits if_splits)
  next
    case False
    then show ?thesis
      using assms own unfolding Stop_step_def lifecycle_inv_def
      by (auto split: stop_pc.splits once.splits if_splits)
  qed
qed

lemma gc_step_inv: "lifecycle_inv s \<Longrightarrow> gc_step tick s = Some s' \<Longrightarrow> lifecycle_inv s'"
  unfolding gc_step_def lifecycle_inv_def by (auto split: option.splits if_splits)

lemma lifecycle_step_inv: "lifecycle_step cfg ops s s' \<Longrightarrow> lifecycle_inv s \<Longrightarrow> lifecycle_inv s'"
proof (induction rule: lifecycle_step.induct)
  case (shutdown s s')
  then show ?case by (auto elim!: shutdown_stepE intro: Stop_step_inv gc_step_inv)
next
  case (tick now s s')
  then show ?case by (blast intro: gc_step_inv)
next
  case (request s now key action)
  then show ?case by (simp add: lifecycle_inv_def)
qed

lemma lifecycle_reachable_inv:
  assumes "(lifecycle_step cfg ops)\<^sup>*\<^sup>* (launch l) s"
  shows "lifecycle_inv s"
  using assms
proof (induction rule: rtranclp_induct)
  case base
  show ?case by (simp add: lifecycle_inv_def launch_def)
next
  case (step s s')
  then show ?case by (blast intro: lifecycle_step_inv)
qed

section \<open>After Stop\<close>

lemma getOrCreate_keeps_keys:
  assumes "th_entries th k \<noteq> None"
  shows "th_entries (snd (getOrCreate cfg ops now key action th)) k \<noteq> None"
proof (cases "k = key")
  case True
  have "limiter_of (snd (getOrCreate cfg ops now key action th)) key \<noteq> None"
    by (simp add: limiter_of_getOrCreate)
  then show ?thesis using True by (auto simp: limiter_of_def split: option.splits)
next
  case False
  then show ?thesis
    using assms by (cases "th_entries th key") (simp_all add: getOrCreate_hit getOrCreate_miss touch_def Let_def split_def)
qed

lemma done_step:
  assumes "lifecycle_step cfg ops s s'" and "lc_done s"
  shows "lc_done s' \<and> (th_entries (lc_table s) k \<noteq> None \<longrightarrow> th_entries (lc_table s') k \<noteq> None)"
  using assms
proof (induction rule: lifecycle_step.induct)
  case (shutdown s s')
  then show ?case
    by (auto elim!: shutdown_stepE simp: Stop_step_def gc_step_def split: stop_pc.splits once.splits if_splits)
next
  case (tick now s s')
  then show ?case by (simp add: gc_step_def)
next
  case (request s now key action)
  then show ?case using getOrCreate_keeps_keys by (metis (no_types, lifting) lifecycle.select_convs(1,3) lifecycle.surjective lifecycle.update_convs(1))
qed

lemma done_steps:
  assumes "(lifecycle_step cfg ops)\<^sup>*\<^sup>* s s'" and "lc_done s" and "th_entries (lc_table s) k \<noteq> None"
  shows "lc_done s' \<and> th_entries (lc_table s') k \<noteq> None"
  using assms by (induction rule: rtranclp_induct) (use done_step in blast)+

section \<open>Stop returns\<close>

lemma caller_step: "Stop_step i s = Some s' \<Longrightarrow> shutdown_step\<^sup>*\<^sup>* s' t \<Longrightarrow> shutdown_step\<^sup>*\<^sup>* s t"
  by (meson converse_rtranclp_into_rtranclp shutdown_step.caller)

lemma receiving_returns:
  assumes "lifecycle_inv s" and "lc_callers s i = Receiving"
  shows "\<exists>s'. shutdown_step\<^sup>*\<^sup>* s s' \<and> lc_callers s' i = Stopped \<and> lc_once s' = Finished \<and>
    (\<forall>j. j \<noteq> i \<longrightarrow> lc_callers s' j = lc_callers s j)"
proof -
  let ?left = "s\<lparr>lc_done := True\<rparr>"
  let ?last = "?left\<lparr>lc_once := Finished, lc_callers := (lc_callers s)(i := Stopped)\<rparr>"
  have "shutdown_step\<^sup>*\<^sup>* s ?left"
  proof (cases "lc_done s")
    case True
    then have "?left = s" by simp
    then show ?thesis by simp
  next
    case False
    then have "gc_step None s = Some ?left" using lifecycle_invD(1) [OF assms] by (simp add: gc_step_def)
    then show ?thesis by (blast intro: shutdown_step.leave)
  qed
  moreover have "Stop_step i ?left = Some ?last" using assms(2) by (simp add: Stop_step_def)
  then have "shutdown_step ?left ?last" by (rule shutdown_step.caller)
  ultimately have "shutdown_step\<^sup>*\<^sup>* s ?last" by (rule rtranclp.rtrancl_into_rtrancl)
  then show ?thesis by (intro exI [of _ ?last]) simp
qed

lemma cancelling_returns:
  assumes "lifecycle_inv s" and "lc_callers s i = Cancelling"
  shows "\<exists>s'. shutdown_step\<^sup>*\<^sup>* s s' \<and> lc_callers s' i = Stopped \<and> lc_once s' = Finished \<and>
    (\<forall>j. j \<noteq> i \<longrightarrow> lc_callers s' j = lc_callers s j)"
proof -
  let ?s = "s\<lparr>lc_cancelled := True, lc_callers := (lc_callers s)(i := Receiving)\<rparr>"
  have c: "Stop_step i s = Some ?s" using assms(2) by (simp add: Stop_step_def)
  obtain s' where s': "shutdown_step\<^sup>*\<^sup>* ?s s'" "lc_callers s' i = Stopped" "lc_once s' = Finished"
      "\<forall>j. j \<noteq> i \<longrightarrow> lc_callers s' j = lc_callers ?s j"
    using receiving_returns [OF Stop_step_inv [OF assms(1) c], of i] by auto
  then show ?thesis using caller_step [OF c s'(1)] by auto
qed

lemma inside_returns:
  assumes "lifecycle_inv s" and "lc_once s = Running i"
  shows "\<exists>s'. shutdown_step\<^sup>*\<^sup>* s s' \<and> lc_callers s' i = Stopped \<and> lc_once s' = Finished \<and>
    (\<forall>j. j \<noteq> i \<longrightarrow> lc_callers s' j = lc_callers s j)"
proof -
  have "lc_callers s i = Cancelling \<or> lc_callers s i = Receiving"
    by (rule lifecycle_invD(3) [OF assms])
  then show ?thesis using receiving_returns cancelling_returns assms(1) by blast
qed

lemma finished_returns:
  assumes "lc_once s = Finished" and "lc_callers s i = Calling"
  shows "\<exists>s'. shutdown_step\<^sup>*\<^sup>* s s' \<and> lc_callers s' i = Stopped"
proof -
  let ?s = "s\<lparr>lc_callers := (lc_callers s)(i := Stopped)\<rparr>"
  have "Stop_step i s = Some ?s" using assms by (simp add: Stop_step_def)
  then have "shutdown_step\<^sup>*\<^sup>* s ?s" by (blast intro: shutdown_step.caller)
  then show ?thesis by (intro exI [of _ ?s]) simp
qed

lemma stop_returns:
  assumes "lifecycle_inv s"
  shows "\<exists>s'. shutdown_step\<^sup>*\<^sup>* s s' \<and> lc_callers s' i = Stopped"
proof (cases "lc_callers s i")
  case Calling
  show ?thesis
  proof (cases "lc_once s")
    case Fresh
    let ?s = "s\<lparr>lc_once := Running i, lc_callers := (lc_callers s)(i := Cancelling)\<rparr>"
    have e: "Stop_step i s = Some ?s" using Calling Fresh by (simp add: Stop_step_def)
    show ?thesis using cancelling_returns [OF Stop_step_inv [OF assms e], of i] caller_step [OF e] by auto
  next
    case (Running j)
    with Calling have ij: "i \<noteq> j" using lifecycle_invD(3) [OF assms, of j] by auto
    obtain s' where s': "shutdown_step\<^sup>*\<^sup>* s s'" "lc_once s' = Finished" "lc_callers s' i = Calling"
      using inside_returns [OF assms Running] ij Calling by metis
    then show ?thesis using finished_returns by (meson rtranclp_trans)
  next
    case Finished
    then show ?thesis using finished_returns Calling by blast
  qed
next
  case Stopped
  then show ?thesis by blast
qed (use receiving_returns cancelling_returns assms in blast)+

section \<open>Properties\<close>

text \<open>C26: Once any call of Stop has returned, the collector has exited for good: from then on no key is ever evicted,
  whatever requests and further Stop calls follow.\<close>
theorem stop_joins_collector:
  assumes "(lifecycle_step cfg ops)\<^sup>*\<^sup>* (launch l) s" and "lc_callers s i = Stopped"
    and "(lifecycle_step cfg ops)\<^sup>*\<^sup>* s s'" and "th_entries (lc_table s) k \<noteq> None"
  shows "lc_done s' \<and> th_entries (lc_table s') k \<noteq> None"
proof -
  have "lc_done s" using lifecycle_invD(2) [OF lifecycle_reachable_inv [OF assms(1)] assms(2)] .
  then show ?thesis using done_steps assms by blast
qed

text \<open>C27: Stop cannot deadlock: from every reachable state, with any number of concurrent callers, the remaining steps of
  the callers and the exit of the collector alone, no tick and no request, lead to a state where a given call
  has returned.\<close>
theorem stop_can_return:
  assumes "(lifecycle_step cfg ops)\<^sup>*\<^sup>* (launch l) s"
  shows "\<exists>s'. shutdown_step\<^sup>*\<^sup>* s s' \<and> lc_callers s' i = Stopped"
  by (rule stop_returns [OF lifecycle_reachable_inv [OF assms]])

section \<open>Witnesses\<close>

lemma step_shutdown: "Stop_step i s = Some s' \<or> gc_step None s = Some s' \<Longrightarrow> lifecycle_step cfg ops s s'"
  using lifecycle_step.shutdown shutdown_step.intros by blast

lemma request_then_stop:
  obtains s where "(lifecycle_step cfg ops)\<^sup>*\<^sup>* (launch 0) s" "lc_callers s 0 = Stopped"
    "th_entries (lc_table s) ''k'' \<noteq> None"
proof -
  let ?s0 = "(launch 0)\<lparr>lc_table := snd (getOrCreate cfg ops 0 ''k'' ''x'' (lc_table (launch 0)))\<rparr>"
  have r: "lifecycle_step cfg ops (launch 0) ?s0" by (rule lifecycle_step.request)
  obtain s where s: "shutdown_step\<^sup>*\<^sup>* ?s0 s" "lc_callers s 0 = Stopped"
    using stop_returns [OF lifecycle_reachable_inv [of cfg ops 0 ?s0]] r by blast
  have "limiter_of (lc_table ?s0) ''k'' \<noteq> None" by (simp add: limiter_of_getOrCreate)
  then have k: "th_entries (lc_table ?s0) ''k'' \<noteq> None" by (auto simp: limiter_of_def)
  have "(lifecycle_step cfg ops)\<^sup>*\<^sup>* ?s0 s \<and> lc_table s = lc_table ?s0"
    using s(1)
  proof (induction rule: rtranclp_induct)
    case (step y z)
    then have "lc_table z = lc_table y"
      by (auto elim!: shutdown_stepE simp: Stop_step_def gc_step_def split: stop_pc.splits once.splits if_splits)
    then show ?case using step lifecycle_step.shutdown by (metis rtranclp.rtrancl_into_rtrancl)
  qed simp
  then show ?thesis using that [of s] r s(2) k by (metis converse_rtranclp_into_rtranclp)
qed

theorem stop_joins_collector_witness:
  "\<exists>s. (lifecycle_step token_config token_ops)\<^sup>*\<^sup>* (launch 0) s \<and> lc_callers s 0 = Stopped \<and> lc_done s \<and>
     th_entries (lc_table s) ''k'' \<noteq> None"
proof -
  obtain s where "(lifecycle_step token_config token_ops)\<^sup>*\<^sup>* (launch 0) s" "lc_callers s 0 = Stopped"
    "th_entries (lc_table s) ''k'' \<noteq> None" by (rule request_then_stop)
  then show ?thesis using stop_joins_collector [of token_config token_ops 0 s 0 s "''k''"] by blast
qed

theorem stop_can_return_witness:
  "\<exists>s'. shutdown_step\<^sup>*\<^sup>* (launch (0 :: int)) s' \<and> lc_callers s' 7 = Stopped"
  using stop_can_return [of token_config token_ops 0 "launch 0" 7] by simp

end
