(* ===== verification/AesGcm.thy ===== *)
theory AesGcm
  imports GoStrings
begin

unbundle bit_operations_syntax

text \<open>
  The AEAD of Go's \<^verbatim>\<open>crypto/aes\<close> and \<^verbatim>\<open>crypto/cipher\<close> that the master key uses: AES with a 256-bit key
  (FIPS 197) in Galois/Counter mode with a 12-byte nonce and a 16-byte tag (NIST SP 800-38D). Bytes are
  natural numbers below 256. Only that sealing and opening are inverse to each other is proved of it.
\<close>

section \<open>The AES field\<close>

definition xtime :: "nat \<Rightarrow> nat" where
  "xtime a = (if 128 \<le> a then (2 * a - 256) XOR 27 else 2 * a)"

primrec field_mult :: "nat \<Rightarrow> nat \<Rightarrow> nat \<Rightarrow> nat" where
  "field_mult 0 a b = 0"
| "field_mult (Suc k) a b = (if odd b then a else 0) XOR field_mult k (xtime a) (b div 2)"

definition gf_mult :: "nat \<Rightarrow> nat \<Rightarrow> nat" where
  "gf_mult a b = field_mult 8 a b"

text \<open>The inverse is the 254th power.\<close>

definition gf_inverse :: "nat \<Rightarrow> nat" where
  "gf_inverse a = foldl (\<lambda>r bit. let s = gf_mult r r in if bit then gf_mult s a else s) 1
     [True, True, True, True, True, True, True, False]"

definition rotate_byte :: "nat \<Rightarrow> nat \<Rightarrow> nat" where
  "rotate_byte k a = (a * 2 ^ k) mod 256 + a div 2 ^ (8 - k)"

definition sub_byte :: "nat \<Rightarrow> nat" where
  "sub_byte a = (let i = gf_inverse a in
     i XOR rotate_byte 1 i XOR rotate_byte 2 i XOR rotate_byte 3 i XOR rotate_byte 4 i XOR 99)"

section \<open>Key schedule and rounds\<close>

text \<open>Words are lists of four bytes; the schedule grows at its end, eight words at first and 60 at last.\<close>

definition xor_bytes :: "nat list \<Rightarrow> nat list \<Rightarrow> nat list" where
  "xor_bytes xs ys = map2 (XOR) xs ys"

fun rows_of :: "nat list \<Rightarrow> nat list list" where
  "rows_of (a # b # c # d # s) = [a, b, c, d] # rows_of s"
| "rows_of s = []"

definition expand_word :: "nat list list \<Rightarrow> nat list list" where
  "expand_word ws =
     (let i = length ws; prev = last ws;
          t = (if i mod 8 = 0
               then xor_bytes (map sub_byte (tl prev @ [hd prev])) [(xtime ^^ (i div 8 - 1)) 1, 0, 0, 0]
               else if i mod 8 = 4 then map sub_byte prev else prev)
      in ws @ [xor_bytes (ws ! (i - 8)) t])"

definition key_schedule :: "nat list \<Rightarrow> nat list list" where
  "key_schedule key = (expand_word ^^ 52) (rows_of key)"

definition round_key :: "nat list list \<Rightarrow> nat \<Rightarrow> nat list" where
  "round_key ws r = concat (take 4 (drop (4 * r) ws))"

text \<open>The state by columns, as the bytes come in.\<close>

definition shift_rows :: "nat list \<Rightarrow> nat list" where
  "shift_rows st = map (\<lambda>i. st ! ((i + 4 * (i mod 4)) mod 16)) [0..<16]"

definition mix_column :: "nat list \<Rightarrow> nat list" where
  "mix_column c = map (\<lambda>i. gf_mult (c ! i) 2 XOR gf_mult (c ! ((i + 1) mod 4)) 3 XOR c ! ((i + 2) mod 4)
     XOR c ! ((i + 3) mod 4)) [0..<4]"

definition mix_columns :: "nat list \<Rightarrow> nat list" where
  "mix_columns st = concat (map mix_column (rows_of st))"

definition aes_encrypt :: "nat list list \<Rightarrow> nat list \<Rightarrow> nat list" where
  "aes_encrypt ws block =
     (let st = xor_bytes block (round_key ws 0);
          st = foldl (\<lambda>st r. xor_bytes (mix_columns (shift_rows (map sub_byte st))) (round_key ws r)) st [1..<14]
      in xor_bytes (shift_rows (map sub_byte st)) (round_key ws 14))"

section \<open>Galois/Counter mode\<close>

definition bytes_of :: "nat \<Rightarrow> nat \<Rightarrow> nat list" where
  "bytes_of k n = map (\<lambda>i. n div 256 ^ i mod 256) (rev [0..<k])"

definition number_of :: "nat list \<Rightarrow> nat" where
  "number_of bs = foldl (\<lambda>n b. 256 * n + b) 0 bs"

text \<open>Multiplication of 128-bit blocks, most significant bit first.\<close>

primrec block_mult :: "nat \<Rightarrow> nat \<Rightarrow> nat \<Rightarrow> nat \<Rightarrow> nat" where
  "block_mult 0 x v z = z"
| "block_mult (Suc i) x v z =
     block_mult i x (if odd v then (v div 2) XOR (225 * 2 ^ 120) else v div 2)
       (if odd (x div 2 ^ i) then z XOR v else z)"

fun blocks_16 :: "nat \<Rightarrow> nat list \<Rightarrow> nat list list" where
  "blocks_16 0 bs = []"
| "blocks_16 (Suc k) bs = (if bs = [] then [] else take 16 (bs @ replicate 15 0) # blocks_16 k (drop 16 bs))"

definition ghash :: "nat \<Rightarrow> nat list list \<Rightarrow> nat" where
  "ghash h blocks = foldl (\<lambda>y b. block_mult 128 (y XOR number_of b) h 0) 0 blocks"

definition to_blocks :: "nat list \<Rightarrow> nat list list" where
  "to_blocks bs = blocks_16 (length bs) bs"

definition counter_block :: "nat list \<Rightarrow> nat \<Rightarrow> nat list" where
  "counter_block nonce n = nonce @ bytes_of 4 (n mod 2 ^ 32)"

definition keystream :: "nat list list \<Rightarrow> nat list \<Rightarrow> nat \<Rightarrow> nat list" where
  "keystream ws nonce len =
     take len (concat (map (\<lambda>i. aes_encrypt ws (counter_block nonce (i + 2))) [0..<len div 16 + 1]))"

definition gcm_tag :: "nat list list \<Rightarrow> nat list \<Rightarrow> nat list \<Rightarrow> nat list \<Rightarrow> nat list" where
  "gcm_tag ws nonce aad ct =
     (let h = number_of (aes_encrypt ws (replicate 16 0));
          s = ghash h (to_blocks aad @ to_blocks ct @ [bytes_of 8 (8 * length aad) @ bytes_of 8 (8 * length ct)])
      in xor_bytes (bytes_of 16 s) (aes_encrypt ws (counter_block nonce 1)))"

text \<open>The strings Go handles.\<close>

definition to_bytes :: "string \<Rightarrow> nat list" where "to_bytes s = map byte s"
definition of_bytes :: "nat list \<Rightarrow> string" where "of_bytes bs = map char_of bs"

definition gcm_seal :: "string \<Rightarrow> string \<Rightarrow> string \<Rightarrow> string \<Rightarrow> string" where
  "gcm_seal key nonce plaintext aad =
     (let ws = key_schedule (to_bytes key); n = to_bytes nonce; pt = to_bytes plaintext;
          ct = of_bytes (xor_bytes pt (keystream ws n (length pt)))
      in ct @ of_bytes (gcm_tag ws n (to_bytes aad) (to_bytes ct)))"

definition gcm_open :: "string \<Rightarrow> string \<Rightarrow> string \<Rightarrow> string \<Rightarrow> string option" where
  "gcm_open key nonce sealed aad =
     (if length sealed < 16 then None
      else (let ws = key_schedule (to_bytes key); n = to_bytes nonce;
                ct = to_bytes (take (length sealed - 16) sealed); tag = drop (length sealed - 16) sealed
            in if of_bytes (gcm_tag ws n (to_bytes aad) ct) = tag
               then Some (of_bytes (xor_bytes ct (keystream ws n (length ct)))) else None))"

section \<open>Lengths\<close>

lemma length_xor_bytes [simp]: "length (xor_bytes xs ys) = min (length xs) (length ys)"
  by (simp add: xor_bytes_def)

definition words_ok :: "nat list list \<Rightarrow> bool" where
  "words_ok ws \<longleftrightarrow> 8 \<le> length ws \<and> (\<forall>w\<in>set ws. length w = 4)"

lemma expand_word_ok: "words_ok ws \<Longrightarrow> words_ok (expand_word ws) \<and> length (expand_word ws) = Suc (length ws)"
proof -
  assume ok: "words_ok ws"
  then have ne: "ws \<noteq> []" by (auto simp: words_ok_def)
  have l: "length (last ws) = 4" using ok last_in_set [OF ne] by (simp add: words_ok_def)
  have "length (ws ! (length ws - 8)) = 4"
    using ok ne nth_mem [of "length ws - 8" ws] by (simp add: words_ok_def)
  moreover have "last ws \<noteq> []" using l by auto
  ultimately show ?thesis using ok l
    by (auto simp: words_ok_def expand_word_def Let_def)
qed

lemma expand_words_ok: "words_ok ws \<Longrightarrow> words_ok ((expand_word ^^ n) ws) \<and> length ((expand_word ^^ n) ws) = n + length ws"
  by (induction n) (use expand_word_ok in auto)

lemma rows_of_ok: "length bs = 4 * n \<Longrightarrow> length (rows_of bs) = n \<and> (\<forall>w\<in>set (rows_of bs). length w = 4)"
proof (induction n arbitrary: bs)
  case (Suc n)
  then have "length bs = Suc (Suc (Suc (Suc (4 * n))))" by simp
  then obtain a b c d s where "bs = a # b # c # d # s" by (auto simp: length_Suc_conv)
  then show ?case using Suc by simp
qed simp

lemma key_schedule_ok:
  assumes "length key = 32"
  shows "words_ok (key_schedule key) \<and> length (key_schedule key) = 60"
proof -
  have "words_ok (rows_of key)" "length (rows_of key) = 8"
    using assms rows_of_ok [of key 8] by (simp_all add: words_ok_def)
  then show ?thesis using expand_words_ok [of "rows_of key" 52] by (simp add: key_schedule_def)
qed

lemma length_concat_const: "\<forall>w\<in>set ws. length w = n \<Longrightarrow> length (concat ws) = n * length ws"
  by (induction ws) auto

lemma length_round_key:
  assumes "words_ok ws" and "length ws = 60" and "r \<le> 14"
  shows "length (round_key ws r) = 16"
proof -
  have "length (take 4 (drop (4 * r) ws)) = 4" using assms by simp
  moreover have "\<forall>w\<in>set (take 4 (drop (4 * r) ws)). length w = 4"
    using assms(1) by (meson in_set_dropD in_set_takeD words_ok_def)
  ultimately show ?thesis using length_concat_const [of _ 4] unfolding round_key_def by fastforce
qed

lemma length_aes_encrypt:
  assumes "length key = 32"
  shows "length (aes_encrypt (key_schedule key) block) = 16"
  using key_schedule_ok [OF assms] length_round_key [of "key_schedule key" 14]
  by (simp add: aes_encrypt_def shift_rows_def)

lemma length_gcm_tag:
  assumes "length key = 32"
  shows "length (gcm_tag (key_schedule key) nonce aad ct) = 16"
  by (simp add: gcm_tag_def length_aes_encrypt [OF assms] bytes_of_def)

lemma length_keystream:
  assumes "length key = 32"
  shows "length (keystream (key_schedule key) nonce len) = len"
proof -
  have "length (concat (map (\<lambda>i. aes_encrypt (key_schedule key) (counter_block nonce (i + 2))) [0..<len div 16 + 1])) =
      16 * (len div 16 + 1)"
    by (subst length_concat_const [of _ 16]) (simp_all add: length_aes_encrypt [OF assms])
  moreover have "len \<le> 16 * (len div 16 + 1)" by simp
  ultimately show ?thesis by (simp add: keystream_def)
qed

section \<open>Sealing and opening\<close>

lemma to_of_bytes: "\<forall>b\<in>set bs. b < 256 \<Longrightarrow> to_bytes (of_bytes bs) = bs"
  by (simp add: to_bytes_def of_bytes_def byte_char_of map_idI)

lemma of_to_bytes: "of_bytes (to_bytes s) = s"
  by (simp add: to_bytes_def of_bytes_def byte_def map_idI)

lemma xor_byte_twice: "char_of (byte (char_of (byte c XOR k)) XOR k) = c"
proof -
  have "byte (char_of (byte c XOR k)) = (byte c XOR k) mod 256" by (simp add: byte_def)
  then have "(byte (char_of (byte c XOR k)) XOR k) mod 256 = take_bit 8 (take_bit 8 (byte c XOR k) XOR k)"
    by (simp add: take_bit_eq_mod)
  also have "\<dots> = take_bit 8 (byte c)" by (simp add: take_bit_xor xor.assoc)
  also have "\<dots> = byte c" using byte_less_256 [of c] by (simp add: take_bit_nat_eq_self)
  finally have "byte (char_of (byte (char_of (byte c XOR k)) XOR k)) = byte c" by (simp add: byte_def)
  then show ?thesis by simp
qed

lemma xor_twice:
  "length s \<le> length ks \<Longrightarrow> of_bytes (xor_bytes (to_bytes (of_bytes (xor_bytes (to_bytes s) ks))) ks) = s"
proof (induction s arbitrary: ks)
  case (Cons c s)
  then obtain k ks' where "ks = k # ks'" by (cases ks) auto
  then show ?case using Cons by (simp add: to_bytes_def of_bytes_def xor_bytes_def xor_byte_twice)
qed (simp add: to_bytes_def of_bytes_def xor_bytes_def)

lemma length_of_bytes [simp]: "length (of_bytes bs) = length bs" "length (to_bytes s) = length s"
  by (simp_all add: of_bytes_def to_bytes_def)

lemma length_gcm_seal:
  assumes "length key = 32"
  shows "length (gcm_seal key nonce plaintext aad) = length plaintext + 16"
  using assms by (simp add: gcm_seal_def Let_def length_gcm_tag length_keystream)

text \<open>The tag is a function of the key, the nonce and the ciphertext.\<close>

lemma gcm_seal_tag:
  assumes "length key = 32" and "length t = 16" and "length t' = 16"
    and "gcm_seal key nonce p aad = ct @ t" and "gcm_seal key nonce p' aad = ct @ t'"
  shows "t = t'"
  using assms by (auto simp: gcm_seal_def Let_def length_gcm_tag append_eq_append_conv)

theorem gcm_open_seal:
  assumes "length key = 32"
  shows "gcm_open key nonce sealed aad = Some plaintext \<longleftrightarrow> sealed = gcm_seal key nonce plaintext aad"
proof -
  let ?ws = "key_schedule (to_bytes key)" and ?n = "to_bytes nonce"
  define x where "x s = of_bytes (xor_bytes (to_bytes s) (keystream ?ws ?n (length s)))" for s
  define tag where "tag ct = of_bytes (gcm_tag ?ws ?n (to_bytes aad) (to_bytes ct))" for ct
  have len: "length (x s) = length s" "length (tag s) = 16" for s
    using assms by (simp_all add: x_def tag_def length_gcm_tag length_keystream)
  have inv: "x (x s) = s" for s
    using xor_twice [of s "keystream ?ws ?n (length s)"] assms by (simp add: x_def length_keystream)
  have seal: "gcm_seal key nonce p aad = x p @ tag (x p)" for p
    by (simp add: gcm_seal_def Let_def x_def tag_def)
  have op: "gcm_open key nonce s aad = (if length s < 16 then None
      else let ct = take (length s - 16) s in if tag ct = drop (length s - 16) s then Some (x ct) else None)" for s
    by (simp add: gcm_open_def Let_def x_def tag_def)
  show ?thesis
  proof
    assume "gcm_open key nonce sealed aad = Some plaintext"
    then have "tag (take (length sealed - 16) sealed) = drop (length sealed - 16) sealed"
      "plaintext = x (take (length sealed - 16) sealed)"
      by (auto simp: op Let_def split: if_splits)
    then show "sealed = gcm_seal key nonce plaintext aad" by (simp add: seal inv)
  next
    assume "sealed = gcm_seal key nonce plaintext aad"
    then have s: "sealed = x plaintext @ tag (x plaintext)" by (simp only: seal)
    then have "length sealed = length (x plaintext) + 16" by (simp add: len)
    then have "\<not> length sealed < 16" "take (length sealed - 16) sealed = x plaintext"
      "drop (length sealed - 16) sealed = tag (x plaintext)" by (simp_all add: s)
    then show "gcm_open key nonce sealed aad = Some plaintext" by (simp add: op inv)
  qed
qed

end
