(* ===== verification/MasterKey.thy ===== *)
theory MasterKey
  imports AesGcm Sha256
begin

text \<open>
  \<^verbatim>\<open>pkg/masterkey/masterkey.go\<close>: reading the master key behind a permission gate, its AEAD and
  fingerprint, and the sealed text format. The file system is what \<^verbatim>\<open>os.Stat\<close> and \<^verbatim>\<open>os.ReadFile\<close> answer
  for a path, the random source the nonce it delivers; error messages are dropped.
\<close>

section \<open>Base64, standard alphabet with padding\<close>

definition base64_alphabet :: string where
  "base64_alphabet = map char_of ([65..<91] @ [97..<123] @ [48..<58] @ [43, 47 :: nat])"

definition base64_char :: "nat \<Rightarrow> char" where
  "base64_char n = base64_alphabet ! n"

definition base64_value :: "char \<Rightarrow> nat option" where
  "base64_value c = (let n = length (takeWhile (\<lambda>d. d \<noteq> c) base64_alphabet)
     in if n < 64 then Some n else None)"

fun base64_encode :: "string \<Rightarrow> string" where
  "base64_encode [] = []"
| "base64_encode [a] = [base64_char (byte a div 4), base64_char (byte a mod 4 * 16), CHR ''='', CHR ''='']"
| "base64_encode [a, b] = [base64_char (byte a div 4), base64_char (byte a mod 4 * 16 + byte b div 16),
     base64_char (byte b mod 16 * 4), CHR ''='']"
| "base64_encode (a # b # c # s) = base64_char (byte a div 4) # base64_char (byte a mod 4 * 16 + byte b div 16) #
     base64_char (byte b mod 16 * 4 + byte c div 64) # base64_char (byte c mod 64) # base64_encode s"

text \<open>Decoding skips line breaks; bits of a last character that do not fill a byte are ignored.\<close>

fun base64_groups :: "string \<Rightarrow> string option" where
  "base64_groups [] = Some []"
| "base64_groups (a # b # c # d # s) =
     (case (base64_value a, base64_value b) of
        (Some p, Some q) \<Rightarrow>
          let x = char_of (p * 4 + q div 16) in
          if d = CHR ''='' then
            (if s \<noteq> [] then None
             else if c = CHR ''='' then Some [x]
             else (case base64_value c of None \<Rightarrow> None
               | Some r \<Rightarrow> Some [x, char_of (q mod 16 * 16 + r div 4)]))
          else (case (base64_value c, base64_value d, base64_groups s) of
              (Some r, Some t, Some rest) \<Rightarrow>
                Some (x # char_of (q mod 16 * 16 + r div 4) # char_of (r mod 4 * 64 + t) # rest)
            | _ \<Rightarrow> None)
      | _ \<Rightarrow> None)"
| "base64_groups s = None"

definition base64_decode :: "string \<Rightarrow> string option" where
  "base64_decode s = base64_groups (filter (\<lambda>c. c \<noteq> CHR 0x0A \<and> c \<noteq> CHR 0x0D) s)"

section \<open>Keys\<close>

definition MasterKeySize :: nat where "MasterKeySize = 32"

record aead =
  ae_nonce_size :: nat
  ae_seal :: "string \<Rightarrow> string \<Rightarrow> string \<Rightarrow> string"
  ae_open :: "string \<Rightarrow> string \<Rightarrow> string \<Rightarrow> string option"

record master_key =
  mk_aead :: aead
  mk_fingerprint :: string

datatype key_error = StatFailed | LoosePermissions | ReadFailed | WrongKeySize nat
  | NonceFailed | BadBase64 | CiphertextTooShort | DecryptFailed

record key_file_system =
  fs_stat :: "string \<Rightarrow> 32 word option"
  fs_read :: "string \<Rightarrow> string option"

definition NewAEAD :: "string \<Rightarrow> key_error + aead" where
  "NewAEAD key =
     (if length key \<noteq> MasterKeySize then Inl (WrongKeySize (length key))
      else Inr \<lparr>ae_nonce_size = 12, ae_seal = gcm_seal key, ae_open = gcm_open key\<rparr>)"

definition Fingerprint :: "string \<Rightarrow> string" where
  "Fingerprint key = hex_encode (take 8 (sha256 key))"

definition New :: "string \<Rightarrow> key_error + master_key" where
  "New key = (case NewAEAD key of Inl e \<Rightarrow> Inl e
     | Inr a \<Rightarrow> Inr \<lparr>mk_aead = a, mk_fingerprint = Fingerprint key\<rparr>)"

text \<open>Of the mode, the nine permission bits count: in hexadecimal, 0777 is 1FF, 0077 is 3F.\<close>

definition readKey :: "key_file_system \<Rightarrow> string \<Rightarrow> 32 word \<Rightarrow> key_error + string" where
  "readKey fs path denyMask =
     (case fs_stat fs path of
        None \<Rightarrow> Inl StatFailed
      | Some mode \<Rightarrow>
          let perm = mode AND 0x1FF
          in if perm AND denyMask \<noteq> 0 then Inl LoosePermissions
             else (case fs_read fs path of
                 None \<Rightarrow> Inl ReadFailed
               | Some raw \<Rightarrow> if length raw \<noteq> MasterKeySize then Inl (WrongKeySize (length raw)) else Inr raw))"

definition load :: "key_file_system \<Rightarrow> string \<Rightarrow> 32 word \<Rightarrow> key_error + master_key" where
  "load fs path denyMask =
     (case readKey fs path denyMask of
        Inl e \<Rightarrow> Inl e
      | Inr raw \<Rightarrow> (case NewAEAD raw of
          Inl e \<Rightarrow> Inl e
        | Inr a \<Rightarrow> Inr \<lparr>mk_aead = a, mk_fingerprint = Fingerprint raw\<rparr>))"

definition Load :: "key_file_system \<Rightarrow> string \<Rightarrow> key_error + master_key" where
  "Load fs path = load fs path 0x3F"

definition LoadShared :: "key_file_system \<Rightarrow> string \<Rightarrow> key_error + master_key" where
  "LoadShared fs path = load fs path 0x07"

definition ReadShared :: "key_file_system \<Rightarrow> string \<Rightarrow> key_error + string" where
  "ReadShared fs path = readKey fs path 0x07"

section \<open>Sealed text\<close>

definition EncryptBase64 :: "master_key \<Rightarrow> string option \<Rightarrow> string \<Rightarrow> key_error + string" where
  "EncryptBase64 k nonce plaintext =
     (case nonce of
        None \<Rightarrow> Inl NonceFailed
      | Some n \<Rightarrow> Inr (base64_encode (n @ ae_seal (mk_aead k) n plaintext [])))"

definition DecryptBase64 :: "master_key \<Rightarrow> string \<Rightarrow> key_error + string" where
  "DecryptBase64 k ciphertext =
     (case base64_decode ciphertext of
        None \<Rightarrow> Inl BadBase64
      | Some data \<Rightarrow>
          let nonceSize = ae_nonce_size (mk_aead k)
          in if length data < nonceSize then Inl CiphertextTooShort
             else (case ae_open (mk_aead k) (take nonceSize data) (drop nonceSize data) [] of
                 None \<Rightarrow> Inl DecryptFailed
               | Some plaintext \<Rightarrow> Inr plaintext))"

section \<open>Base64 round trip\<close>

lemma length_alphabet: "length base64_alphabet = 64"
  by (simp add: base64_alphabet_def)

lemma takeWhile_neq_nth: "distinct xs \<Longrightarrow> n < length xs \<Longrightarrow> length (takeWhile (\<lambda>d. d \<noteq> xs ! n) xs) = n"
proof (induction xs arbitrary: n)
  case (Cons x xs)
  then show ?case by (cases n) auto
qed simp

lemma distinct_alphabet: "distinct base64_alphabet"
proof -
  define nums where "nums = [65..<91] @ [97..<123] @ [48..<58] @ [43, 47 :: nat]"
  have "\<forall>n\<in>set nums. n < 256" by (auto simp: nums_def)
  then have "inj_on char_of (set nums)" by (intro inj_onI) (metis byte_char_of)
  moreover have "distinct nums" by (auto simp: nums_def)
  moreover have "base64_alphabet = map char_of nums" by (simp only: base64_alphabet_def nums_def)
  ultimately show ?thesis by (metis distinct_map)
qed

lemma char_of_byte [simp]: "char_of (byte c) = c"
  by (simp add: byte_def)

lemma alphabet_bytes: "c \<in> set base64_alphabet \<Longrightarrow> byte c \<in> {65..<91} \<union> {97..<123} \<union> {48..<58} \<union> {43, 47}"
  by (auto simp: base64_alphabet_def byte_char_of)

lemma special_not_alphabet: "CHR ''='' \<notin> set base64_alphabet" "CHR 0x0A \<notin> set base64_alphabet" "CHR 0x0D \<notin> set base64_alphabet"
  using alphabet_bytes [of "CHR ''=''"] alphabet_bytes [of "CHR 0x0A"] alphabet_bytes [of "CHR 0x0D"]
  by (auto simp: byte_def)

lemma base64_char_mem: "n < 64 \<Longrightarrow> base64_char n \<in> set base64_alphabet"
  by (simp add: base64_char_def length_alphabet)

lemma base64_char_neq [simp]: "n < 64 \<Longrightarrow> base64_char n \<noteq> CHR ''=''"
  using base64_char_mem special_not_alphabet by metis

lemma base64_value_char [simp]: "n < 64 \<Longrightarrow> base64_value (base64_char n) = Some n"
  using takeWhile_neq_nth [OF distinct_alphabet, of n] by (simp add: base64_value_def base64_char_def length_alphabet)

lemma sextets:
  "byte a div 4 < 64" "byte a mod 4 * 16 < 64" "byte a mod 4 * 16 + byte b div 16 < 64"
  "byte b mod 16 * 4 < 64" "byte b mod 16 * 4 + byte c div 64 < 64" "byte c mod 64 < 64"
  using byte_less_256 [of a] byte_less_256 [of b] byte_less_256 [of c] by auto

lemma octets:
  "char_of (byte a div 4 * 4 + (byte a mod 4 * 16) div 16) = a"
  "char_of (byte a div 4 * 4 + (byte a mod 4 * 16 + byte b div 16) div 16) = a"
  "char_of ((byte a mod 4 * 16 + byte b div 16) mod 16 * 16 + (byte b mod 16 * 4) div 4) = b"
  "char_of ((byte a mod 4 * 16 + byte b div 16) mod 16 * 16 + (byte b mod 16 * 4 + byte c div 64) div 4) = b"
  "char_of ((byte b mod 16 * 4 + byte c div 64) mod 4 * 64 + byte c mod 64) = c"
proof -
  have small: "byte b div 16 < 16" "byte c div 64 < 4"
    using byte_less_256 [of b] byte_less_256 [of c] by auto
  have e: "byte a div 4 * 4 + (byte a mod 4 * 16) div 16 = byte a"
    "byte a div 4 * 4 + (byte a mod 4 * 16 + byte b div 16) div 16 = byte a"
    "(byte a mod 4 * 16 + byte b div 16) mod 16 * 16 + (byte b mod 16 * 4) div 4 = byte b"
    "(byte a mod 4 * 16 + byte b div 16) mod 16 * 16 + (byte b mod 16 * 4 + byte c div 64) div 4 = byte b"
    "(byte b mod 16 * 4 + byte c div 64) mod 4 * 64 + byte c mod 64 = byte c"
    using small by simp_all
  show "char_of (byte a div 4 * 4 + (byte a mod 4 * 16) div 16) = a"
    "char_of (byte a div 4 * 4 + (byte a mod 4 * 16 + byte b div 16) div 16) = a"
    "char_of ((byte a mod 4 * 16 + byte b div 16) mod 16 * 16 + (byte b mod 16 * 4) div 4) = b"
    "char_of ((byte a mod 4 * 16 + byte b div 16) mod 16 * 16 + (byte b mod 16 * 4 + byte c div 64) div 4) = b"
    "char_of ((byte b mod 16 * 4 + byte c div 64) mod 4 * 64 + byte c mod 64) = c"
    unfolding e char_of_byte by (rule refl)+
qed

lemma base64_groups_encode: "base64_groups (base64_encode s) = Some s"
proof (induction s rule: base64_encode.induct)
  case (2 a)
  show ?case by (simp add: sextets octets)
next
  case (3 a b)
  have "byte b div 16 < 16" using byte_less_256 [of b] by auto
  then show ?case by (simp add: sextets octets)
next
  case (4 a b c s)
  have "byte b div 16 < 16" "byte c div 64 < 4" using byte_less_256 [of b] byte_less_256 [of c] by auto
  then show ?case using 4 by (simp add: sextets octets)
qed simp

lemma base64_encode_chars: "c \<in> set (base64_encode s) \<Longrightarrow> c \<in> set base64_alphabet \<or> c = CHR ''=''"
  by (induction s rule: base64_encode.induct) (auto simp: sextets base64_char_mem)

lemma base64_decode_encode: "base64_decode (base64_encode s) = Some s"
proof -
  have "filter (\<lambda>c. c \<noteq> CHR 0x0A \<and> c \<noteq> CHR 0x0D) (base64_encode s) = base64_encode s"
    using base64_encode_chars special_not_alphabet by (intro filter_True) auto
  then show ?thesis by (simp add: base64_decode_def base64_groups_encode)
qed

section \<open>An AEAD as an interface\<close>

text \<open>
  Under a valid key, opening accepts what sealing produces with the same nonce, and nothing else; the tag at
  the end is determined by the ciphertext before it. The key's integrity says no more: a text changed into the
  sealing of another plaintext is that sealing.
\<close>

locale sealing =
  fixes nonce_size tag_size :: nat
    and valid :: "string \<Rightarrow> bool"
    and seal :: "string \<Rightarrow> string \<Rightarrow> string \<Rightarrow> string \<Rightarrow> string"
    and unseal :: "string \<Rightarrow> string \<Rightarrow> string \<Rightarrow> string \<Rightarrow> string option"
  assumes unseal_iff: "valid key \<Longrightarrow> unseal key nonce sealed aad = Some plaintext \<longleftrightarrow> sealed = seal key nonce plaintext aad"
    and seal_tag: "valid key \<Longrightarrow> length t = tag_size \<Longrightarrow> length t' = tag_size \<Longrightarrow>
      seal key nonce p aad = ct @ t \<Longrightarrow> seal key nonce p' aad = ct @ t' \<Longrightarrow> t = t'"
begin

definition handle :: "string \<Rightarrow> string \<Rightarrow> master_key" where
  "handle key f = \<lparr>mk_aead = \<lparr>ae_nonce_size = nonce_size, ae_seal = seal key, ae_open = unseal key\<rparr>, mk_fingerprint = f\<rparr>"

lemma decrypt_iff:
  assumes "valid key"
  shows "DecryptBase64 (handle key f) c = Inr plaintext \<longleftrightarrow>
     (\<exists>nonce. length nonce = nonce_size \<and> base64_decode c = Some (nonce @ seal key nonce plaintext []))"
proof (cases "base64_decode c")
  case None
  then show ?thesis by (simp add: DecryptBase64_def)
next
  case (Some data)
  have split: "data = n @ rest \<and> length n = nonce_size \<longleftrightarrow>
      nonce_size \<le> length data \<and> n = take nonce_size data \<and> rest = drop nonce_size data" for n rest
    by auto
  have "DecryptBase64 (handle key f) c = Inr plaintext \<longleftrightarrow> nonce_size \<le> length data \<and>
      unseal key (take nonce_size data) (drop nonce_size data) [] = Some plaintext"
    by (auto simp: DecryptBase64_def Some handle_def Let_def split: option.splits)
  also have "\<dots> \<longleftrightarrow> nonce_size \<le> length data \<and> drop nonce_size data = seal key (take nonce_size data) plaintext []"
    by (simp only: unseal_iff [OF assms])
  also have "\<dots> \<longleftrightarrow> (\<exists>nonce. length nonce = nonce_size \<and> data = nonce @ seal key nonce plaintext [])"
    using split by metis
  finally show ?thesis by (simp add: Some)
qed

lemma decrypt_encrypt:
  assumes "valid key" and "length nonce = nonce_size"
  shows "\<exists>c. EncryptBase64 (handle key f) (Some nonce) plaintext = Inr c \<and> DecryptBase64 (handle key f) c = Inr plaintext"
proof -
  have "EncryptBase64 (handle key f) (Some nonce) plaintext = Inr (base64_encode (nonce @ seal key nonce plaintext []))"
    by (simp add: EncryptBase64_def handle_def)
  then show ?thesis using assms base64_decode_encode decrypt_iff by blast
qed

lemma changed_tag:
  assumes "valid key" and "length nonce = nonce_size" and "length t = tag_size" and "length t' = tag_size"
    and "seal key nonce p [] = ct @ t" and "t' \<noteq> t" and "base64_decode c = Some (nonce @ ct @ t')"
  shows "DecryptBase64 (handle key f) c = Inl DecryptFailed"
proof -
  have "unseal key nonce (ct @ t') [] = None"
    using seal_tag [OF assms(1,3,4,5)] assms(6) unseal_iff [OF assms(1)]
    by (metis not_None_eq)
  then show ?thesis using assms(2,7) by (simp add: DecryptBase64_def handle_def)
qed

end

text \<open>AES-256-GCM is one.\<close>

interpretation gcm: sealing 12 16 "\<lambda>key. length key = MasterKeySize" gcm_seal gcm_open
  by unfold_locales (simp_all only: MasterKeySize_def gcm_open_seal, rule gcm_seal_tag)

lemma New_handle:
  assumes "New key = Inr k"
  shows "length key = MasterKeySize \<and> k = gcm.handle key (Fingerprint key)"
  using assms by (auto simp: New_def NewAEAD_def gcm.handle_def split: if_splits)

section \<open>Permission bits\<close>

lemma mask_bits:
  fixes mode :: "32 word"
  shows "(mode AND 0x1FF) AND 0x3F = 0 \<longleftrightarrow> (\<forall>b<6. \<not> bit mode b)"
    and "(mode AND 0x1FF) AND 0x07 = 0 \<longleftrightarrow> (\<forall>b<3. \<not> bit mode b)"
proof -
  have m: "(0x1FF :: 32 word) = mask 9" "(0x3F :: 32 word) = mask 6" "(0x07 :: 32 word) = mask 3"
    by (simp_all add: mask_eq_exp_minus_1)
  have "take_bit n (take_bit 9 mode) = 0 \<longleftrightarrow> (\<forall>b<n. \<not> bit mode b)" if "n \<le> 9" for n
    using that by (auto simp: bit_eq_iff bit_take_bit_iff)
  then show "(mode AND 0x1FF) AND 0x3F = 0 \<longleftrightarrow> (\<forall>b<6. \<not> bit mode b)"
    "(mode AND 0x1FF) AND 0x07 = 0 \<longleftrightarrow> (\<forall>b<3. \<not> bit mode b)"
    unfolding m take_bit_eq_mask [symmetric] by simp_all
qed

lemma load_New:
  "load fs path denyMask = Inr k \<longleftrightarrow>
     (\<exists>mode raw. fs_stat fs path = Some mode \<and> (mode AND 0x1FF) AND denyMask = 0 \<and> fs_read fs path = Some raw \<and>
        New raw = Inr k)"
  by (auto simp: load_def readKey_def New_def NewAEAD_def Let_def split: option.splits)

section \<open>Properties\<close>

text \<open>C24: Decryption accepts exactly the base64 forms of what encryption seals: with the key that was built from 32
  bytes, every sealed text decrypts to the plaintext that was sealed, and a text decrypts to a plaintext only if it is a
  base64 form of a 12-byte nonce followed by the AES-256-GCM sealing of that plaintext under that nonce. A
  changed text is therefore accepted only if it is itself such a sealing, of the plaintext it then gives; in
  particular a sealed text with a different 16-byte tag and the same nonce and ciphertext is always refused.
  How hard another valid sealing is to find is a matter of the cipher and not of this code.\<close>
theorem decrypt_exact:
  assumes "New key = Inr k"
  shows "(\<forall>nonce plaintext. length nonce = 12 \<longrightarrow>
      (\<exists>c. EncryptBase64 k (Some nonce) plaintext = Inr c \<and> DecryptBase64 k c = Inr plaintext)) \<and>
    (DecryptBase64 k c = Inr plaintext \<longleftrightarrow>
      (\<exists>nonce. length nonce = 12 \<and> base64_decode c = Some (nonce @ gcm_seal key nonce plaintext []))) \<and>
    (\<forall>nonce p ct tag tag'. length nonce = 12 \<and> length tag = 16 \<and> length tag' = 16 \<and>
      gcm_seal key nonce p [] = ct @ tag \<and> tag' \<noteq> tag \<and> base64_decode c = Some (nonce @ ct @ tag') \<longrightarrow>
      DecryptBase64 k c = Inl DecryptFailed)"
proof -
  have k: "length key = MasterKeySize" "k = gcm.handle key (Fingerprint key)"
    using New_handle [OF assms] by simp_all
  show ?thesis
    using gcm.decrypt_encrypt [OF k(1)] gcm.decrypt_iff [OF k(1), of "Fingerprint key" c plaintext]
      gcm.changed_tag [OF k(1), of _ _ _ _ _ c "Fingerprint key"]
    unfolding k(2) by blast
qed

text \<open>C25: The permission gate: Load succeeds exactly for a readable file of 32 bytes whose mode has none of the six group
  and other bits, LoadShared exactly when the three bits for others are clear, and the key they return is the
  one New builds from the bytes. So a group-writable file of mode 0660
  passes the shared gate, although its error message asks for 0640 or stricter.\<close>
theorem load_gate:
  "(Load fs path = Inr k \<longleftrightarrow>
      (\<exists>mode raw. fs_stat fs path = Some mode \<and> (\<forall>b<6. \<not> bit mode b) \<and> fs_read fs path = Some raw \<and> New raw = Inr k)) \<and>
   (LoadShared fs path = Inr k \<longleftrightarrow>
      (\<exists>mode raw. fs_stat fs path = Some mode \<and> (\<forall>b<3. \<not> bit mode b) \<and> fs_read fs path = Some raw \<and> New raw = Inr k)) \<and>
   (fs_stat fs path = Some 0x1B0 \<longrightarrow> bit (0x1B0 :: 32 word) 4 \<and>
      (\<forall>raw. fs_read fs path = Some raw \<longrightarrow> length raw = 32 \<longrightarrow> LoadShared fs path = New raw))"
proof -
  have "LoadShared fs path = New raw"
    if "fs_stat fs path = Some 0x1B0" "fs_read fs path = Some raw" "length raw = 32" for raw
    using that by (simp add: LoadShared_def load_def readKey_def New_def NewAEAD_def MasterKeySize_def Let_def)
  moreover have "bit (0x1B0 :: 32 word) 4" by simp
  ultimately show ?thesis unfolding Load_def LoadShared_def load_New mask_bits by blast
qed

section \<open>Witnesses\<close>

theorem decrypt_exact_witness:
  "\<exists>k c. New (replicate 32 CHR ''k'') = Inr k \<and> EncryptBase64 k (Some ''twelve_bytes'') ''secret'' = Inr c \<and>
     DecryptBase64 k c = Inr ''secret''"
proof -
  obtain k where k: "New (replicate 32 CHR ''k'') = Inr k" by (simp add: New_def NewAEAD_def MasterKeySize_def)
  have "length ''twelve_bytes'' = 12" by simp
  then show ?thesis using k decrypt_exact [OF k] by blast
qed

definition shared_file :: key_file_system where
  "shared_file = \<lparr>fs_stat = (\<lambda>_. Some 0x1B0), fs_read = (\<lambda>_. Some (replicate 32 CHR ''k''))\<rparr>"

theorem load_gate_witness:
  "LoadShared shared_file ''key'' = New (replicate 32 CHR ''k'') \<and> Load shared_file ''key'' \<noteq> New (replicate 32 CHR ''k'')"
proof -
  obtain k where k: "New (replicate 32 CHR ''k'') = Inr k" by (simp add: New_def NewAEAD_def MasterKeySize_def)
  have kf: "fs_stat shared_file ''key'' = Some 0x1B0" "fs_read shared_file ''key'' = Some (replicate 32 CHR ''k'')"
    by (simp_all add: shared_file_def)
  have bit4: "bit (0x1B0 :: 32 word) 4" by simp
  have "LoadShared shared_file ''key'' = New (replicate 32 CHR ''k'')"
    using conjunct2 [OF conjunct2 [OF load_gate [of shared_file "''key''" k]], rule_format, OF kf(1)] kf(2) by simp
  moreover have "Load shared_file ''key'' \<noteq> Inr k"
  proof
    assume "Load shared_file ''key'' = Inr k"
    then obtain mode where "fs_stat shared_file ''key'' = Some mode" "\<forall>b<6. \<not> bit mode b"
      using load_gate [of shared_file "''key''" k] by blast
    then have "\<forall>b<6. \<not> bit (0x1B0 :: 32 word) b" using kf(1) by simp
    moreover have "(4::nat) < 6" by simp
    ultimately show False using bit4 by blast
  qed
  ultimately show ?thesis using k by metis
qed

end
