(* ===== verification/Utf8.thy ===== *)
theory Utf8
  imports GoStrings
begin

text \<open>
  The part of Go's \<^verbatim>\<open>unicode/utf8\<close> and \<^verbatim>\<open>strings\<close> packages that deals with invalid UTF-8: the width of the
  encoding at the head of a string, \<^verbatim>\<open>ValidString\<close> and \<^verbatim>\<open>ToValidUTF8\<close>. They are related to the encoding of a
  sequence of Unicode scalar values, which says what valid means.
\<close>

section \<open>Decoding\<close>

definition continuation :: "char \<Rightarrow> bool" where
  "continuation c \<longleftrightarrow> 128 \<le> byte c \<and> byte c < 192"

text \<open>The accept ranges of the second byte, which exclude overlong forms, surrogates and what is above U+10FFFF.\<close>

definition second_ok :: "nat \<Rightarrow> char \<Rightarrow> bool" where
  "second_ok b c \<longleftrightarrow>
     (if b = 224 then 160 else if b = 240 then 144 else 128) \<le> byte c \<and>
     byte c < (if b = 237 then 160 else if b = 244 then 144 else 192)"

text \<open>The width of the encoded rune at the head, and 0 where \<^verbatim>\<open>DecodeRuneInString\<close> returns an error of width 1.\<close>

fun rune_len :: "string \<Rightarrow> nat" where
  "rune_len [] = 0"
| "rune_len (a # s) =
     (let b = byte a in
      if b < 128 then 1
      else if b < 194 then 0
      else if b < 224 then (case s of c # _ \<Rightarrow> if continuation c then 2 else 0 | _ \<Rightarrow> 0)
      else if b < 240 then (case s of c # d # _ \<Rightarrow> if second_ok b c \<and> continuation d then 3 else 0 | _ \<Rightarrow> 0)
      else if b < 245 then
        (case s of c # d # e # _ \<Rightarrow> if second_ok b c \<and> continuation d \<and> continuation e then 4 else 0 | _ \<Rightarrow> 0)
      else 0)"

lemma rune_len_le: "rune_len s \<le> length s"
  by (cases s) (auto simp: Let_def split: list.splits)

declare rune_len.simps [simp del]

function valid_string :: "string \<Rightarrow> bool" where
  "valid_string s = (if s = [] then True else if rune_len s = 0 then False else valid_string (drop (rune_len s) s))"
  by auto
termination
proof (relation "measure length")
  fix s
  assume "s \<noteq> []" "rune_len s \<noteq> 0"
  then show "(drop (rune_len s) s, s) \<in> measure length" using rune_len_le [of s] by (simp add: le_less_trans)
qed simp

declare valid_string.simps [simp del]

text \<open>The loop of \<^verbatim>\<open>ToValidUTF8\<close>: \<open>invalid\<close> says that the previous byte already belongs to an invalid run.\<close>

function to_valid_loop :: "string \<Rightarrow> bool \<Rightarrow> string \<Rightarrow> string" where
  "to_valid_loop replacement invalid s =
     (case s of
        [] \<Rightarrow> []
      | c # t \<Rightarrow>
          if rune_len s = 0 then (if invalid then [] else replacement) @ to_valid_loop replacement True t
          else take (rune_len s) s @ to_valid_loop replacement False (drop (rune_len s) s))"
  by auto
termination
proof (relation "measure (\<lambda>(r, i, s). length s)")
  fix s :: string and c t
  assume "s = c # t" "rune_len s \<noteq> 0"
  then have "length (drop (rune_len s) s) < length s" by simp
  then show "((r, False, drop (rune_len s) s), r, i, s) \<in> measure (\<lambda>(r, i, s). length s)" for r i by simp
qed simp_all

declare to_valid_loop.simps [simp del]

definition to_valid_utf8 :: "string \<Rightarrow> string \<Rightarrow> string" where
  "to_valid_utf8 s replacement = to_valid_loop replacement False s"

section \<open>The encoding\<close>

definition scalar :: "nat \<Rightarrow> bool" where
  "scalar cp \<longleftrightarrow> cp < 0xD800 \<or> 0xE000 \<le> cp \<and> cp < 0x110000"

definition utf8_encode :: "nat \<Rightarrow> string" where
  "utf8_encode cp =
     (if cp < 0x80 then [char_of cp]
      else if cp < 0x800 then [char_of (192 + cp div 64), char_of (128 + cp mod 64)]
      else if cp < 0x10000 then
        [char_of (224 + cp div 64 div 64), char_of (128 + cp div 64 mod 64), char_of (128 + cp mod 64)]
      else [char_of (240 + cp div 64 div 64 div 64), char_of (128 + cp div 64 div 64 mod 64),
        char_of (128 + cp div 64 mod 64), char_of (128 + cp mod 64)])"

lemma scalar_less: "scalar cp \<Longrightarrow> cp < 0x110000"
  by (auto simp: scalar_def)

lemma continuation_low: "(n :: nat) < 64 \<Longrightarrow> continuation (char_of (128 + n))"
  by (simp add: continuation_def byte_char_of)

text \<open>Every encoding is recognised, whatever follows it.\<close>

lemma split64: obtains a b :: nat where "n = 64 * a + b" "b < 64" "n div 64 = a" "n mod 64 = b"
proof
  show "n = 64 * (n div 64) + n mod 64" "n mod 64 < 64" "n div 64 = n div 64" "n mod 64 = n mod 64" by simp_all
qed

lemma join64: "(b :: nat) < 64 \<Longrightarrow> (64 * a + b) div 64 = a" "(b :: nat) < 64 \<Longrightarrow> (64 * a + b) mod 64 = b"
  by simp_all

lemma join_less: "(a :: nat) < k \<Longrightarrow> b < 64 \<Longrightarrow> 64 * a + b < 64 * k"
  by linarith

lemma rune_len_encode3:
  assumes "0x800 \<le> cp" "cp < 0x10000" "scalar cp"
  shows "rune_len (utf8_encode cp @ s) = length (utf8_encode cp)"
proof -
  obtain q c where q: "cp = 64 * q + c" "c < 64" "cp div 64 = q" "cp mod 64 = c" using split64 [of cp] .
  obtain a b where a: "q = 64 * a + b" "b < 64" "q div 64 = a" "q mod 64 = b" using split64 [of q] .
  have lim: "a < 16" using assms(2) q(1) a(1) by linarith
  have low: "a = 0 \<longrightarrow> 32 \<le> b" using q a assms(1) by auto
  have high: "a = 13 \<longrightarrow> b < 32" using q a assms(3) unfolding scalar_def by auto
  have bytes: "byte (char_of (224 + a)) = 224 + a" "byte (char_of (128 + b)) = 128 + b"
    using lim a(2) by (simp_all add: byte_char_of)
  have "second_ok (224 + a) (char_of (128 + b))"
    unfolding second_ok_def bytes using low high lim a(2) by auto
  then show ?thesis
    using assms lim continuation_low [OF q(2)] unfolding utf8_encode_def q(3,4) a(3,4)
    by (simp add: rune_len.simps bytes Let_def)
qed

lemma rune_len_encode4:
  assumes "0x10000 \<le> cp" "cp < 0x110000"
  shows "rune_len (utf8_encode cp @ s) = length (utf8_encode cp)"
proof -
  obtain p d where p: "cp = 64 * p + d" "d < 64" "cp div 64 = p" "cp mod 64 = d" using split64 [of cp] .
  obtain q c where q: "p = 64 * q + c" "c < 64" "p div 64 = q" "p mod 64 = c" using split64 [of p] .
  obtain a b where a: "q = 64 * a + b" "b < 64" "q div 64 = a" "q mod 64 = b" using split64 [of q] .
  have lim: "a < 5" using assms(2) p(1) q(1) a(1) by linarith
  have low: "a = 0 \<longrightarrow> 16 \<le> b" using p q a assms(1) by auto
  have high: "a = 4 \<longrightarrow> b < 16" using p q a assms(2) by auto
  have bytes: "byte (char_of (240 + a)) = 240 + a" "byte (char_of (128 + b)) = 128 + b"
    using lim a(2) by (simp_all add: byte_char_of)
  have "second_ok (240 + a) (char_of (128 + b))"
    unfolding second_ok_def bytes using low high lim a(2) by auto
  then show ?thesis
    using assms lim continuation_low [OF p(2)] continuation_low [OF q(2)] unfolding utf8_encode_def p(3,4) q(3,4) a(3,4)
    by (simp add: rune_len.simps bytes Let_def)
qed

lemma rune_len_encode12:
  assumes "cp < 0x800"
  shows "rune_len (utf8_encode cp @ s) = length (utf8_encode cp)"
proof -
  obtain q c where q: "cp = 64 * q + c" "c < 64" "cp div 64 = q" "cp mod 64 = c" using split64 [of cp] .
  have "q < 32" "0x80 \<le> cp \<longrightarrow> 2 \<le> q" using assms q(1,2) by linarith+
  then show ?thesis
    using assms continuation_low [OF q(2)] unfolding utf8_encode_def q(3,4)
    by (auto simp: rune_len.simps byte_char_of Let_def not_less)
qed

lemma rune_len_encode:
  assumes "scalar cp"
  shows "rune_len (utf8_encode cp @ s) = length (utf8_encode cp)"
proof -
  consider "cp < 0x800" | "0x800 \<le> cp" "cp < 0x10000" | "0x10000 \<le> cp" "cp < 0x110000"
    using scalar_less [OF assms] by linarith
  then show ?thesis using rune_len_encode12 rune_len_encode3 rune_len_encode4 assms by cases auto
qed

lemma utf8_encode_nonempty: "0 < length (utf8_encode cp)"
  by (simp add: utf8_encode_def)

text \<open>And whatever is recognised is an encoding.\<close>

lemma continuation_byte:
  assumes "continuation c"
  obtains n :: nat where "n < 64" "c = char_of (128 + n)"
proof
  show "byte c - 128 < 64" using assms unfolding continuation_def by linarith
  show "c = char_of (128 + (byte c - 128))" using assms by (simp add: continuation_def byte_def)
qed

lemma second_continuation: "second_ok b c \<Longrightarrow> continuation c"
  by (auto simp: second_ok_def continuation_def split: if_splits)

lemma decode2:
  assumes "194 \<le> byte a" "byte a < 224" "continuation c"
  shows "\<exists>cp. scalar cp \<and> [a, c] = utf8_encode cp"
proof -
  obtain n :: nat where n: "n < 64" "c = char_of (128 + n)" using continuation_byte [OF assms(3)] .
  let ?cp = "64 * (byte a - 192) + n"
  have "?cp div 64 = byte a - 192" "?cp mod 64 = n" using n(1) by simp_all
  moreover have "0x80 \<le> ?cp" "?cp < 0x800" using assms n(1) by linarith+
  moreover have "a = char_of (192 + (byte a - 192))" using assms by (simp add: byte_def)
  ultimately have "scalar ?cp \<and> [a, c] = utf8_encode ?cp" using n(2) by (simp add: utf8_encode_def scalar_def)
  then show ?thesis by blast
qed

lemma decode3:
  assumes "224 \<le> byte a" "byte a < 240" "second_ok (byte a) c" "continuation d"
  shows "\<exists>cp. scalar cp \<and> [a, c, d] = utf8_encode cp"
proof -
  obtain m :: nat where m: "m < 64" "c = char_of (128 + m)" using continuation_byte [OF second_continuation [OF assms(3)]] .
  obtain n :: nat where n: "n < 64" "d = char_of (128 + n)" using continuation_byte [OF assms(4)] .
  obtain t where ta: "byte a = 224 + t" using assms(1) le_Suc_ex by blast
  let ?cp = "64 * (64 * t + m) + n"
  have dm: "?cp div 64 = 64 * t + m" "?cp mod 64 = n" "(64 * t + m) div 64 = t" "(64 * t + m) mod 64 = m"
    by (rule join64 m(1) n(1))+
  have bc: "byte c = 128 + m" using m by (simp add: byte_char_of)
  have t: "t < 16" using assms(2) ta by linarith
  have low: "t = 0 \<longrightarrow> 32 \<le> m" using assms(3) bc ta by (auto simp: second_ok_def split: if_splits)
  have high: "t = 13 \<longrightarrow> m < 32" using assms(3) bc ta by (auto simp: second_ok_def split: if_splits)
  have "0x800 \<le> ?cp" using low by (cases "t = 0") auto
  moreover have "?cp < 0x10000" using join_less [OF join_less [OF t m(1)] n(1)] by simp
  moreover have "scalar ?cp"
  proof -
    have "64 * t + m < 864" if "t < 14" using that high m(1) by (cases "t = 13") simp_all
    then have "?cp < 55296" if "t < 14" using that join_less [OF _ n(1), of "64 * t + m" 864] by simp
    moreover have "57344 \<le> ?cp" if "14 \<le> t" using that by simp
    moreover have "?cp < 0x110000" using join_less [OF join_less [OF t m(1)] n(1)] by simp
    ultimately show ?thesis unfolding scalar_def by (cases "t < 14") simp_all
  qed
  moreover have "a = char_of (224 + t)" unfolding ta [symmetric] by (simp add: byte_def)
  ultimately have "scalar ?cp \<and> [a, c, d] = utf8_encode ?cp"
    using m(2) n(2) unfolding utf8_encode_def dm by simp
  then show ?thesis by blast
qed

lemma decode4:
  assumes "240 \<le> byte a" "byte a < 245" "second_ok (byte a) c" "continuation d" "continuation e"
  shows "\<exists>cp. scalar cp \<and> [a, c, d, e] = utf8_encode cp"
proof -
  obtain m :: nat where m: "m < 64" "c = char_of (128 + m)" using continuation_byte [OF second_continuation [OF assms(3)]] .
  obtain n :: nat where n: "n < 64" "d = char_of (128 + n)" using continuation_byte [OF assms(4)] .
  obtain k :: nat where k: "k < 64" "e = char_of (128 + k)" using continuation_byte [OF assms(5)] .
  obtain t where ta: "byte a = 240 + t" using assms(1) le_Suc_ex by blast
  let ?cp = "64 * (64 * (64 * t + m) + n) + k"
  have dm: "?cp div 64 = 64 * (64 * t + m) + n" "?cp mod 64 = k" "(64 * (64 * t + m) + n) div 64 = 64 * t + m"
    "(64 * (64 * t + m) + n) mod 64 = n" "(64 * t + m) div 64 = t" "(64 * t + m) mod 64 = m"
    by (rule join64 m(1) n(1) k(1))+
  have bc: "byte c = 128 + m" using m by (simp add: byte_char_of)
  have t: "t < 5" using assms(2) ta by linarith
  have low: "t = 0 \<longrightarrow> 16 \<le> m" using assms(3) bc ta by (auto simp: second_ok_def split: if_splits)
  have high: "t = 4 \<longrightarrow> m < 16" using assms(3) bc ta by (auto simp: second_ok_def split: if_splits)
  have ge: "0x10000 \<le> ?cp" using low by (cases "t = 0") auto
  have lt: "?cp < 0x110000"
  proof -
    have "64 * t + m < 272" using high t m(1) by (cases "t = 4") simp_all
    from join_less [OF join_less [OF this n(1)] k(1)] show ?thesis by simp
  qed
  have "a = char_of (240 + t)" unfolding ta [symmetric] by (simp add: byte_def)
  then have "scalar ?cp \<and> [a, c, d, e] = utf8_encode ?cp"
    using ge lt m(2) n(2) k(2) unfolding utf8_encode_def dm scalar_def by simp
  then show ?thesis by blast
qed

lemma rune_len_decode:
  assumes "rune_len s \<noteq> 0"
  shows "\<exists>cp. scalar cp \<and> take (rune_len s) s = utf8_encode cp"
proof (cases s)
  case Nil
  then show ?thesis using assms by (simp add: rune_len.simps)
next
  case (Cons a t)
  show ?thesis
  proof (cases "byte a < 128")
    case True
    then have "scalar (byte a) \<and> [a] = utf8_encode (byte a)" by (simp add: scalar_def utf8_encode_def byte_def)
    then show ?thesis using True Cons by (auto simp: rune_len.simps Let_def)
  next
    case False
    then show ?thesis
      using assms Cons decode2 decode3 decode4
      by (auto simp: rune_len.simps Let_def not_less split: list.splits if_splits)
  qed
qed

section \<open>Valid strings\<close>

lemma valid_Nil [simp]: "valid_string []"
  by (simp add: valid_string.simps)

lemma valid_bad: "rune_len (c # t) = 0 \<Longrightarrow> \<not> valid_string (c # t)"
  by (simp add: valid_string.simps)

lemma valid_ascii_Cons: "is_ascii c \<Longrightarrow> valid_string (c # t) = valid_string t"
  by (subst valid_string.simps) (simp add: rune_len.simps is_ascii_def Let_def)

lemma valid_encode [simp]: "scalar cp \<Longrightarrow> valid_string (utf8_encode cp @ s) = valid_string s"
  using utf8_encode_nonempty [of cp] rune_len_encode [of cp s]
  by (subst valid_string.simps) auto

text \<open>The induction that follows the decoder: rune by rune, and byte by byte where nothing decodes.\<close>

lemma rune_induct [case_names empty bad rune]:
  assumes "P []"
    and "\<And>c t. rune_len (c # t) = 0 \<Longrightarrow> P t \<Longrightarrow> P (c # t)"
    and "\<And>cp t. scalar cp \<Longrightarrow> P t \<Longrightarrow> P (utf8_encode cp @ t)"
  shows "P s"
proof (induction s rule: length_induct)
  case (1 s)
  then have ih: "P t" if "length t < length s" for t using that by blast
  show ?case
  proof (cases "rune_len s = 0")
    case True
    show ?thesis
    proof (cases s)
      case Nil
      show ?thesis unfolding Nil by (rule assms(1))
    next
      case (Cons c t)
      have "P t" by (rule ih) (simp add: Cons)
      then show ?thesis using True unfolding Cons by (intro assms(2))
    qed
  next
    case False
    from rune_len_decode [OF this] obtain cp where cp: "scalar cp" "take (rune_len s) s = utf8_encode cp" by blast
    have s: "utf8_encode cp @ drop (rune_len s) s = s" unfolding cp(2) [symmetric] by (rule append_take_drop_id)
    have "length (drop (rune_len s) s) < length s" using False rune_len_le [of s] by simp
    from assms(3) [OF cp(1) ih [OF this]] show ?thesis unfolding s .
  qed
qed

lemma valid_string_iff: "valid_string s \<longleftrightarrow> (\<exists>cps. list_all scalar cps \<and> s = concat (map utf8_encode cps))"
proof
  show "valid_string s \<Longrightarrow> \<exists>cps. list_all scalar cps \<and> s = concat (map utf8_encode cps)"
  proof (induction s rule: rune_induct)
    case empty
    show ?case by (intro exI [of _ "[]"]) simp
  next
    case (bad c t)
    then show ?case using valid_bad by blast
  next
    case (rune cp t)
    then obtain cps where "list_all scalar cps" "t = concat (map utf8_encode cps)" by auto
    with rune show ?case by (intro exI [of _ "cp # cps"]) simp
  qed
next
  assume "\<exists>cps. list_all scalar cps \<and> s = concat (map utf8_encode cps)"
  then obtain cps where "list_all scalar cps" "s = concat (map utf8_encode cps)" by blast
  moreover have "list_all scalar cps \<Longrightarrow> valid_string (concat (map utf8_encode cps))" by (induction cps) simp_all
  ultimately show "valid_string s" by simp
qed

lemma valid_append: "valid_string s \<Longrightarrow> valid_string (s @ t) = valid_string t"
  by (induction s rule: rune_induct) (simp_all add: valid_bad)

lemma valid_ascii: "list_all is_ascii s \<Longrightarrow> valid_string s"
  by (induction s) (simp_all add: valid_ascii_Cons)

section \<open>Replacing what is invalid\<close>

lemma to_valid_Nil [simp]: "to_valid_loop r i [] = []"
  by (simp add: to_valid_loop.simps)

lemma to_valid_bad: "rune_len (c # t) = 0 \<Longrightarrow> to_valid_loop r i (c # t) = (if i then [] else r) @ to_valid_loop r True t"
  by (simp add: to_valid_loop.simps [of r i "c # t"])

lemma to_valid_rune [simp]:
  assumes "scalar cp"
  shows "to_valid_loop r i (utf8_encode cp @ t) = utf8_encode cp @ to_valid_loop r False t"
proof -
  obtain c u where u: "utf8_encode cp @ t = c # u" using utf8_encode_nonempty [of cp] by (cases "utf8_encode cp") auto
  have n: "rune_len (utf8_encode cp @ t) = length (utf8_encode cp)" by (rule rune_len_encode [OF assms])
  then have "rune_len (c # u) \<noteq> 0" using utf8_encode_nonempty [of cp] unfolding u by simp
  then have "to_valid_loop r i (c # u) =
      take (rune_len (c # u)) (c # u) @ to_valid_loop r False (drop (rune_len (c # u)) (c # u))"
    by (simp add: to_valid_loop.simps [of r i "c # u"])
  then show ?thesis unfolding u [symmetric] n by simp
qed

lemma to_valid_loop_valid: "valid_string r \<Longrightarrow> valid_string (to_valid_loop r i s)"
  by (induction s arbitrary: i rule: rune_induct) (simp_all add: to_valid_bad valid_append)

lemma to_valid_valid [simp]: "valid_string r \<Longrightarrow> valid_string (to_valid_utf8 s r)"
  by (simp add: to_valid_utf8_def to_valid_loop_valid)

lemma to_valid_loop_id: "valid_string s \<Longrightarrow> to_valid_loop r i s = s"
  by (induction s arbitrary: i rule: rune_induct) (simp_all add: valid_bad)

lemma to_valid_id: "valid_string s \<Longrightarrow> to_valid_utf8 s r = s"
  by (simp add: to_valid_utf8_def to_valid_loop_id)

lemma to_valid_id_iff: "valid_string r \<Longrightarrow> to_valid_utf8 s r = s \<longleftrightarrow> valid_string s"
  using to_valid_id to_valid_valid by metis

section \<open>The decoded text\<close>

text \<open>A string rune by rune, \<open>None\<close> standing for one byte that does not decode.\<close>

function runes :: "string \<Rightarrow> string option list" where
  "runes s =
     (case s of
        [] \<Rightarrow> []
      | c # t \<Rightarrow>
          if rune_len s = 0 then None # runes t
          else Some (take (rune_len s) s) # runes (drop (rune_len s) s))"
  by auto
termination
proof (relation "measure length")
  fix s :: string and c t
  assume "s = c # t" "rune_len s \<noteq> 0"
  then show "(drop (rune_len s) s, s) \<in> measure length" by simp
qed simp_all

declare runes.simps [simp del]

lemma runes_Nil [simp]: "runes [] = []"
  by (simp add: runes.simps)

lemma runes_bad: "rune_len (c # t) = 0 \<Longrightarrow> runes (c # t) = None # runes t"
  by (simp add: runes.simps [of "c # t"])

lemma runes_rune [simp]:
  assumes "scalar cp"
  shows "runes (utf8_encode cp @ t) = Some (utf8_encode cp) # runes t"
proof -
  obtain c u where u: "utf8_encode cp @ t = c # u" using utf8_encode_nonempty [of cp] by (cases "utf8_encode cp") auto
  have n: "rune_len (utf8_encode cp @ t) = length (utf8_encode cp)" by (rule rune_len_encode [OF assms])
  then have "rune_len (c # u) \<noteq> 0" using utf8_encode_nonempty [of cp] unfolding u by simp
  then have "runes (c # u) = Some (take (rune_len (c # u)) (c # u)) # runes (drop (rune_len (c # u)) (c # u))"
    by (simp add: runes.simps [of "c # u"])
  then show ?thesis unfolding u [symmetric] n by simp
qed

lemma runes_valid: "valid_string s \<Longrightarrow> concat (map (\<lambda>r. case r of None \<Rightarrow> x | Some u \<Rightarrow> u) (runes s)) = s"
  by (induction s rule: rune_induct) (simp_all add: valid_bad)

lemma runes_filled_valid:
  "valid_string x \<Longrightarrow> valid_string (concat (map (\<lambda>r. case r of None \<Rightarrow> x | Some u \<Rightarrow> u) (runes s)))"
  by (induction s rule: rune_induct) (simp_all add: runes_bad valid_append)

end
