(* ===== verification/LogSanitize.thy ===== *)
theory LogSanitize
  imports Utf8
begin

text \<open>
  The log processor of \<^verbatim>\<open>pkg/otelsetup/logsanitize.go\<close>, which makes every string of a log record valid UTF-8
  before the next processor exports it. Attribute values and log records are OpenTelemetry types: a value is
  seen through its kind and its contents, what the SDK's map constructor and its record do are the parameters
  \<open>MapValue\<close> and \<open>log_record_ops\<close>, and \<open>sdk_laws\<close> is what is documented of them.
\<close>

section \<open>Strings\<close>

definition replacementRune :: string where
  "replacementRune = [CHR 0xEF, CHR 0xBF, CHR 0xBD]"

definition sanitizeString :: "string \<Rightarrow> string" where
  "sanitizeString s = (if valid_string s then s else to_valid_utf8 s replacementRune)"

section \<open>Values\<close>

datatype 'o attr_value = StringV string
  | StringSliceV "string list"
  | SliceV "'o attr_value list"
  | MapV "(string \<times> 'o attr_value) list"
  | OtherV 'o

type_synonym 'o key_values = "(string \<times> 'o attr_value) list"

fun sanitizeValue :: "('o key_values \<Rightarrow> 'o attr_value) \<Rightarrow> 'o attr_value \<Rightarrow> 'o attr_value \<times> bool" where
  "sanitizeValue MapValue (StringV s) =
     (if valid_string s then (StringV s, False) else (StringV (to_valid_utf8 s replacementRune), True))"
| "sanitizeValue MapValue (StringSliceV elems) =
     (let out = map sanitizeString elems;
          changed = list_ex (\<lambda>(sv, e). sv \<noteq> e) (zip out elems)
      in if \<not> changed then (StringSliceV elems, False) else (StringSliceV out, True))"
| "sanitizeValue MapValue (SliceV elems) =
     (let out = map (sanitizeValue MapValue) elems;
          changed = list_ex snd out
      in if \<not> changed then (SliceV elems, False) else (SliceV (map fst out), True))"
| "sanitizeValue MapValue (MapV kvs) =
     (let out = map (\<lambda>(key, v).
            case sanitizeValue MapValue v of
              (sv, c) \<Rightarrow> if valid_string key then ((key, sv), c)
                         else ((to_valid_utf8 key replacementRune, sv), True)) kvs;
          changed = list_ex snd out
      in if \<not> changed then (MapV kvs, False) else (MapValue (map fst out), True))"
| "sanitizeValue MapValue (OtherV x) = (OtherV x, False)"

section \<open>Records\<close>

text \<open>\<^verbatim>\<open>Body\<close>, \<^verbatim>\<open>SetBody\<close>, what \<^verbatim>\<open>WalkAttributes\<close> visits, and \<^verbatim>\<open>SetAttributes\<close>.\<close>

record ('r, 'o) log_record_ops =
  lr_body :: "'r \<Rightarrow> 'o attr_value"
  lr_set_body :: "'o attr_value \<Rightarrow> 'r \<Rightarrow> 'r"
  lr_attrs :: "'r \<Rightarrow> 'o key_values"
  lr_set_attrs :: "'o key_values \<Rightarrow> 'r \<Rightarrow> 'r"

definition OnEmit ::
  "('o key_values \<Rightarrow> 'o attr_value) \<Rightarrow> ('r, 'o) log_record_ops \<Rightarrow> ('r \<Rightarrow> 'e) \<Rightarrow> 'r \<Rightarrow> 'e" where
  "OnEmit MapValue ops next_processor record =
     (let record = (case sanitizeValue MapValue (lr_body ops record) of
            (v, changed) \<Rightarrow> if changed then lr_set_body ops v record else record);
          dirty = list_ex (\<lambda>(key, v). \<not> valid_string key \<or> snd (sanitizeValue MapValue v)) (lr_attrs ops record);
          record = (if dirty
            then lr_set_attrs ops
              (map (\<lambda>(key, v). (sanitizeString key, fst (sanitizeValue MapValue v))) (lr_attrs ops record)) record
            else record)
      in next_processor record)"

text \<open>\<^verbatim>\<open>sdklog.Processor\<close>, with what each method says; the sanitiser delegates all but \<^verbatim>\<open>OnEmit\<close>.\<close>

record ('r, 'p, 'e) log_processor =
  pr_OnEmit :: "'r \<Rightarrow> 'e"
  pr_Enabled :: "'p \<Rightarrow> bool"
  pr_Shutdown :: 'e
  pr_ForceFlush :: 'e

definition utf8_Enabled :: "('r, 'p, 'e) log_processor \<Rightarrow> 'p \<Rightarrow> bool" where
  "utf8_Enabled next_processor param = pr_Enabled next_processor param"

definition utf8_Shutdown :: "('r, 'p, 'e) log_processor \<Rightarrow> 'e" where
  "utf8_Shutdown next_processor = pr_Shutdown next_processor"

definition utf8_ForceFlush :: "('r, 'p, 'e) log_processor \<Rightarrow> 'e" where
  "utf8_ForceFlush next_processor = pr_ForceFlush next_processor"

definition newUTF8Processor ::
  "('o key_values \<Rightarrow> 'o attr_value) \<Rightarrow> ('r, 'o) log_record_ops \<Rightarrow> ('r, 'p, 'e) log_processor \<Rightarrow>
     ('r, 'p, 'e) log_processor" where
  "newUTF8Processor MapValue ops next_processor =
     \<lparr>pr_OnEmit = OnEmit MapValue ops (pr_OnEmit next_processor), pr_Enabled = utf8_Enabled next_processor,
       pr_Shutdown = utf8_Shutdown next_processor, pr_ForceFlush = utf8_ForceFlush next_processor\<rparr>"

section \<open>Valid values\<close>

primrec value_valid :: "'o attr_value \<Rightarrow> bool" where
  "value_valid (StringV s) = valid_string s"
| "value_valid (StringSliceV elems) = list_all valid_string elems"
| "value_valid (SliceV elems) = list_all id (map value_valid elems)"
| "value_valid (MapV kvs) = list_all (\<lambda>(key, ok). valid_string key \<and> ok) (map (map_prod id value_valid) kvs)"
| "value_valid (OtherV x) = True"

lemma value_valid_SliceV [simp]: "value_valid (SliceV elems) \<longleftrightarrow> (\<forall>v\<in>set elems. value_valid v)"
  by (auto simp: list_all_iff)

lemma value_valid_MapV [simp]:
  "value_valid (MapV kvs) \<longleftrightarrow> (\<forall>(key, v)\<in>set kvs. valid_string key \<and> value_valid v)"
  by (auto simp: list_all_iff)

declare value_valid.simps(3,4) [simp del]

definition record_valid :: "('r, 'o) log_record_ops \<Rightarrow> 'r \<Rightarrow> bool" where
  "record_valid ops r \<longleftrightarrow> value_valid (lr_body ops r) \<and>
     (\<forall>(key, v)\<in>set (lr_attrs ops r). valid_string key \<and> value_valid v)"

text \<open>
  A map value holds pairs it was built from, in any order and with any choice among equal keys; setting the
  body or the attributes of a record sets them and leaves the other alone, and the record may drop attributes
  beyond its limit or equal keys but invents none.
\<close>

definition sdk_laws :: "('o key_values \<Rightarrow> 'o attr_value) \<Rightarrow> ('r, 'o) log_record_ops \<Rightarrow> bool" where
  "sdk_laws MapValue ops \<longleftrightarrow>
     (\<forall>kvs. \<exists>kvs'. MapValue kvs = MapV kvs' \<and> set kvs' \<subseteq> set kvs) \<and>
     (\<forall>v r. lr_body ops (lr_set_body ops v r) = v \<and> lr_attrs ops (lr_set_body ops v r) = lr_attrs ops r) \<and>
     (\<forall>kvs r. lr_body ops (lr_set_attrs ops kvs r) = lr_body ops r \<and>
        set (lr_attrs ops (lr_set_attrs ops kvs r)) \<subseteq> set kvs)"

lemma replacement_rune: "replacementRune = utf8_encode 0xFFFD"
proof -
  have "utf8_encode 0xFFFD = [char_of (239 :: nat), char_of (191 :: nat), char_of (189 :: nat)]"
    by (simp add: utf8_encode_def)
  moreover have "byte CHR 0xEF = 239" "byte CHR 0xBF = 191" "byte CHR 0xBD = 189" by (simp_all add: byte_def)
  then have "char_of (239 :: nat) = CHR 0xEF" "char_of (191 :: nat) = CHR 0xBF" "char_of (189 :: nat) = CHR 0xBD"
    by (metis byte_def char_of_char)+
  ultimately show ?thesis by (simp add: replacementRune_def)
qed

lemma scalar_replacement: "scalar 0xFFFD"
  by (simp add: scalar_def)

lemma replacement_valid [simp]: "valid_string replacementRune"
  using valid_encode [OF scalar_replacement, of "[]"] by (simp add: replacement_rune)

lemma list_ex_changed: "list_ex (\<lambda>(y, x). y \<noteq> x) (zip (map f xs) xs) \<longleftrightarrow> (\<exists>x\<in>set xs. f x \<noteq> x)"
  by (induction xs) auto

lemma list_ex_of_map: "list_ex P (map f xs) \<longleftrightarrow> list_ex (\<lambda>x. P (f x)) xs"
  by (induction xs) simp_all

lemma sanitizeString_valid [simp]: "valid_string (sanitizeString s)"
  by (simp add: sanitizeString_def)

lemma sanitizeString_id: "sanitizeString s = s \<longleftrightarrow> valid_string s"
  by (auto simp: sanitizeString_def to_valid_id_iff)

lemma sanitizeString_eq: "sanitizeString s = to_valid_utf8 s replacementRune"
  by (simp add: sanitizeString_def to_valid_id)

lemma sanitize_flag: "snd (sanitizeValue MapValue v) \<longleftrightarrow> \<not> value_valid v"
proof (induction MapValue v rule: sanitizeValue.induct)
  case (2 MapValue elems)
  show ?case
    by (auto simp: Let_def list_ex_changed list_all_iff sanitizeString_id)
next
  case (3 MapValue elems)
  then show ?case by (auto simp: Let_def list_ex_iff)
next
  case (4 MapValue kvs)
  then have flag: "snd (sanitizeValue MapValue v) \<longleftrightarrow> \<not> value_valid v" if "(key, v) \<in> set kvs" for key v
    using that by force
  have "snd (sanitizeValue MapValue (MapV kvs)) \<longleftrightarrow>
      (\<exists>kv\<in>set kvs. \<not> valid_string (fst kv) \<or> snd (sanitizeValue MapValue (snd kv)))"
    by (simp add: Let_def list_ex_of_map split_def) (simp add: list_ex_iff if_distrib [of snd])
  also have "\<dots> \<longleftrightarrow> (\<exists>kv\<in>set kvs. \<not> valid_string (fst kv) \<or> \<not> value_valid (snd kv))"
    using flag by (metis prod.collapse)
  also have "\<dots> \<longleftrightarrow> \<not> value_valid (MapV kvs)" by (simp add: split_def)
  finally show ?case .
qed simp_all

lemma sanitize_same: "\<not> snd (sanitizeValue MapValue v) \<Longrightarrow> fst (sanitizeValue MapValue v) = v"
  by (cases v) (auto simp: Let_def split: if_splits)

lemma sanitize_valid:
  assumes "sdk_laws MapValue ops"
  shows "value_valid (fst (sanitizeValue MapValue v))"
  using assms
proof (induction MapValue v rule: sanitizeValue.induct)
  case (2 MapValue elems)
  show ?case using sanitize_flag [of MapValue "StringSliceV elems"]
    by (auto simp: Let_def list_all_iff)
next
  case (3 MapValue elems)
  then show ?case using sanitize_flag [of MapValue "SliceV elems"]
    by (auto simp: Let_def)
next
  case (4 MapValue kvs)
  let ?out = "map (\<lambda>(key, v). case sanitizeValue MapValue v of
      (sv, c) \<Rightarrow> if valid_string key then ((key, sv), c)
                 else ((to_valid_utf8 key replacementRune, sv), True)) kvs"
  have pairs: "\<forall>(key, v)\<in>set (map fst ?out). valid_string key \<and> value_valid v"
  proof -
    have "value_valid (fst (sanitizeValue MapValue v))" if "(key, v) \<in> set kvs" for key v
      using 4 that by force
    then show ?thesis by (auto simp: split_def)
  qed
  obtain kvs' where m: "MapValue (map fst ?out) = MapV kvs'" "set kvs' \<subseteq> set (map fst ?out)"
    using 4(2) unfolding sdk_laws_def by blast
  have "value_valid (MapValue (map fst ?out))"
    unfolding m(1) value_valid_MapV using pairs m(2) by blast
  moreover have "value_valid (MapV kvs)" if "\<not> snd (sanitizeValue MapValue (MapV kvs))"
    using that sanitize_flag by blast
  ultimately show ?case by (simp add: Let_def split: if_splits)
qed simp_all

section \<open>The decoded text\<close>

text \<open>Each maximal run of undecodable bytes, once.\<close>

fun collapse :: "bool \<Rightarrow> string option list \<Rightarrow> string option list" where
  "collapse invalid [] = []"
| "collapse invalid (None # rs) = (if invalid then [] else [None]) @ collapse True rs"
| "collapse invalid (Some r # rs) = Some r # collapse False rs"

lemma runes_replacement [simp]: "runes (replacementRune @ t) = Some replacementRune # runes t"
  using runes_rune [OF scalar_replacement, of t] unfolding replacement_rune .

lemma runes_to_valid:
  "runes (to_valid_loop replacementRune i s) =
     map (\<lambda>r. Some (case r of None \<Rightarrow> replacementRune | Some u \<Rightarrow> u)) (collapse i (runes s))"
  by (induction s arbitrary: i rule: rune_induct) (simp_all add: to_valid_bad runes_bad)

section \<open>Properties\<close>

text \<open>C28: Sanitising keeps the text: the result is valid UTF-8, a sequence of encoded Unicode scalar values; it reads,
  rune by rune, as the original with each maximal run of undecodable bytes replaced by one U+FFFD and every
  decodable rune kept in place; and exactly the valid strings come back unchanged.\<close>
theorem sanitized_text:
  "(\<exists>cps. list_all scalar cps \<and> sanitizeString s = concat (map utf8_encode cps)) \<and>
   runes (sanitizeString s) =
     map (\<lambda>r. Some (case r of None \<Rightarrow> utf8_encode 0xFFFD | Some u \<Rightarrow> u)) (collapse False (runes s)) \<and>
   (sanitizeString s = s \<longleftrightarrow> (\<exists>cps. list_all scalar cps \<and> s = concat (map utf8_encode cps)))"
proof (intro conjI)
  show "\<exists>cps. list_all scalar cps \<and> sanitizeString s = concat (map utf8_encode cps)"
    using sanitizeString_valid valid_string_iff by blast
  show "runes (sanitizeString s) =
      map (\<lambda>r. Some (case r of None \<Rightarrow> utf8_encode 0xFFFD | Some u \<Rightarrow> u)) (collapse False (runes s))"
    using runes_to_valid [of False s] unfolding sanitizeString_eq to_valid_utf8_def replacement_rune .
  show "sanitizeString s = s \<longleftrightarrow> (\<exists>cps. list_all scalar cps \<and> s = concat (map utf8_encode cps))"
    using sanitizeString_id valid_string_iff by blast
qed

text \<open>What the next processor is given: a valid record, and the record itself when it was valid.\<close>

lemma OnEmit_record:
  assumes "sdk_laws MapValue ops"
  shows "\<exists>r'. OnEmit MapValue ops next_processor r = next_processor r' \<and> record_valid ops r' \<and>
    (record_valid ops r \<longrightarrow> r' = r)"
proof -
  let ?clean = "\<lambda>v. sanitizeValue MapValue v"
  let ?r1 = "if snd (?clean (lr_body ops r)) then lr_set_body ops (fst (?clean (lr_body ops r))) r else r"
  let ?kvs = "map (\<lambda>(key, v). (sanitizeString key, fst (?clean v))) (lr_attrs ops ?r1)"
  let ?dirty = "list_ex (\<lambda>(key, v). \<not> valid_string key \<or> snd (?clean v)) (lr_attrs ops ?r1)"
  let ?r2 = "if ?dirty then lr_set_attrs ops ?kvs ?r1 else ?r1"
  have body: "value_valid (lr_body ops ?r1)" and attrs: "lr_attrs ops ?r1 = lr_attrs ops r"
    using assms sanitize_valid [OF assms] sanitize_flag [of MapValue "lr_body ops r"] by (simp_all add: sdk_laws_def)
  have clean: "\<forall>(key, v)\<in>set ?kvs. valid_string key \<and> value_valid v"
    using sanitize_valid [OF assms] by auto
  have dirty: "?dirty \<longleftrightarrow> \<not> (\<forall>(key, v)\<in>set (lr_attrs ops ?r1). valid_string key \<and> value_valid v)"
    by (auto simp: list_ex_iff sanitize_flag)
  have "record_valid ops ?r2"
  proof (cases ?dirty)
    case True
    have "set (lr_attrs ops (lr_set_attrs ops ?kvs ?r1)) \<subseteq> set ?kvs" "lr_body ops (lr_set_attrs ops ?kvs ?r1) = lr_body ops ?r1"
      using assms unfolding sdk_laws_def by blast+
    then have "record_valid ops (lr_set_attrs ops ?kvs ?r1)" unfolding record_valid_def using body clean by auto
    with True show ?thesis by simp
  next
    case False
    with body dirty show ?thesis unfolding record_valid_def by auto
  qed
  moreover have "?r2 = r" if "record_valid ops r"
    using that dirty attrs unfolding record_valid_def by (auto simp: sanitize_flag)
  moreover have "OnEmit MapValue ops next_processor r = next_processor ?r2"
    by (simp add: OnEmit_def Let_def split_def)
  ultimately show ?thesis by blast
qed

lemma OnEmit_valid: "sdk_laws MapValue ops \<Longrightarrow> record_valid ops r \<Longrightarrow> OnEmit MapValue ops next_processor r = next_processor r"
  using OnEmit_record by metis

lemma OnEmit_twice:
  "sdk_laws MapValue ops \<Longrightarrow> OnEmit MapValue ops (OnEmit MapValue ops next_processor) = OnEmit MapValue ops next_processor"
proof
  fix r
  assume laws: "sdk_laws MapValue ops"
  obtain r' where r': "OnEmit MapValue ops (\<lambda>r. r) r = r'" "record_valid ops r'"
    using OnEmit_record [OF laws, of "\<lambda>r. r" r] by auto
  have "OnEmit MapValue ops f r = f r'" for f
    using r'(1) unfolding OnEmit_def Let_def by auto
  then show "OnEmit MapValue ops (OnEmit MapValue ops next_processor) r = OnEmit MapValue ops next_processor r"
    using OnEmit_valid [OF laws r'(2)] by metis
qed

text \<open>C29: The processor hands exactly one record on and returns what the next processor says: every string of that
  record, in the body, the attribute keys and the attribute values at any depth, is valid UTF-8, so one bad
  peer message cannot make the exporter reject a batch; a record that was valid is handed on as it is. Every
  other call goes through to the next processor, and a processor wrapped twice is the one wrapped once.\<close>
theorem emitted_record_valid:
  assumes "sdk_laws MapValue ops"
  shows "(\<exists>r'. pr_OnEmit (newUTF8Processor MapValue ops next_processor) r = pr_OnEmit next_processor r' \<and>
      record_valid ops r' \<and> (record_valid ops r \<longrightarrow> r' = r)) \<and>
    pr_Enabled (newUTF8Processor MapValue ops next_processor) = pr_Enabled next_processor \<and>
    pr_Shutdown (newUTF8Processor MapValue ops next_processor) = pr_Shutdown next_processor \<and>
    pr_ForceFlush (newUTF8Processor MapValue ops next_processor) = pr_ForceFlush next_processor \<and>
    newUTF8Processor MapValue ops (newUTF8Processor MapValue ops next_processor) =
      newUTF8Processor MapValue ops next_processor"
proof -
  have "newUTF8Processor MapValue ops (newUTF8Processor MapValue ops next_processor) =
      newUTF8Processor MapValue ops next_processor"
    by (simp add: newUTF8Processor_def OnEmit_twice [OF assms] utf8_Enabled_def utf8_Shutdown_def
        utf8_ForceFlush_def fun_eq_iff)
  then show ?thesis
    using OnEmit_record [OF assms, of "pr_OnEmit next_processor" r]
    by (simp add: newUTF8Processor_def utf8_Enabled_def utf8_Shutdown_def utf8_ForceFlush_def fun_eq_iff)
qed

section \<open>Witnesses\<close>

definition plain_record_ops :: "(unit attr_value \<times> unit key_values, unit) log_record_ops" where
  "plain_record_ops = \<lparr>lr_body = fst, lr_set_body = (\<lambda>v r. (v, snd r)), lr_attrs = snd,
     lr_set_attrs = (\<lambda>kvs r. (fst r, kvs))\<rparr>"

theorem emitted_record_valid_witness:
  "\<exists>r'. pr_OnEmit (newUTF8Processor MapV plain_record_ops
      \<lparr>pr_OnEmit = (\<lambda>r. r), pr_Enabled = (\<lambda>p :: unit. True), pr_Shutdown = (StringV [], []), pr_ForceFlush = (StringV [], [])\<rparr>)
      (StringV [CHR 0xFF, CHR ''a''], [([CHR 0xC0], OtherV ())]) = r' \<and>
     record_valid plain_record_ops r'"
proof -
  have "sdk_laws MapV plain_record_ops" by (simp add: sdk_laws_def plain_record_ops_def)
  from emitted_record_valid [OF this, of "\<lparr>pr_OnEmit = (\<lambda>r. r), pr_Enabled = (\<lambda>p :: unit. True), pr_Shutdown = (StringV [], []), pr_ForceFlush = (StringV [], [])\<rparr>"]
  show ?thesis by auto
qed

end
