(* ===== verification/PolicyJson.thy ===== *)
theory PolicyJson
  imports Evaluator LogSanitize
begin

text \<open>
  The JSON forms of \<^verbatim>\<open>pkg/iampolicy/types.go\<close>: \<^verbatim>\<open>StringOrArr\<close> and \<^verbatim>\<open>ConditionValue\<close> with their custom
  decoding and encoding. \<^verbatim>\<open>encoding/json\<close> hands an unmarshaler the text of one JSON value, here the value
  itself; a number keeps its literal text, as \<^verbatim>\<open>UseNumber\<close> does. A Go slice is a list option, \<open>None\<close> being
  the nil slice, because JSON tells them apart.
\<close>

section \<open>JSON values\<close>

datatype json = JNull | JBool bool | JNumber string | JString string
  | JArray "json list" | JObject "(string \<times> json) list"

text \<open>\<^verbatim>\<open>json.Marshal\<close> of a string writes U+FFFD for every byte that does not decode; the decoder likewise.\<close>

definition json_text :: "string \<Rightarrow> string" where
  "json_text s = concat (map (\<lambda>r. case r of None \<Rightarrow> utf8_encode 0xFFFD | Some u \<Rightarrow> u) (runes s))"

definition marshal_string :: "string \<Rightarrow> json" where
  "marshal_string s = JString (json_text s)"

definition marshal_strings :: "string list option \<Rightarrow> json" where
  "marshal_strings v = (case v of None \<Rightarrow> JNull | Some ss \<Rightarrow> JArray (map marshal_string ss))"

text \<open>
  \<^verbatim>\<open>json.Unmarshal\<close> into a \<^verbatim>\<open>[]string\<close>: null is the nil slice, and a null element leaves the zero value, the
  empty string, in its place; any other kind is a type error.
\<close>

fun unmarshal_element :: "json \<Rightarrow> string option" where
  "unmarshal_element (JString s) = Some s"
| "unmarshal_element JNull = Some []"
| "unmarshal_element _ = None"

fun unmarshal_strings :: "json \<Rightarrow> string list option option" where
  "unmarshal_strings JNull = Some None"
| "unmarshal_strings (JArray es) = map_option Some (those (map unmarshal_element es))"
| "unmarshal_strings _ = None"

section \<open>StringOrArr\<close>

definition StringOrArr_UnmarshalJSON :: "json \<Rightarrow> string list option option" where
  "StringOrArr_UnmarshalJSON data =
     (if data = JNull then Some None
      else case data of
          JString single \<Rightarrow> Some (Some [single])
        | _ \<Rightarrow> unmarshal_strings data)"

definition StringOrArr_MarshalJSON :: "string list option \<Rightarrow> json" where
  "StringOrArr_MarshalJSON s =
     (case s of Some [x] \<Rightarrow> marshal_string x | _ \<Rightarrow> marshal_strings s)"

section \<open>ConditionValue\<close>

text \<open>\<^verbatim>\<open>conditionScalar\<close>: \<open>None\<close> is the error.\<close>

definition conditionScalar :: "json \<Rightarrow> string option" where
  "conditionScalar v =
     (case v of
        JString t \<Rightarrow> Some t
      | JBool t \<Rightarrow> Some (if t then ''true'' else ''false'')
      | JNumber t \<Rightarrow> Some t
      | _ \<Rightarrow> None)"

fun condition_elements :: "json list \<Rightarrow> string list \<Rightarrow> string list option" where
  "condition_elements [] out = Some out"
| "condition_elements (elem # arr) out =
     (case conditionScalar elem of None \<Rightarrow> None | Some s \<Rightarrow> condition_elements arr (out @ [s]))"

definition ConditionValue_UnmarshalJSON :: "json \<Rightarrow> string list option option" where
  "ConditionValue_UnmarshalJSON raw =
     (case raw of
        JArray arr \<Rightarrow> (case condition_elements arr [] of None \<Rightarrow> None | Some out \<Rightarrow> Some (Some out))
      | JNull \<Rightarrow> Some None
      | _ \<Rightarrow> (case conditionScalar raw of None \<Rightarrow> None | Some s \<Rightarrow> Some (Some [s])))"

definition ConditionValue_MarshalJSON :: "string list option \<Rightarrow> json" where
  "ConditionValue_MarshalJSON c =
     (case c of Some [x] \<Rightarrow> marshal_string x | _ \<Rightarrow> marshal_strings c)"

text \<open>The list the evaluator ranges over.\<close>

definition slice_elements :: "string list option \<Rightarrow> string list" where
  "slice_elements v = (case v of None \<Rightarrow> [] | Some ss \<Rightarrow> ss)"

section \<open>Lemmas\<close>

lemma scalar_fffd: "scalar 0xFFFD" by (simp add: scalar_def)

lemma json_text_valid [simp]: "valid_string (json_text s)"
  using valid_encode [OF scalar_fffd, of "[]"] by (simp add: json_text_def runes_filled_valid)

lemma json_text_id [simp]: "valid_string s \<Longrightarrow> json_text s = s"
  by (simp add: json_text_def runes_valid)

lemma condition_elements_eq: "condition_elements arr out = map_option (\<lambda>ss. out @ ss) (those (map conditionScalar arr))"
proof (induction arr arbitrary: out)
  case (Cons e arr)
  then show ?case by (cases "those (map conditionScalar arr)") (simp_all split: option.splits)
qed simp

lemma those_Some_iff: "those xs = Some ys \<longleftrightarrow> xs = map Some ys"
proof (induction xs arbitrary: ys)
  case (Cons x xs)
  then show ?case by (cases ys) (auto split: option.splits)
qed auto

lemma those_map_Some [simp]: "those (map Some ss) = Some ss"
  by (simp add: those_Some_iff)

lemma marshalled_elements:
  "those (map unmarshal_element (map marshal_string ss)) = Some (map json_text ss)"
  "those (map conditionScalar (map marshal_string ss)) = Some (map json_text ss)"
  by (simp_all add: those_Some_iff marshal_string_def conditionScalar_def)

lemma marshal_cases:
  obtains "v = None" | x where "v = Some [x]" | ss where "v = Some ss" "length ss \<noteq> 1"
    "StringOrArr_MarshalJSON v = JArray (map marshal_string ss)"
    "ConditionValue_MarshalJSON v = JArray (map marshal_string ss)"
proof (cases v)
  case (Some ss)
  then show ?thesis
    using that
    by (cases ss; cases "tl ss")
      (simp_all add: StringOrArr_MarshalJSON_def ConditionValue_MarshalJSON_def marshal_strings_def)
qed (use that in blast)

lemma StringOrArr_marshalled: "StringOrArr_UnmarshalJSON (StringOrArr_MarshalJSON v) = Some (map_option (map json_text) v)"
proof (cases v rule: marshal_cases)
  case (3 ss)
  then show ?thesis
    by (simp add: StringOrArr_UnmarshalJSON_def marshalled_elements del: map_map list.map_comp)
qed (simp_all add: StringOrArr_UnmarshalJSON_def StringOrArr_MarshalJSON_def marshal_strings_def marshal_string_def)

lemma ConditionValue_marshalled:
  "ConditionValue_UnmarshalJSON (ConditionValue_MarshalJSON v) = Some (map_option (map json_text) v)"
proof (cases v rule: marshal_cases)
  case (3 ss)
  then show ?thesis
    by (simp add: ConditionValue_UnmarshalJSON_def condition_elements_eq marshalled_elements del: map_map list.map_comp)
qed (simp_all add: ConditionValue_UnmarshalJSON_def ConditionValue_MarshalJSON_def marshal_strings_def marshal_string_def
       conditionScalar_def)

text \<open>Whatever the decoder produced is valid text, so is what the unmarshalers take from it.\<close>

primrec json_valid :: "json \<Rightarrow> bool" where
  "json_valid JNull = True"
| "json_valid (JBool b) = True"
| "json_valid (JNumber t) = list_all is_ascii t"
| "json_valid (JString s) = valid_string s"
| "json_valid (JArray es) = list_all id (map json_valid es)"
| "json_valid (JObject members) = list_all (\<lambda>(k, ok). valid_string k \<and> ok) (map (map_prod id json_valid) members)"

lemma json_valid_elements: "json_valid (JArray es) \<longleftrightarrow> (\<forall>e\<in>set es. json_valid e)"
  by (auto simp: list_all_iff)

declare json_valid.simps(5) [simp del]

lemma conditionScalar_valid: "conditionScalar j = Some s \<Longrightarrow> json_valid j \<Longrightarrow> valid_string s"
  by (auto simp: conditionScalar_def valid_ascii is_ascii_def byte_def split: json.splits)

lemma unmarshal_element_valid: "unmarshal_element j = Some s \<Longrightarrow> json_valid j \<Longrightarrow> valid_string s"
  by (cases j) auto

lemma elements_valid:
  assumes "map f es = map Some ss" and "\<forall>e\<in>set es. json_valid e"
    and "\<And>e s. f e = Some s \<Longrightarrow> json_valid e \<Longrightarrow> valid_string s"
  shows "\<forall>s\<in>set ss. valid_string s"
proof
  fix s
  assume "s \<in> set ss"
  then have "Some s \<in> set (map f es)" unfolding assms(1) by simp
  then show "valid_string s" using assms(2,3) by force
qed

lemma StringOrArr_valid:
  assumes "StringOrArr_UnmarshalJSON j = Some v" and "json_valid j"
  shows "\<forall>s\<in>set (slice_elements v). valid_string s"
proof (cases j)
  case (JArray es)
  then obtain ss where ss: "map unmarshal_element es = map Some ss" "v = Some ss"
    using assms(1) by (auto simp: StringOrArr_UnmarshalJSON_def those_Some_iff)
  then show ?thesis
    using elements_valid [OF ss(1)] unmarshal_element_valid assms(2) unfolding JArray json_valid_elements
    by (auto simp: slice_elements_def)
qed (use assms in \<open>auto simp: StringOrArr_UnmarshalJSON_def slice_elements_def\<close>)

lemma ConditionValue_valid:
  assumes "ConditionValue_UnmarshalJSON j = Some v" and "json_valid j"
  shows "\<forall>s\<in>set (slice_elements v). valid_string s"
proof (cases j)
  case (JArray es)
  then obtain ss where ss: "map conditionScalar es = map Some ss" "v = Some ss"
    using assms(1) by (auto simp: ConditionValue_UnmarshalJSON_def condition_elements_eq those_Some_iff split: option.splits)
  then show ?thesis
    using elements_valid [OF ss(1)] conditionScalar_valid assms(2) unfolding JArray json_valid_elements
    by (auto simp: slice_elements_def)
qed (use assms conditionScalar_valid in
    \<open>auto simp: ConditionValue_UnmarshalJSON_def slice_elements_def conditionScalar_def valid_ascii is_ascii_def byte_def split: option.splits\<close>)

lemma text_of_valid: "\<forall>s\<in>set (slice_elements v). valid_string s \<Longrightarrow> map_option (map json_text) v = v"
  by (cases v) (auto simp: slice_elements_def intro: map_idI)

section \<open>Properties\<close>

text \<open>Encoding a decoded policy value and decoding it again changes nothing, for both shapes of field: a document
  that is stored re-marshalled selects and tests exactly what the original did, nil and empty lists kept
  apart.\<close>
theorem policy_values_roundtrip:
  assumes "json_valid j"
  shows "(StringOrArr_UnmarshalJSON j = Some v \<longrightarrow> StringOrArr_UnmarshalJSON (StringOrArr_MarshalJSON v) = Some v) \<and>
    (ConditionValue_UnmarshalJSON j = Some v \<longrightarrow> ConditionValue_UnmarshalJSON (ConditionValue_MarshalJSON v) = Some v)"
  using StringOrArr_valid ConditionValue_valid assms
  by (simp add: StringOrArr_marshalled ConditionValue_marshalled text_of_valid)

text \<open>C30: Exactly these JSON shapes decode, every other one is an error: a condition value is null, a string, a bool, a
  number, which keeps its literal text, or an array of such scalars without null; an action or resource is
  null, a string, or an array of strings in which, unlike what the comment says, null is accepted too and
  becomes the empty string.\<close>
theorem policy_values_accepted:
  "(ConditionValue_UnmarshalJSON j = Some v \<longleftrightarrow>
      j = JNull \<and> v = None \<or>
      (\<exists>s. v = Some [s] \<and> j \<in> {JString s, JNumber s} \<union> {JBool b |b. s = (if b then ''true'' else ''false'')}) \<or>
      (\<exists>js ss. j = JArray js \<and> v = Some ss \<and>
         list_all2 (\<lambda>e s. e \<in> {JString s, JNumber s} \<union> {JBool b |b. s = (if b then ''true'' else ''false'')}) js ss)) \<and>
   (StringOrArr_UnmarshalJSON j = Some v \<longleftrightarrow>
      j = JNull \<and> v = None \<or> (\<exists>s. j = JString s \<and> v = Some [s]) \<or>
      (\<exists>js ss. j = JArray js \<and> v = Some ss \<and> list_all2 (\<lambda>e s. e = JString s \<or> e = JNull \<and> s = []) js ss))"
proof -
  have elements: "map f js = map Some ss \<longleftrightarrow> list_all2 (\<lambda>e s. f e = Some s) js ss" for f :: "json \<Rightarrow> string option" and js ss
    by (simp add: list_all2_map1 list_all2_map2 flip: list.rel_eq)
  have cs: "conditionScalar e = Some s \<longleftrightarrow> e \<in> {JString s, JNumber s} \<union> {JBool b |b. s = (if b then ''true'' else ''false'')}" for e s
    by (cases e) (auto simp: conditionScalar_def)
  have ue: "unmarshal_element e = Some s \<longleftrightarrow> e = JString s \<or> e = JNull \<and> s = []" for e s
    by (cases e) auto
  have "ConditionValue_UnmarshalJSON j = Some v \<longleftrightarrow>
      j = JNull \<and> v = None \<or> (\<exists>s. v = Some [s] \<and> conditionScalar j = Some s) \<or>
      (\<exists>js ss. j = JArray js \<and> v = Some ss \<and> map conditionScalar js = map Some ss)"
    by (cases j) (auto simp: ConditionValue_UnmarshalJSON_def condition_elements_eq those_Some_iff conditionScalar_def
        split: option.splits)
  moreover have "StringOrArr_UnmarshalJSON j = Some v \<longleftrightarrow>
      j = JNull \<and> v = None \<or> (\<exists>s. j = JString s \<and> v = Some [s]) \<or>
      (\<exists>js ss. j = JArray js \<and> v = Some ss \<and> map unmarshal_element js = map Some ss)"
    by (cases j) (auto simp: StringOrArr_UnmarshalJSON_def those_Some_iff)
  ultimately show ?thesis unfolding elements cs ue by blast
qed

section \<open>Witnesses\<close>

theorem policy_values_roundtrip_witness:
  "StringOrArr_UnmarshalJSON (StringOrArr_MarshalJSON (Some [''s3:Get*'', ''''])) = Some (Some [''s3:Get*'', ''''])"
proof -
  have "valid_string ''s3:Get*''" by (rule valid_ascii) (simp add: is_ascii_def byte_def)
  then have "json_valid (JArray [JString ''s3:Get*'', JNull])" by (simp add: json_valid_elements)
  from policy_values_roundtrip [OF this] show ?thesis by (simp add: StringOrArr_UnmarshalJSON_def)
qed

end
