(* ===== verification/PolicyEncoding.thy ===== *)
theory PolicyEncoding
  imports PolicyJson "HOL-Library.AList"
begin

text \<open>
  Whole policy documents in JSON: what \<^verbatim>\<open>encoding/json\<close> makes of the structs of \<^verbatim>\<open>pkg/iampolicy/types.go\<close>
  with their field tags and \<^verbatim>\<open>omitempty\<close>. A member is decoded into the field of its exact name, or else the
  first field whose name is equal to it under case folding; unknown members are skipped; any error fails the
  document. A map is encoded with its keys sorted. The text of a raw message is the parameter \<open>raw_text\<close>. Of a
  second \<^verbatim>\<open>Statement\<close> member, which Go decodes over the statements of the first, there is no model: the later
  one replaces the earlier.
\<close>

record raw_text =
  rt_text :: "json \<Rightarrow> string"
  rt_value :: "string \<Rightarrow> json"

section \<open>Decoding\<close>

definition field_of :: "unicode \<Rightarrow> string list \<Rightarrow> string \<Rightarrow> string option" where
  "field_of U names key = (if key \<in> set names then Some key else find (\<lambda>name. equal_fold U name key) names)"

fun decode_members :: "('s \<Rightarrow> string \<times> json \<Rightarrow> 's option) \<Rightarrow> 's \<Rightarrow> (string \<times> json) list \<Rightarrow> 's option" where
  "decode_members set_member st [] = Some st"
| "decode_members set_member st (m # ms) =
     (case set_member st m of None \<Rightarrow> None | Some st' \<Rightarrow> decode_members set_member st' ms)"

definition decode_string :: "string \<Rightarrow> json \<Rightarrow> string option" where
  "decode_string current j = (case j of JString s \<Rightarrow> Some s | JNull \<Rightarrow> Some current | _ \<Rightarrow> None)"

definition decode_list :: "json \<Rightarrow> string list option" where
  "decode_list j = map_option slice_elements (StringOrArr_UnmarshalJSON j)"

definition decode_values :: "(string \<times> string list) list \<Rightarrow> string \<times> json \<Rightarrow> (string \<times> string list) list option" where
  "decode_values m member =
     (case member of (key, j) \<Rightarrow> map_option (\<lambda>v. AList.update key (slice_elements v) m) (ConditionValue_UnmarshalJSON j))"

definition decode_operator :: "condition_block \<Rightarrow> string \<times> json \<Rightarrow> condition_block option" where
  "decode_operator m member =
     (case member of (operator, j) \<Rightarrow>
        (case j of
           JNull \<Rightarrow> Some (AList.update operator [] m)
         | JObject ms \<Rightarrow> map_option (\<lambda>byKey. AList.update operator byKey m) (decode_members decode_values [] ms)
         | _ \<Rightarrow> None))"

definition decode_condition :: "condition_block \<Rightarrow> json \<Rightarrow> condition_block option" where
  "decode_condition current j =
     (case j of JNull \<Rightarrow> Some [] | JObject ms \<Rightarrow> decode_members decode_operator current ms | _ \<Rightarrow> None)"

definition statement_fields :: "string list" where
  "statement_fields =
     [''Sid'', ''Effect'', ''Action'', ''Resource'', ''Condition'', ''NotAction'', ''NotResource'', ''Principal'']"

definition decode_statement_member :: "unicode \<Rightarrow> raw_text \<Rightarrow> statement \<Rightarrow> string \<times> json \<Rightarrow> statement option" where
  "decode_statement_member U raw s member =
     (case member of (key, j) \<Rightarrow>
        (case field_of U statement_fields key of
           None \<Rightarrow> Some s
         | Some f \<Rightarrow>
             if f = ''Sid'' then map_option (\<lambda>v. s\<lparr>Sid := v\<rparr>) (decode_string (Sid s) j)
             else if f = ''Effect'' then map_option (\<lambda>v. s\<lparr>Effect := v\<rparr>) (decode_string (Effect s) j)
             else if f = ''Action'' then map_option (\<lambda>v. s\<lparr>Action := v\<rparr>) (decode_list j)
             else if f = ''Resource'' then map_option (\<lambda>v. s\<lparr>Resource := v\<rparr>) (decode_list j)
             else if f = ''Condition'' then map_option (\<lambda>v. s\<lparr>Condition := v\<rparr>) (decode_condition (Condition s) j)
             else if f = ''NotAction'' then map_option (\<lambda>v. s\<lparr>NotAction := v\<rparr>) (decode_list j)
             else if f = ''NotResource'' then map_option (\<lambda>v. s\<lparr>NotResource := v\<rparr>) (decode_list j)
             else Some (s\<lparr>Principal := rt_text raw j\<rparr>)))"

definition zero_statement :: statement where
  "zero_statement = \<lparr>Sid = [], Effect = [], Action = [], Resource = [], Condition = [], NotAction = [], NotResource = [],
     Principal = []\<rparr>"

definition decode_statement :: "unicode \<Rightarrow> raw_text \<Rightarrow> json \<Rightarrow> statement option" where
  "decode_statement U raw j =
     (case j of
        JNull \<Rightarrow> Some zero_statement
      | JObject ms \<Rightarrow> decode_members (decode_statement_member U raw) zero_statement ms
      | _ \<Rightarrow> None)"

definition decode_statements :: "unicode \<Rightarrow> raw_text \<Rightarrow> json \<Rightarrow> statement list option" where
  "decode_statements U raw j =
     (case j of
        JNull \<Rightarrow> Some []
      | JArray es \<Rightarrow> those (map (decode_statement U raw) es)
      | _ \<Rightarrow> None)"

definition decode_document_member :: "unicode \<Rightarrow> raw_text \<Rightarrow> policy_document \<Rightarrow> string \<times> json \<Rightarrow> policy_document option" where
  "decode_document_member U raw d member =
     (case member of (key, j) \<Rightarrow>
        (case field_of U [''Version'', ''Statement''] key of
           None \<Rightarrow> Some d
         | Some f \<Rightarrow>
             if f = ''Version'' then map_option (\<lambda>v. d\<lparr>Version := v\<rparr>) (decode_string (Version d) j)
             else map_option (\<lambda>v. d\<lparr>Statement := v\<rparr>) (decode_statements U raw j)))"

definition decode_document :: "unicode \<Rightarrow> raw_text \<Rightarrow> json \<Rightarrow> policy_document option" where
  "decode_document U raw j =
     (case j of
        JNull \<Rightarrow> Some \<lparr>Version = [], Statement = []\<rparr>
      | JObject ms \<Rightarrow> decode_members (decode_document_member U raw) \<lparr>Version = [], Statement = []\<rparr> ms
      | _ \<Rightarrow> None)"

section \<open>Encoding\<close>

text \<open>An empty list may be nil or not: \<open>nil\<close> says which, for every field at once.\<close>

definition as_slice :: "bool \<Rightarrow> string list \<Rightarrow> string list option" where
  "as_slice nil ss = (if nil \<and> ss = [] then None else Some ss)"

definition encode_values :: "bool \<Rightarrow> (string \<times> string list) list \<Rightarrow> json" where
  "encode_values nil byKey =
     JObject (map (\<lambda>(key, vs). (json_text key, ConditionValue_MarshalJSON (as_slice nil vs))) (sort_key fst byKey))"

definition encode_condition :: "bool \<Rightarrow> condition_block \<Rightarrow> json" where
  "encode_condition nil c =
     JObject (map (\<lambda>(operator, byKey). (json_text operator, encode_values nil byKey)) (sort_key fst c))"

definition encode_statement :: "raw_text \<Rightarrow> bool \<Rightarrow> statement \<Rightarrow> json" where
  "encode_statement raw nil s =
     JObject
       ((if Sid s = [] then [] else [(''Sid'', marshal_string (Sid s))]) @
        [(''Effect'', marshal_string (Effect s)),
         (''Action'', StringOrArr_MarshalJSON (as_slice nil (Action s))),
         (''Resource'', StringOrArr_MarshalJSON (as_slice nil (Resource s)))] @
        (if Condition s = [] then [] else [(''Condition'', encode_condition nil (Condition s))]) @
        (if NotAction s = [] then [] else [(''NotAction'', StringOrArr_MarshalJSON (Some (NotAction s)))]) @
        (if NotResource s = [] then [] else [(''NotResource'', StringOrArr_MarshalJSON (Some (NotResource s)))]) @
        (if Principal s = [] then [] else [(''Principal'', rt_value raw (Principal s))]))"

definition encode_document :: "raw_text \<Rightarrow> bool \<Rightarrow> policy_document \<Rightarrow> json" where
  "encode_document raw nil d =
     JObject [(''Version'', marshal_string (Version d)),
       (''Statement'', if nil \<and> Statement d = [] then JNull else JArray (map (encode_statement raw nil) (Statement d)))]"

section \<open>Encodable documents\<close>

text \<open>
  All text is valid UTF-8, the condition maps have each key once, as Go maps do, and a principal is the compact
  text of its JSON value.
\<close>

definition values_ok :: "(string \<times> string list) list \<Rightarrow> bool" where
  "values_ok byKey \<longleftrightarrow> distinct (map fst byKey) \<and> (\<forall>(key, vs)\<in>set byKey. valid_string key \<and> list_all valid_string vs)"

definition condition_ok :: "condition_block \<Rightarrow> bool" where
  "condition_ok c \<longleftrightarrow> distinct (map fst c) \<and> (\<forall>(operator, byKey)\<in>set c. valid_string operator \<and> values_ok byKey)"

definition statement_ok :: "raw_text \<Rightarrow> statement \<Rightarrow> bool" where
  "statement_ok raw s \<longleftrightarrow> valid_string (Sid s) \<and> valid_string (Effect s) \<and>
     list_all valid_string (Action s @ Resource s @ NotAction s @ NotResource s) \<and> condition_ok (Condition s) \<and>
     (Principal s \<noteq> [] \<longrightarrow> rt_text raw (rt_value raw (Principal s)) = Principal s)"

definition document_ok :: "raw_text \<Rightarrow> policy_document \<Rightarrow> bool" where
  "document_ok raw d \<longleftrightarrow> valid_string (Version d) \<and> list_all (statement_ok raw) (Statement d)"

section \<open>Lemmas\<close>

lemma map_json_text [simp]: "list_all valid_string ss \<Longrightarrow> map json_text ss = ss"
  by (induction ss) simp_all

lemma slice_elements_as_slice [simp]: "slice_elements (as_slice nil ss) = ss"
  by (simp add: slice_elements_def as_slice_def)

lemma slice_elements_map: "slice_elements (map_option (map f) v) = map f (slice_elements v)"
  by (cases v) (simp_all add: slice_elements_def)

lemma slice_elements_Some [simp]: "slice_elements (Some ss) = ss"
  by (simp add: slice_elements_def)

lemma decode_list_marshalled:
  "list_all valid_string (slice_elements v) \<Longrightarrow> decode_list (StringOrArr_MarshalJSON v) = Some (slice_elements v)"
  by (simp add: decode_list_def StringOrArr_marshalled slice_elements_map)

lemma decode_string_marshalled: "valid_string s \<Longrightarrow> decode_string current (marshal_string s) = Some s"
  by (simp add: decode_string_def marshal_string_def)

lemma decode_members_append:
  "decode_members f st (ms @ ns) = (case decode_members f st ms of None \<Rightarrow> None | Some st' \<Rightarrow> decode_members f st' ns)"
  by (induction ms arbitrary: st) (simp_all split: option.split)

lemma update_fresh: "k \<notin> fst ` set m \<Longrightarrow> AList.update k v m = m @ [(k, v)]"
  by (induction m) auto

text \<open>Members with fresh keys are appended one by one.\<close>

lemma decode_members_fresh:
  assumes "\<And>k v m. (k, v) \<in> set kvs \<Longrightarrow> f m (enc (k, v)) = Some (AList.update k v m)"
    and "distinct (map fst kvs)" and "fst ` set kvs \<inter> fst ` set m = {}"
  shows "decode_members f m (map enc kvs) = Some (m @ kvs)"
  using assms
proof (induction kvs arbitrary: m)
  case (Cons kv kvs)
  obtain k v where kv: "kv = (k, v)" by (cases kv)
  have "f m (enc (k, v)) = Some (m @ [(k, v)])"
    using Cons.prems by (simp add: kv update_fresh)
  moreover have "decode_members f (m @ [(k, v)]) (map enc kvs) = Some ((m @ [(k, v)]) @ kvs)"
    using Cons.prems by (intro Cons.IH) (auto simp: kv)
  ultimately show ?case by (simp add: kv)
qed simp

lemma distinct_sort_fst: "distinct (map fst xs) \<Longrightarrow> distinct (map fst (sort_key fst xs))"
  by (simp add: distinct_map inj_on_def)

lemma decode_encode_values:
  assumes "values_ok byKey"
  shows "\<exists>ms. encode_values nil byKey = JObject ms \<and> decode_members decode_values [] ms = Some (sort_key fst byKey)"
proof -
  let ?enc = "\<lambda>(key, vs). (json_text key, ConditionValue_MarshalJSON (as_slice nil vs))"
  have "decode_members decode_values [] (map ?enc (sort_key fst byKey)) = Some ([] @ sort_key fst byKey)"
  proof (rule decode_members_fresh)
    fix k vs m
    assume "(k, vs) \<in> set (sort_key fst byKey)"
    then have "valid_string k" "list_all valid_string vs" using assms by (auto simp: values_ok_def)
    then show "decode_values m (?enc (k, vs)) = Some (AList.update k vs m)"
      by (simp add: decode_values_def ConditionValue_marshalled slice_elements_map)
  qed (use assms in \<open>simp_all add: values_ok_def distinct_sort_fst\<close>)
  then show ?thesis by (simp add: encode_values_def)
qed

lemma decode_encode_condition:
  assumes "condition_ok c"
  shows "decode_condition [] (encode_condition nil c) = Some (map (\<lambda>(oper, byKey). (oper, sort_key fst byKey)) (sort_key fst c))"
proof -
  let ?kvs = "map (\<lambda>(oper, byKey). (oper, sort_key fst byKey)) (sort_key fst c)"
  let ?enc = "\<lambda>(oper, byKey). (json_text oper, encode_values nil byKey)"
  have step: "decode_operator m (?enc (oper, byKey)) = Some (AList.update oper (sort_key fst byKey) m)"
    if "(oper, byKey) \<in> set (sort_key fst c)" for oper byKey m
  proof -
    have "valid_string oper" "values_ok byKey" using assms that by (auto simp: condition_ok_def)
    then show ?thesis using decode_encode_values [of byKey nil] by (auto simp: decode_operator_def)
  qed
  have keys: "map fst ?kvs = map fst (sort_key fst c)" by (simp add: split_def)
  have "decode_members decode_operator m (map ?enc xs) = Some (m @ map (\<lambda>(oper, byKey). (oper, sort_key fst byKey)) xs)"
    if "set xs \<subseteq> set (sort_key fst c)" "distinct (map fst xs)" "fst ` set xs \<inter> fst ` set m = {}" for xs m
    using that
  proof (induction xs arbitrary: m)
    case (Cons x xs)
    obtain oper byKey where x: "x = (oper, byKey)" by (cases x)
    have "decode_operator m (?enc (oper, byKey)) = Some (m @ [(oper, sort_key fst byKey)])"
      using Cons.prems step [of oper byKey m] by (simp add: x update_fresh)
    moreover have "decode_members decode_operator (m @ [(oper, sort_key fst byKey)]) (map ?enc xs) =
        Some ((m @ [(oper, sort_key fst byKey)]) @ map (\<lambda>(oper, byKey). (oper, sort_key fst byKey)) xs)"
      using Cons.prems by (intro Cons.IH) (auto simp: x)
    ultimately show ?case by (simp add: x)
  qed simp
  from this [of "sort_key fst c" "[]"] show ?thesis
    using assms by (simp add: decode_condition_def encode_condition_def condition_ok_def distinct_sort_fst)
qed

lemma sorted_condition_entries:
  "condition_entries (map (\<lambda>(oper, byKey). (oper, sort_key fst byKey)) (sort_key fst c)) = condition_entries c"
  by (force simp: condition_entries_def)

lemma field_of_self [simp]: "f \<in> set names \<Longrightarrow> field_of U names f = Some f"
  by (simp add: field_of_def)

lemma decode_encode_statement:
  assumes "statement_ok raw s"
  shows "\<exists>t. decode_statement U raw (encode_statement raw nil s) = Some t \<and> same_reading s t"
proof -
  let ?c = "map (\<lambda>(oper, byKey). (oper, sort_key fst byKey)) (sort_key fst (Condition s))"
  note ok = assms [unfolded statement_ok_def]
  have lists: "list_all valid_string (Action s)" "list_all valid_string (Resource s)"
    "list_all valid_string (NotAction s)" "list_all valid_string (NotResource s)"
    using ok by simp_all
  have "decode_condition [] (encode_condition nil (Condition s)) = Some ?c"
    using ok by (intro decode_encode_condition) simp
  then have "decode_statement U raw (encode_statement raw nil s) = Some (s\<lparr>Condition := ?c\<rparr>)"
    using ok lists
    by (cases s) (simp add: decode_statement_def encode_statement_def decode_members_append decode_statement_member_def
        statement_fields_def zero_statement_def decode_string_marshalled decode_list_marshalled split: option.split)
  moreover have "same_reading s (s\<lparr>Condition := ?c\<rparr>)"
    by (simp add: same_reading_def sorted_condition_entries)
  ultimately show ?thesis by blast
qed

lemma decode_encode_statements:
  assumes "list_all (statement_ok raw) ss"
  shows "\<exists>ts. those (map (decode_statement U raw) (map (encode_statement raw nil) ss)) = Some ts \<and> list_all2 same_reading ss ts"
  using assms
proof (induction ss)
  case (Cons s ss)
  then obtain ts where "those (map (decode_statement U raw) (map (encode_statement raw nil) ss)) = Some ts" "list_all2 same_reading ss ts"
    by auto
  moreover obtain t where "decode_statement U raw (encode_statement raw nil s) = Some t" "same_reading s t"
    using decode_encode_statement [of raw s U nil] Cons.prems by auto
  ultimately show ?case by simp
qed simp

lemma decode_encode_document:
  assumes "document_ok raw d"
  shows "\<exists>e. decode_document U raw (encode_document raw nil d) = Some e \<and> same_document d e"
proof -
  obtain ts where ts: "those (map (decode_statement U raw) (map (encode_statement raw nil) (Statement d))) = Some ts"
    "list_all2 same_reading (Statement d) ts"
    using decode_encode_statements [of raw "Statement d" U nil] assms by (auto simp: document_ok_def)
  have "decode_statements U raw (if nil \<and> Statement d = [] then JNull else JArray (map (encode_statement raw nil) (Statement d))) = Some ts"
    using ts by (auto simp: decode_statements_def)
  moreover have members: "decode_members (decode_document_member U raw) \<lparr>Version = [], Statement = []\<rparr>
      [(''Version'', marshal_string v), (''Statement'', j)] = Some \<lparr>Version = v, Statement = ts\<rparr>"
    if "valid_string v" "decode_statements U raw j = Some ts" for v j
    using that by (simp add: decode_document_member_def decode_string_marshalled)
  moreover have "valid_string (Version d)" using assms by (simp add: document_ok_def)
  ultimately have "decode_document U raw (encode_document raw nil d) = Some \<lparr>Version = Version d, Statement = ts\<rparr>"
    unfolding decode_document_def encode_document_def json.case by (intro members)
  then have "decode_document U raw (encode_document raw nil d) = Some (d\<lparr>Statement := ts\<rparr>)" by (cases d) simp
  moreover have "same_document d (d\<lparr>Statement := ts\<rparr>)" using ts(2) by (simp add: same_document_def)
  ultimately show ?thesis by blast
qed

section \<open>Properties\<close>

text \<open>C31: A policy that is stored re-encoded decides as the one it was read from: every document whose text is valid UTF-8,
  whose condition maps have each key once and whose principals are in JSON's compact form decodes again
  from its encoding, without an error, and the evaluator gives the same decision for the decoded documents,
  for every action, resource and context, although map keys come back in another order, absent members as
  empty fields, and nil lists as either form.\<close>
theorem reencoded_policies_decide_alike:
  assumes "list_all (document_ok raw) ps"
  shows "\<exists>qs. map (\<lambda>p. decode_document U raw (encode_document raw nil p)) ps = map Some qs \<and>
    (\<forall>action resource keys. EvaluateWithKeys U action resource qs keys = EvaluateWithKeys U action resource ps keys)"
proof -
  have "\<exists>qs. map (\<lambda>p. decode_document U raw (encode_document raw nil p)) ps = map Some qs \<and> list_all2 same_document ps qs"
    using assms
  proof (induction ps)
    case (Cons p ps)
    then obtain qs where "map (\<lambda>p. decode_document U raw (encode_document raw nil p)) ps = map Some qs" "list_all2 same_document ps qs"
      by auto
    moreover obtain q where "decode_document U raw (encode_document raw nil p) = Some q" "same_document p q"
      using decode_encode_document [of raw p U nil] Cons.prems by auto
    ultimately show ?case by (intro exI [of _ "q # qs"]) simp
  qed simp
  then show ?thesis using same_documents_decision by metis
qed

section \<open>Witnesses\<close>

definition stored_statement :: statement where
  "stored_statement = \<lparr>Sid = [], Effect = EffectAllow, Action = [''s3:GetObject''], Resource = [''*''],
     Condition = [(''StringEquals'', [(''s3:prefix'', [''b'']), (''aws:username'', [''a''])])], NotAction = [], NotResource = [],
     Principal = []\<rparr>"

definition stored_policy :: policy_document where
  "stored_policy = \<lparr>Version = Version2012, Statement = [stored_statement]\<rparr>"

lemma stored_policy_ok: "document_ok raw stored_policy"
proof -
  have "list_all is_ascii s \<Longrightarrow> valid_string s" for s by (rule valid_ascii)
  then show ?thesis
    by (simp add: document_ok_def stored_policy_def stored_statement_def statement_ok_def condition_ok_def values_ok_def
        Version2012_def EffectAllow_def is_ascii_def byte_def)
qed

theorem reencoded_policies_decide_alike_witness:
  "\<exists>q. decode_document \<lparr>lower_runes = (\<lambda>s. s), fold_runes = (=)\<rparr> \<lparr>rt_text = (\<lambda>_. []), rt_value = (\<lambda>_. JNull)\<rparr>
       (encode_document \<lparr>rt_text = (\<lambda>_. []), rt_value = (\<lambda>_. JNull)\<rparr> True stored_policy) = Some q \<and>
     (\<forall>keys. EvaluateWithKeys \<lparr>lower_runes = (\<lambda>s. s), fold_runes = (=)\<rparr> ''s3:GetObject'' ''x'' [q] keys =
       EvaluateWithKeys \<lparr>lower_runes = (\<lambda>s. s), fold_runes = (=)\<rparr> ''s3:GetObject'' ''x'' [stored_policy] keys)"
proof -
  let ?U = "\<lparr>lower_runes = (\<lambda>s. s), fold_runes = (=)\<rparr>"
  let ?raw = "\<lparr>rt_text = (\<lambda>_. []), rt_value = (\<lambda>_. JNull)\<rparr>"
  have "list_all (document_ok ?raw) [stored_policy]" by (simp add: stored_policy_ok)
  from reencoded_policies_decide_alike [OF this, of ?U True]
  show ?thesis by (auto simp: map_eq_Cons_conv)
qed

end
