(* ===== verification/HttpTelemetry.thy ===== *)
theory HttpTelemetry
  imports GoStrings
begin

text \<open>
  The request middleware of \<^verbatim>\<open>pkg/otelsetup/http.go\<close> and the measurements of \<^verbatim>\<open>metrics.go\<close>. What the code
  uses of \<^verbatim>\<open>net/http\<close> and \<^verbatim>\<open>io\<close> is modelled first: a response writer is a state with the record of its
  methods, and a handler is the tree of its calls and interface assertions, each branching on what it was
  given. The span and the instruments are OpenTelemetry objects: the operations on them are logged in order.
  Counters of bytes are unbounded integers; sources of \<^verbatim>\<open>io.Copy\<close> have no \<^verbatim>\<open>WriteTo\<close> of their own.
\<close>

section \<open>Response writers\<close>

text \<open>A source is the list of what its \<^verbatim>\<open>Read\<close> returns, then end of file.\<close>

datatype read_end = More | AtEOF | ReadErr string
type_synonym reader = "(string \<times> read_end) list"

datatype copy_error = ReadFailed string | WriteFailed string | ErrShortWrite | ErrInvalidWrite

text \<open>
  The methods of a writer. \<open>rw_WriteHeader\<close> is \<open>None\<close> where it panics; the map that \<^verbatim>\<open>Header\<close> returns is read
  and written through \<open>rw_GetHeader\<close> and \<open>rw_SetHeader\<close>, by canonical key. The optional interfaces are
  \<open>None\<close> where the writer does not implement them, and \<open>rw_Unwrap_Flush\<close> is what the controller does once it
  has unwrapped the writer, likewise \<open>rw_Unwrap_Hijack\<close>. Any further method, named by \<open>rw_other\<close>, can only be
  asserted. A hijacked connection is named by a number.
\<close>

record 'w writer_ops =
  rw_WriteHeader :: "int \<Rightarrow> 'w \<Rightarrow> 'w option"
  rw_Write :: "string \<Rightarrow> 'w \<Rightarrow> (int \<times> string option) \<times> 'w"
  rw_ReadFrom :: "(reader \<Rightarrow> 'w \<Rightarrow> (int \<times> copy_error option) \<times> 'w) option"
  rw_FlushError :: "('w \<Rightarrow> string option \<times> 'w) option"
  rw_Flush :: "('w \<Rightarrow> 'w) option"
  rw_Unwrap_Flush :: "('w \<Rightarrow> string option \<times> 'w) option"
  rw_Hijack :: "('w \<Rightarrow> (nat + string) \<times> 'w) option"
  rw_Unwrap_Hijack :: "('w \<Rightarrow> (nat + string) \<times> 'w) option"
  rw_GetHeader :: "string \<Rightarrow> 'w \<Rightarrow> string list"
  rw_SetHeader :: "string \<Rightarrow> string list \<Rightarrow> 'w \<Rightarrow> 'w"
  rw_WriteString :: "(string \<Rightarrow> 'w \<Rightarrow> (int \<times> string option) \<times> 'w) option"
  rw_Push :: "(string \<Rightarrow> 'w \<Rightarrow> string option \<times> 'w) option"
  rw_other :: "string \<Rightarrow> bool"

text \<open>What an assertion such as \<^verbatim>\<open>w.(http.Flusher)\<close> can ask for.\<close>

datatype writer_interface = Flusher | FlushErrorer | Hijacker | ReaderFrom | StringWriter | Pusher | Having string

definition implements :: "'w writer_ops \<Rightarrow> writer_interface \<Rightarrow> bool" where
  "implements ops i =
     (case i of Flusher \<Rightarrow> rw_Flush ops \<noteq> None | FlushErrorer \<Rightarrow> rw_FlushError ops \<noteq> None
      | Hijacker \<Rightarrow> rw_Hijack ops \<noteq> None | ReaderFrom \<Rightarrow> rw_ReadFrom ops \<noteq> None
      | StringWriter \<Rightarrow> rw_WriteString ops \<noteq> None | Pusher \<Rightarrow> rw_Push ops \<noteq> None | Having m \<Rightarrow> rw_other ops m)"

definition not_supported :: string where
  "not_supported = ''feature not supported''"

text \<open>\<^verbatim>\<open>http.NewResponseController(w).Flush()\<close> and \<^verbatim>\<open>Hijack()\<close>: the first interface that fits.\<close>

definition controller_Flush :: "'w writer_ops \<Rightarrow> 'w \<Rightarrow> string option \<times> 'w" where
  "controller_Flush ops w =
     (case rw_FlushError ops of
        Some f \<Rightarrow> f w
      | None \<Rightarrow> (case rw_Flush ops of
            Some f \<Rightarrow> (None, f w)
          | None \<Rightarrow> (case rw_Unwrap_Flush ops of Some f \<Rightarrow> f w | None \<Rightarrow> (Some not_supported, w))))"

definition controller_Hijack :: "'w writer_ops \<Rightarrow> 'w \<Rightarrow> (nat + string) \<times> 'w" where
  "controller_Hijack ops w =
     (case rw_Hijack ops of
        Some f \<Rightarrow> f w
      | None \<Rightarrow> (case rw_Unwrap_Hijack ops of Some f \<Rightarrow> f w | None \<Rightarrow> (Inr not_supported, w)))"

text \<open>The loop of \<^verbatim>\<open>io.Copy\<close> into a writer without \<^verbatim>\<open>ReadFrom\<close>.\<close>

fun copy_loop :: "'w writer_ops \<Rightarrow> reader \<Rightarrow> 'w \<Rightarrow> int \<Rightarrow> (int \<times> copy_error option) \<times> 'w" where
  "copy_loop ops [] w written = ((written, None), w)"
| "copy_loop ops ((p, er) # src) w written =
     (let ((nw, ew), w') = (if p = [] then ((0, None), w) else rw_Write ops p w);
          bad = nw < 0 \<or> int (length p) < nw;
          ew' = (if bad \<and> ew = None then Some ErrInvalidWrite else map_option WriteFailed ew);
          written' = written + (if bad then 0 else nw)
      in if ew' \<noteq> None then ((written', ew'), w')
         else if int (length p) \<noteq> nw then ((written', Some ErrShortWrite), w')
         else case er of
             More \<Rightarrow> copy_loop ops src w' written'
           | AtEOF \<Rightarrow> ((written', None), w')
           | ReadErr e \<Rightarrow> ((written', Some (ReadFailed e)), w'))"

definition io_Copy :: "'w writer_ops \<Rightarrow> reader \<Rightarrow> 'w \<Rightarrow> (int \<times> copy_error option) \<times> 'w" where
  "io_Copy ops src w = (case rw_ReadFrom ops of Some f \<Rightarrow> f src w | None \<Rightarrow> copy_loop ops src w 0)"

text \<open>\<^verbatim>\<open>io.WriteString\<close>: the writer's own method where it has one.\<close>

definition io_WriteString :: "'w writer_ops \<Rightarrow> string \<Rightarrow> 'w \<Rightarrow> (int \<times> string option) \<times> 'w" where
  "io_WriteString ops b w = (case rw_WriteString ops of Some f \<Rightarrow> f b w | None \<Rightarrow> rw_Write ops b w)"

section \<open>The recorder\<close>

record 'w status_recorder =
  rc_ResponseWriter :: 'w
  rc_status :: int
  rc_written :: int

definition WriteHeader :: "'w writer_ops \<Rightarrow> int \<Rightarrow> 'w status_recorder \<Rightarrow> 'w status_recorder option" where
  "WriteHeader ops code w =
     (let w = w\<lparr>rc_status := code\<rparr>
      in map_option (\<lambda>inner. w\<lparr>rc_ResponseWriter := inner\<rparr>) (rw_WriteHeader ops code (rc_ResponseWriter w)))"

definition Write :: "'w writer_ops \<Rightarrow> string \<Rightarrow> 'w status_recorder \<Rightarrow> (int \<times> string option) \<times> 'w status_recorder" where
  "Write ops b w =
     (case rw_Write ops b (rc_ResponseWriter w) of
        ((n, err), inner) \<Rightarrow> ((n, err), w\<lparr>rc_ResponseWriter := inner, rc_written := rc_written w + n\<rparr>))"

definition Unwrap :: "'w status_recorder \<Rightarrow> 'w" where
  "Unwrap w = rc_ResponseWriter w"

definition Flush :: "'w writer_ops \<Rightarrow> 'w status_recorder \<Rightarrow> 'w status_recorder" where
  "Flush ops w = (case controller_Flush ops (rc_ResponseWriter w) of (_, inner) \<Rightarrow> w\<lparr>rc_ResponseWriter := inner\<rparr>)"

definition Hijack :: "'w writer_ops \<Rightarrow> 'w status_recorder \<Rightarrow> (nat + string) \<times> 'w status_recorder" where
  "Hijack ops w =
     (case controller_Hijack ops (rc_ResponseWriter w) of (res, inner) \<Rightarrow> (res, w\<lparr>rc_ResponseWriter := inner\<rparr>))"

definition ReadFrom :: "'w writer_ops \<Rightarrow> reader \<Rightarrow> 'w status_recorder \<Rightarrow> (int \<times> copy_error option) \<times> 'w status_recorder" where
  "ReadFrom ops r w =
     (case (case rw_ReadFrom ops of
              Some rf \<Rightarrow> rf r (rc_ResponseWriter w)
            | None \<Rightarrow> io_Copy ops r (rc_ResponseWriter w)) of
        ((n, err), inner) \<Rightarrow> ((n, err), w\<lparr>rc_ResponseWriter := inner, rc_written := rc_written w + n\<rparr>))"

text \<open>
  The recorder as a response writer: its own methods, \<^verbatim>\<open>Header\<close> promoted from the embedded writer, and none of
  the server's other methods, which embedding an interface value does not promote.
\<close>

definition recorder_ops :: "'w writer_ops \<Rightarrow> 'w status_recorder writer_ops" where
  "recorder_ops ops =
     \<lparr>rw_WriteHeader = WriteHeader ops, rw_Write = Write ops, rw_ReadFrom = Some (ReadFrom ops),
      rw_FlushError = None, rw_Flush = Some (Flush ops),
      rw_Unwrap_Flush = Some (\<lambda>w. case controller_Flush ops (Unwrap w) of (res, inner) \<Rightarrow> (res, w\<lparr>rc_ResponseWriter := inner\<rparr>)),
      rw_Hijack = Some (Hijack ops),
      rw_Unwrap_Hijack = Some (\<lambda>w. case controller_Hijack ops (Unwrap w) of (res, inner) \<Rightarrow> (res, w\<lparr>rc_ResponseWriter := inner\<rparr>)),
      rw_GetHeader = (\<lambda>key w. rw_GetHeader ops key (rc_ResponseWriter w)),
      rw_SetHeader = (\<lambda>key vs w. w\<lparr>rc_ResponseWriter := rw_SetHeader ops key vs (rc_ResponseWriter w)\<rparr>),
      rw_WriteString = None, rw_Push = None, rw_other = (\<lambda>m. m = ''Unwrap'')\<rparr>"

definition OutcomeForStatus :: "int \<Rightarrow> string" where
  "OutcomeForStatus status =
     (if status \<ge> 500 then ''error'' else if status \<ge> 400 then ''client_error'' else ''success'')"

section \<open>The action of a request\<close>

record request_action =
  ra_name :: string
  ra_errorCode :: string

text \<open>The holder is \<open>None\<close> where the context does not come from the middleware.\<close>

definition SetRequestAction :: "string \<Rightarrow> request_action option \<Rightarrow> request_action option" where
  "SetRequestAction action holder =
     (case holder of Some h \<Rightarrow> if action \<noteq> [] then Some (h\<lparr>ra_name := action\<rparr>) else Some h | None \<Rightarrow> None)"

definition SetRequestErrorCode :: "string \<Rightarrow> request_action option \<Rightarrow> request_action option" where
  "SetRequestErrorCode code holder =
     (case holder of Some h \<Rightarrow> if code \<noteq> [] then Some (h\<lparr>ra_errorCode := code\<rparr>) else Some h | None \<Rightarrow> None)"

section \<open>Handlers\<close>

datatype handler = Done
  | Panic
  | CallWriteHeader int handler
  | CallWrite string "int \<times> string option \<Rightarrow> handler"
  | CallCopy reader "int \<times> copy_error option \<Rightarrow> handler"
  | CallFlush "string option \<Rightarrow> handler"
  | CallHijack "nat + string \<Rightarrow> handler"
  | CallWriteString string "int \<times> string option \<Rightarrow> handler"
  | GetHeader string "string list \<Rightarrow> handler"
  | SetHeader string "string list" handler
  | Asserts writer_interface "bool \<Rightarrow> handler"
  | AssertFlush "bool \<Rightarrow> handler"
  | AssertHijack "(nat + string) option \<Rightarrow> handler"
  | AssertPush string "string option option \<Rightarrow> handler"
  | NameAction string handler
  | NameErrorCode string handler

text \<open>
  \<open>Asserts\<close> is the second value of \<^verbatim>\<open>_, ok := w.(I)\<close>; the next three also call the method the assertion gave,
  as in \<^verbatim>\<open>if f, ok := w.(http.Flusher); ok { f.Flush() }\<close>, and continue with what came of it. \<open>CallFlush\<close> and
  \<open>CallHijack\<close> go through the response controller.

  Running a handler: whether it panicked, the writer and the action it leaves.\<close>

type_synonym 'w serving = "'w \<times> request_action option"

primrec serve :: "'w writer_ops \<Rightarrow> handler \<Rightarrow> 'w serving \<Rightarrow> bool \<times> 'w serving" where
  "serve ops Done = (\<lambda>s. (False, s))"
| "serve ops Panic = (\<lambda>s. (True, s))"
| "serve ops (CallWriteHeader code h) =
     (\<lambda>(w, a). case rw_WriteHeader ops code w of None \<Rightarrow> (True, (w, a)) | Some w' \<Rightarrow> serve ops h (w', a))"
| "serve ops (CallWrite b k) = (\<lambda>(w, a). case rw_Write ops b w of (res, w') \<Rightarrow> (\<lambda>x. serve ops (k x)) res (w', a))"
| "serve ops (CallCopy r k) = (\<lambda>(w, a). case io_Copy ops r w of (res, w') \<Rightarrow> (\<lambda>x. serve ops (k x)) res (w', a))"
| "serve ops (CallFlush k) = (\<lambda>(w, a). case controller_Flush ops w of (res, w') \<Rightarrow> (\<lambda>x. serve ops (k x)) res (w', a))"
| "serve ops (CallHijack k) = (\<lambda>(w, a). case controller_Hijack ops w of (res, w') \<Rightarrow> (\<lambda>x. serve ops (k x)) res (w', a))"
| "serve ops (CallWriteString b k) = (\<lambda>(w, a). case io_WriteString ops b w of (res, w') \<Rightarrow> (\<lambda>x. serve ops (k x)) res (w', a))"
| "serve ops (GetHeader key k) = (\<lambda>(w, a). (\<lambda>x. serve ops (k x)) (rw_GetHeader ops key w) (w, a))"
| "serve ops (SetHeader key vs h) = (\<lambda>(w, a). serve ops h (rw_SetHeader ops key vs w, a))"
| "serve ops (Asserts i k) = (\<lambda>s. (\<lambda>x. serve ops (k x)) (implements ops i) s)"
| "serve ops (AssertFlush k) =
     (\<lambda>(w, a). case rw_Flush ops of None \<Rightarrow> (\<lambda>x. serve ops (k x)) False (w, a) | Some f \<Rightarrow> (\<lambda>x. serve ops (k x)) True (f w, a))"
| "serve ops (AssertHijack k) =
     (\<lambda>(w, a). case rw_Hijack ops of None \<Rightarrow> (\<lambda>x. serve ops (k x)) None (w, a)
        | Some f \<Rightarrow> (case f w of (res, w') \<Rightarrow> (\<lambda>x. serve ops (k x)) (Some res) (w', a)))"
| "serve ops (AssertPush path k) =
     (\<lambda>(w, a). case rw_Push ops of None \<Rightarrow> (\<lambda>x. serve ops (k x)) None (w, a)
        | Some f \<Rightarrow> (case f path w of (res, w') \<Rightarrow> (\<lambda>x. serve ops (k x)) (Some res) (w', a)))"
| "serve ops (NameAction name h) = (\<lambda>(w, a). serve ops h (w, SetRequestAction name a))"
| "serve ops (NameErrorCode code h) = (\<lambda>(w, a). serve ops h (w, SetRequestErrorCode code a))"

section \<open>Measurements\<close>

definition actionAttrKey :: string where "actionAttrKey = ''s3.action''"
definition errorCodeAttrKey :: string where "errorCodeAttrKey = ''s3.error_code''"
definition directionAttrKey :: string where "directionAttrKey = ''direction''"

text \<open>An attribute: a key and its text, or the status code under the key of the semantic conventions.\<close>

datatype metric_attr = Attr string string | StatusCodeAttr int

record request_metric =
  rm_Action :: string
  rm_Outcome :: string
  rm_StatusCode :: int
  rm_ErrorCode :: string
  rm_ReqBytes :: int
  rm_RespBytes :: int
  rm_Elapsed :: int

text \<open>What is recorded on the shared counter, the duration histogram (in nanoseconds) and the bytes counter.\<close>

datatype measurement = Requests int "metric_attr list"
  | Duration int "metric_attr list"
  | Bytes int "metric_attr list"

record instruments =
  in_counter :: bool
  in_duration :: bool
  in_bytes :: bool

text \<open>
  \<^verbatim>\<open>requestInstruments\<close>: made once, by a meter that says which of the three instruments it returns and which
  errors are handed to the global handler.
\<close>

definition requestInstruments ::
  "(string \<Rightarrow> bool \<times> string option) \<Rightarrow> instruments option \<Rightarrow> instruments \<times> string list \<times> instruments option" where
  "requestInstruments meter once =
     (case once of
        Some made \<Rightarrow> (made, [], once)
      | None \<Rightarrow>
          let (counter, e1) = meter ''mulga.requests'';
              (duration, e2) = meter ''mulga.request.duration'';
              (bytes, e3) = meter ''mulga.request.bytes'';
              made = \<lparr>in_counter = counter, in_duration = duration, in_bytes = bytes\<rparr>
          in (made, List.map_filter id [e1, e2, e3], Some made))"

definition request_attrs :: "request_metric \<Rightarrow> metric_attr list" where
  "request_attrs m =
     [Attr actionAttrKey (rm_Action m)] @
     (if rm_Outcome m \<noteq> [] then [Attr ''outcome'' (rm_Outcome m)] else []) @
     (if rm_StatusCode m > 0 then [StatusCodeAttr (rm_StatusCode m)] else []) @
     (if rm_ErrorCode m \<noteq> [] then [Attr errorCodeAttrKey (rm_ErrorCode m)] else [])"

definition RecordRequest :: "instruments \<Rightarrow> request_metric \<Rightarrow> measurement list \<Rightarrow> measurement list" where
  "RecordRequest ins m out =
     (let attrs = request_attrs m;
          out = out @ (if in_counter ins then [Requests 1 attrs] else []) @
            (if in_duration ins then [Duration (rm_Elapsed m) attrs] else []);
          actionAttr = Attr actionAttrKey (rm_Action m)
      in if \<not> in_bytes ins then out
         else out @
           (if rm_ReqBytes m > 0 then [Bytes (rm_ReqBytes m) [actionAttr, Attr directionAttrKey ''in'']] else []) @
           (if rm_RespBytes m > 0 then [Bytes (rm_RespBytes m) [actionAttr, Attr directionAttrKey ''out'']] else []))"

section \<open>The middleware\<close>

text \<open>The metric sink is what a request metric does to the measurements so far.\<close>

record 'm middleware_config =
  mc_untraced :: "string set option"
  mc_record :: "request_metric \<Rightarrow> 'm \<Rightarrow> 'm"

type_synonym 'm middleware_option = "'m middleware_config \<Rightarrow> 'm middleware_config"

definition WithUntracedPaths :: "string list \<Rightarrow> 'm middleware_option" where
  "WithUntracedPaths paths c =
     (let untraced = (case mc_untraced c of None \<Rightarrow> {} | Some m \<Rightarrow> m)
      in c\<lparr>mc_untraced := Some (foldl (\<lambda>m p. insert p m) untraced paths)\<rparr>)"

definition WithRecorder :: "(request_metric \<Rightarrow> 'm \<Rightarrow> 'm) option \<Rightarrow> 'm middleware_option" where
  "WithRecorder fn c = (case fn of Some f \<Rightarrow> c\<lparr>mc_record := f\<rparr> | None \<Rightarrow> c)"

definition middleware_config_of :: "(request_metric \<Rightarrow> 'm \<Rightarrow> 'm) \<Rightarrow> 'm middleware_option list \<Rightarrow> 'm middleware_config" where
  "middleware_config_of sink opts = foldl (\<lambda>c opt. opt c) \<lparr>mc_untraced = None, mc_record = sink\<rparr> opts"

definition untraced_path :: "'m middleware_config \<Rightarrow> string \<Rightarrow> bool" where
  "untraced_path c path \<longleftrightarrow> (case mc_untraced c of None \<Rightarrow> False | Some m \<Rightarrow> path \<in> m)"

record http_request =
  hr_Method :: string
  hr_Path :: string
  hr_ContentLength :: int

text \<open>Operations on the request's own span, or on the span the context already had.\<close>

datatype span_op = StartSpan string "metric_attr list"
  | SetStatusCode int
  | SetError string
  | EndSpan

record ('w, 'm) http_result =
  ht_panicked :: bool
  ht_writer :: 'w
  ht_metrics :: 'm
  ht_span :: "span_op list"
  ht_context_span :: "span_op list"

definition HTTPMiddleware ::
  "'m middleware_config \<Rightarrow> string \<Rightarrow> 'w writer_ops \<Rightarrow> handler \<Rightarrow> int \<Rightarrow> http_request \<Rightarrow> 'w \<Rightarrow> 'm \<Rightarrow> ('w, 'm) http_result" where
  "HTTPMiddleware cfg serverName ops next_handler elapsed r w m =
     (let skip = untraced_path cfg (hr_Path r);
          name = hr_Method r @ '' '' @ hr_Path r;
          action = \<lparr>ra_name = (if skip then name else hr_Method r), ra_errorCode = []\<rparr>;
          start = StartSpan name
            [Attr ''http.request.method'' (hr_Method r), Attr ''url.path'' (hr_Path r), Attr ''server.name'' serverName];
          rec = \<lparr>rc_ResponseWriter = w, rc_status = 200, rc_written = 0\<rparr>;
          (panicked, (rec, holder)) = serve (recorder_ops ops) next_handler (rec, Some action);
          action = (case holder of Some a \<Rightarrow> a | None \<Rightarrow> action);
          status_ops = (if panicked then []
            else [SetStatusCode (rc_status rec)] @
              (if rc_status rec \<ge> 500 then [SetError (''HTTP '' @ format_int (rc_status rec))] else []));
          metric = \<lparr>rm_Action = ra_name action, rm_Outcome = OutcomeForStatus (rc_status rec),
            rm_StatusCode = rc_status rec, rm_ErrorCode = ra_errorCode action,
            rm_ReqBytes = max (hr_ContentLength r) 0, rm_RespBytes = rc_written rec, rm_Elapsed = elapsed\<rparr>
      in \<lparr>ht_panicked = panicked, ht_writer = rc_ResponseWriter rec,
          ht_metrics = (if panicked then m else mc_record cfg metric m),
          ht_span = (if skip then [] else [start] @ status_ops @ [EndSpan]),
          ht_context_span = (if skip then status_ops else [])\<rparr>)"

section \<open>Transparency\<close>

text \<open>
  A handler that cannot tell the recorder from the writer \<open>ops\<close> behind it. Where the two differ, it either does
  not meet the difference or does not look: a flush through the controller that may fail is not checked; an
  interface is asserted only where both have it, both lack it, or nothing depends on it; a method obtained by
  an assertion is one the server's writer has too, a \<^verbatim>\<open>Flush\<close> that does what the controller would do; nothing is
  pushed where the server's writer can push; and \<^verbatim>\<open>WriteString\<close>, where there is one, is \<^verbatim>\<open>Write\<close>.
\<close>

primrec unaware :: "'w writer_ops \<Rightarrow> handler \<Rightarrow> bool" where
  "unaware ops Done = True"
| "unaware ops Panic = True"
| "unaware ops (CallWriteHeader code h) = unaware ops h"
| "unaware ops (CallWrite b k) = (\<forall>res. unaware ops (k res))"
| "unaware ops (CallCopy r k) = (\<forall>res. unaware ops (k res))"
| "unaware ops (CallFlush k) = ((\<forall>res. unaware ops (k res)) \<and>
     ((\<forall>w. fst (controller_Flush ops w) = None) \<or> (\<forall>res res'. k res = k res')))"
| "unaware ops (CallHijack k) = (\<forall>res. unaware ops (k res))"
| "unaware ops (CallWriteString b k) = ((\<forall>res. unaware ops (k res)) \<and>
     (\<forall>f. rw_WriteString ops = Some f \<longrightarrow> f = rw_Write ops))"
| "unaware ops (GetHeader key k) = (\<forall>vs. unaware ops (k vs))"
| "unaware ops (SetHeader key vs h) = unaware ops h"
| "unaware ops (Asserts i k) = ((\<forall>ok. unaware ops (k ok)) \<and>
     (implements ops i = implements (recorder_ops ops) i \<or> k True = k False))"
| "unaware ops (AssertFlush k) = ((\<forall>ok. unaware ops (k ok)) \<and>
     (\<exists>f. rw_Flush ops = Some f \<and> (\<forall>w. f w = snd (controller_Flush ops w))))"
| "unaware ops (AssertHijack k) = ((\<forall>res. unaware ops (k res)) \<and> rw_Hijack ops \<noteq> None)"
| "unaware ops (AssertPush path k) = ((\<forall>res. unaware ops (k res)) \<and> rw_Push ops = None)"
| "unaware ops (NameAction name h) = unaware ops h"
| "unaware ops (NameErrorCode code h) = unaware ops h"

definition unwrapped :: "bool \<times> 'w status_recorder serving \<Rightarrow> bool \<times> 'w serving" where
  "unwrapped res = (case res of (p, (w, a)) \<Rightarrow> (p, (rc_ResponseWriter w, a)))"

lemma unwrapped_pair [simp]: "unwrapped (p, (w, a)) = (p, (rc_ResponseWriter w, a))"
  by (simp add: unwrapped_def)

lemma recorder_ops_simps [simp]:
  "rw_WriteHeader (recorder_ops ops) = WriteHeader ops"
  "rw_Write (recorder_ops ops) = Write ops"
  "rw_ReadFrom (recorder_ops ops) = Some (ReadFrom ops)"
  "rw_FlushError (recorder_ops ops) = None"
  "rw_Flush (recorder_ops ops) = Some (Flush ops)"
  "rw_Hijack (recorder_ops ops) = Some (Hijack ops)"
  "rw_GetHeader (recorder_ops ops) key w = rw_GetHeader ops key (rc_ResponseWriter w)"
  "rw_SetHeader (recorder_ops ops) key vs w = w\<lparr>rc_ResponseWriter := rw_SetHeader ops key vs (rc_ResponseWriter w)\<rparr>"
  "rw_WriteString (recorder_ops ops) = None"
  "rw_Push (recorder_ops ops) = None"
  "rw_other (recorder_ops ops) m \<longleftrightarrow> m = ''Unwrap''"
  by (simp_all add: recorder_ops_def)

lemma recorder_io_Copy:
  "io_Copy (recorder_ops ops) r w =
     (case io_Copy ops r (rc_ResponseWriter w) of
        ((n, err), inner) \<Rightarrow> ((n, err), w\<lparr>rc_ResponseWriter := inner, rc_written := rc_written w + n\<rparr>))"
  by (simp add: io_Copy_def ReadFrom_def split: option.split)

lemma recorder_own_Flush: "controller_Flush (recorder_ops ops) w = (None, Flush ops w)"
  by (simp add: controller_Flush_def)

lemma recorder_Flush:
  "controller_Flush (recorder_ops ops) w =
     (None, w\<lparr>rc_ResponseWriter := snd (controller_Flush ops (rc_ResponseWriter w))\<rparr>)"
  by (simp add: recorder_own_Flush Flush_def split_def)

lemma recorder_Hijack:
  "controller_Hijack (recorder_ops ops) w =
     (case controller_Hijack ops (rc_ResponseWriter w) of (res, inner) \<Rightarrow> (res, w\<lparr>rc_ResponseWriter := inner\<rparr>))"
proof -
  have "controller_Hijack (recorder_ops ops) w = Hijack ops w" by (simp add: controller_Hijack_def)
  then show ?thesis by (simp add: Hijack_def)
qed

text \<open>What the recorder implements, whatever the server's writer does.\<close>

lemma recorder_implements:
  "implements (recorder_ops ops) i \<longleftrightarrow> i \<in> {Flusher, Hijacker, ReaderFrom, Having ''Unwrap''}"
  by (cases i) (simp_all add: implements_def)

lemma recorder_io_WriteString: "io_WriteString (recorder_ops ops) b w = Write ops b w"
  by (simp add: io_WriteString_def)

lemma recorder_WriteString:
  "(\<forall>f. rw_WriteString ops = Some f \<longrightarrow> f = rw_Write ops) \<Longrightarrow>
   io_WriteString (recorder_ops ops) b w =
     (case io_WriteString ops b (rc_ResponseWriter w) of
        ((n, err), inner) \<Rightarrow> ((n, err), w\<lparr>rc_ResponseWriter := inner, rc_written := rc_written w + n\<rparr>))"
  by (simp add: recorder_io_WriteString Write_def) (simp add: io_WriteString_def split: option.split)

lemma controller_Hijack_own: "rw_Hijack ops = Some f \<Longrightarrow> controller_Hijack ops w = f w"
  by (simp add: controller_Hijack_def)

lemma serve_recorder:
  "unaware ops h \<Longrightarrow> unwrapped (serve (recorder_ops ops) h (w, a)) = serve ops h (rc_ResponseWriter w, a)"
proof (induction h arbitrary: w a)
  case (CallWriteHeader code h)
  then show ?case
    by (cases "rw_WriteHeader ops code (rc_ResponseWriter w)") (simp_all add: WriteHeader_def Let_def)
next
  case (CallWrite b k)
  then show ?case by (simp add: Write_def split: prod.split)
next
  case (CallCopy r k)
  then show ?case by (simp add: recorder_io_Copy split: prod.split)
next
  case (CallFlush k)
  let ?res = "controller_Flush ops (rc_ResponseWriter w)"
  have "k None = k (fst ?res)" using CallFlush.prems by auto
  then show ?case using CallFlush by (simp add: recorder_Flush split_def)
next
  case (CallHijack k)
  then show ?case by (simp add: recorder_Hijack split: prod.split)
next
  case (CallWriteString b k)
  then show ?case by (simp add: recorder_WriteString split: prod.split)
next
  case (Asserts i k)
  then have "k (implements (recorder_ops ops) i) = k (implements ops i)"
    by (cases "implements ops i"; cases "implements (recorder_ops ops) i") auto
  then show ?case using Asserts by simp
next
  case (AssertFlush k)
  then obtain f where f: "rw_Flush ops = Some f" "\<And>w. f w = snd (controller_Flush ops w)" by auto
  then have "rc_ResponseWriter (Flush ops w) = f (rc_ResponseWriter w)" by (simp add: Flush_def split_def)
  then show ?case using AssertFlush f(1) by simp
next
  case (AssertHijack k)
  then obtain f where f: "rw_Hijack ops = Some f" by auto
  then show ?case using AssertHijack by (simp add: Hijack_def controller_Hijack_own [OF f] split: prod.split)
qed simp_all

section \<open>The server's response\<close>

text \<open>
  \<^verbatim>\<open>net/http\<close>'s HTTP/1 response to a request with a body: the header map of the handler, the final status sent,
  the informational ones, the declared length if any, and what of the body is accepted.
\<close>

record http_response =
  nh_header :: "string \<Rightarrow> string list"
  nh_status :: "int option"
  nh_informational :: "int list"
  nh_hijacked :: bool
  nh_contentLength :: int
  nh_offered :: int
  nh_body :: string

text \<open>The final header takes the declared length from the header map; a value that is not a length is dropped.\<close>

definition net_send_header :: "int \<Rightarrow> http_response \<Rightarrow> http_response" where
  "net_send_header code w =
     (let w = w\<lparr>nh_status := Some code\<rparr>;
          cl = (case nh_header w ''Content-Length'' of [] \<Rightarrow> [] | v # _ \<Rightarrow> v)
      in if cl = [] then w
         else (case parse_int 64 cl of
             Some v \<Rightarrow> if 0 \<le> v then w\<lparr>nh_contentLength := v\<rparr> else w\<lparr>nh_header := (nh_header w)(''Content-Length'' := [])\<rparr>
           | None \<Rightarrow> w\<lparr>nh_header := (nh_header w)(''Content-Length'' := [])\<rparr>))"

definition net_WriteHeader :: "int \<Rightarrow> http_response \<Rightarrow> http_response option" where
  "net_WriteHeader code w =
     (if nh_hijacked w \<or> nh_status w \<noteq> None then Some w
      else if code < 100 \<or> code > 999 then None
      else if code < 200 \<and> code \<noteq> 101 then Some (w\<lparr>nh_informational := nh_informational w @ [code]\<rparr>)
      else Some (net_send_header code w))"

definition net_implicit_header :: "http_response \<Rightarrow> http_response" where
  "net_implicit_header w = (if nh_status w = None then net_send_header 200 w else w)"

definition net_body_allowed :: "http_response \<Rightarrow> bool" where
  "net_body_allowed w \<longleftrightarrow> (case nh_status w of None \<Rightarrow> True | Some c \<Rightarrow> 200 \<le> c \<and> c \<noteq> 204 \<and> c \<noteq> 304)"

definition net_Write :: "string \<Rightarrow> http_response \<Rightarrow> (int \<times> string option) \<times> http_response" where
  "net_Write b w =
     (if nh_hijacked w then ((0, Some ''connection has been hijacked''), w)
      else let w = net_implicit_header w in
        if b = [] then ((0, None), w)
        else if \<not> net_body_allowed w then ((0, Some ''request method or response status code does not allow body''), w)
        else let w = w\<lparr>nh_offered := nh_offered w + int (length b)\<rparr> in
          if nh_contentLength w \<noteq> -1 \<and> nh_offered w > nh_contentLength w
          then ((0, Some ''wrote more than the declared Content-Length''), w)
          else ((int (length b), None), w\<lparr>nh_body := nh_body w @ b\<rparr>))"

definition net_FlushError :: "http_response \<Rightarrow> string option \<times> http_response" where
  "net_FlushError w = (None, if nh_hijacked w then w else net_implicit_header w)"

definition net_Hijack :: "http_response \<Rightarrow> (nat + string) \<times> http_response" where
  "net_Hijack w =
     (if nh_hijacked w then (Inr ''connection has been hijacked'', w) else (Inl 0, w\<lparr>nh_hijacked := True\<rparr>))"

definition net_SetHeader :: "string \<Rightarrow> string list \<Rightarrow> http_response \<Rightarrow> http_response" where
  "net_SetHeader key vs w = w\<lparr>nh_header := (nh_header w)(key := vs)\<rparr>"

definition net_base :: "http_response writer_ops" where
  "net_base =
     \<lparr>rw_WriteHeader = net_WriteHeader, rw_Write = net_Write, rw_ReadFrom = None, rw_FlushError = Some net_FlushError,
      rw_Flush = Some (\<lambda>w. snd (net_FlushError w)), rw_Unwrap_Flush = None, rw_Hijack = Some net_Hijack, rw_Unwrap_Hijack = None,
      rw_GetHeader = (\<lambda>key w. nh_header w key), rw_SetHeader = net_SetHeader, rw_WriteString = Some net_Write, rw_Push = None,
      rw_other = (\<lambda>m. m \<in> {''CloseNotify'', ''SetReadDeadline'', ''SetWriteDeadline'', ''EnableFullDuplex''})\<rparr>"

definition net_ops :: "http_response writer_ops" where
  "net_ops = net_base\<lparr>rw_ReadFrom := Some (\<lambda>r w. copy_loop net_base r w 0)\<rparr>"

lemma net_ops_simps:
  "rw_WriteHeader net_ops = net_WriteHeader" "rw_Write net_ops = net_Write" "rw_Flush net_ops = Some (\<lambda>w. snd (net_FlushError w))"
  "rw_SetHeader net_ops = net_SetHeader" "rw_WriteString net_ops = Some net_Write" "rw_Push net_ops = None"
  by (simp_all add: net_ops_def net_base_def)

definition fresh_response :: "int \<Rightarrow> http_response" where
  "fresh_response contentLength =
     \<lparr>nh_header = (\<lambda>_. []), nh_status = None, nh_informational = [], nh_hijacked = False, nh_contentLength = contentLength, nh_offered = 0, nh_body = []\<rparr>"

text \<open>The status line the client gets: the server sends 200 for a handler that sent nothing.\<close>

definition client_status :: "http_response \<Rightarrow> int" where
  "client_status w = (case nh_status w of Some c \<Rightarrow> c | None \<Rightarrow> 200)"



lemma send_header_simps [simp]:
  "nh_status (net_send_header code w) = Some code" "nh_hijacked (net_send_header code w) = nh_hijacked w"
  "nh_body (net_send_header code w) = nh_body w"
  by (simp_all add: net_send_header_def Let_def split: option.split)

lemma client_status_send [simp]: "client_status (net_send_header code w) = code"
  by (simp add: client_status_def)

lemma client_status_implicit [simp]: "client_status (net_implicit_header w) = client_status w"
  by (simp add: client_status_def net_implicit_header_def)

lemma implicit_header_simps [simp]:
  "nh_hijacked (net_implicit_header w) = nh_hijacked w" "nh_body (net_implicit_header w) = nh_body w"
  by (simp_all add: net_implicit_header_def)




lemma net_base_Write [simp]: "rw_Write net_base = net_Write"
  by (simp add: net_base_def)



section \<open>What is recorded\<close>





lemma net_Flush: "controller_Flush net_ops w = (None, if nh_hijacked w then w else net_implicit_header w)"
  by (simp add: controller_Flush_def net_ops_def net_base_def net_FlushError_def)













lemma serve_holder:
  "fst (serve ops h (w, a)) = fst (serve ops h (w, a')) \<and> fst (snd (serve ops h (w, a))) = fst (snd (serve ops h (w, a')))"
proof (induction h arbitrary: w a a')
  case (CallWriteHeader code h)
  then show ?case by (auto split: option.split)
next
  case (AssertFlush k)
  then show ?case by (auto split: option.split)
next
  case (AssertHijack k)
  then show ?case by (auto simp: split_def split: option.split)
next
  case (AssertPush path k)
  then show ?case by (auto simp: split_def split: option.split)
qed (auto simp: split_def)

text \<open>One request, once the handler has run.\<close>

definition first_action :: "'m middleware_config \<Rightarrow> http_request \<Rightarrow> request_action" where
  "first_action cfg r =
     \<lparr>ra_name = (if untraced_path cfg (hr_Path r) then hr_Method r @ '' '' @ hr_Path r else hr_Method r), ra_errorCode = []\<rparr>"

definition status_ops :: "int \<Rightarrow> span_op list" where
  "status_ops status =
     [SetStatusCode status] @ (if status \<ge> 500 then [SetError (''HTTP '' @ format_int status)] else [])"

definition metric_of :: "request_action \<Rightarrow> http_request \<Rightarrow> int \<Rightarrow> 'w status_recorder \<Rightarrow> request_metric" where
  "metric_of act r elapsed v =
     \<lparr>rm_Action = ra_name act, rm_Outcome = OutcomeForStatus (rc_status v), rm_StatusCode = rc_status v,
      rm_ErrorCode = ra_errorCode act, rm_ReqBytes = max (hr_ContentLength r) 0, rm_RespBytes = rc_written v, rm_Elapsed = elapsed\<rparr>"

lemma HTTPMiddleware_run:
  assumes "serve (recorder_ops ops) h (\<lparr>rc_ResponseWriter = w, rc_status = 200, rc_written = 0\<rparr>, Some (first_action cfg r)) = (p, (v, a'))"
  shows "HTTPMiddleware cfg serverName ops h elapsed r w m =
     \<lparr>ht_panicked = p, ht_writer = rc_ResponseWriter v,
      ht_metrics = (if p then m
        else mc_record cfg (metric_of (case a' of Some a \<Rightarrow> a | None \<Rightarrow> first_action cfg r) r elapsed v) m),
      ht_span = (if untraced_path cfg (hr_Path r) then []
        else [StartSpan (hr_Method r @ '' '' @ hr_Path r)
          [Attr ''http.request.method'' (hr_Method r), Attr ''url.path'' (hr_Path r), Attr ''server.name'' serverName]] @
          (if p then [] else status_ops (rc_status v)) @ [EndSpan]),
      ht_context_span = (if untraced_path cfg (hr_Path r) then (if p then [] else status_ops (rc_status v)) else [])\<rparr>"
  unfolding HTTPMiddleware_def Let_def assms [unfolded first_action_def] prod.case metric_of_def status_ops_def first_action_def
  by (rule refl)

text \<open>The check of a streaming handler: \<^verbatim>\<open>if _, ok := w.(http.Flusher); !ok { w.WriteHeader(500) }\<close>.\<close>

definition check_flusher :: handler where
  "check_flusher = Asserts Flusher (\<lambda>ok. if ok then Done else CallWriteHeader 500 Done)"

lemma check_flusher_recorder: "ht_writer (HTTPMiddleware cfg serverName ops check_flusher elapsed r w m) = w"
  by (simp add: HTTPMiddleware_def check_flusher_def recorder_implements Let_def)

lemma check_flusher_plain:
  "rw_Flush ops = None \<Longrightarrow> serve ops check_flusher s = serve ops (CallWriteHeader 500 Done) s"
  by (simp add: check_flusher_def implements_def)

section \<open>Properties\<close>

text \<open>C32: Through the middleware a handler leaves the server's writer exactly as it does without it, and panics in the same
  cases, for every writer and every handler that does not look where the recorder differs from that writer. A
  handler here is what it does with its writer: reading and setting headers, WriteHeader, Write, WriteString,
  io.Copy, Push, flushing and hijacking through the response controller or an assertion, and asserting optional
  interfaces; it does not call Unwrap or the controller's deadlines itself. One that does not look checks the result of a flush through the response controller only if that flush cannot fail; it
  asserts an optional interface of its writer only where the recorder and the server's writer both have it or
  both lack it, or where nothing depends on the answer; it flushes or hijacks through an assertion only if the
  server's writer has that method itself (its Flush being what the controller would call), pushes only if the
  server's writer cannot push, and uses WriteString only if that is the writer's Write or missing. Where the
  recorder shows: it implements Flusher, Hijacker, ReaderFrom and Unwrap whatever the server's writer does, and
  nothing else; its Flush reaches the server's writer, but the controller then reports success for a flush that
  failed; and before a writer that cannot flush, a handler that answers 500 when the assertion of Flusher fails
  does so without the middleware and answers nothing through it.\<close>
theorem middleware_transparent:
  assumes "unaware ops h"
  shows "ht_panicked (HTTPMiddleware cfg serverName ops h elapsed r w m) = fst (serve ops h (w, None)) \<and>
    ht_writer (HTTPMiddleware cfg serverName ops h elapsed r w m) = fst (snd (serve ops h (w, None))) \<and>
    fst (controller_Flush (recorder_ops ops) rec) = None \<and>
    Unwrap (snd (controller_Flush (recorder_ops ops) rec)) = snd (controller_Flush ops (Unwrap rec)) \<and>
    (\<forall>i. implements (recorder_ops ops) i \<longleftrightarrow> i \<in> {Flusher, Hijacker, ReaderFrom, Having ''Unwrap''}) \<and>
    (rw_Flush ops = None \<longrightarrow>
      ht_writer (HTTPMiddleware cfg serverName ops check_flusher elapsed r w m) = w \<and>
      serve ops check_flusher (w, None) = serve ops (CallWriteHeader 500 Done) (w, None))"
proof -
  let ?a = "first_action cfg r"
  let ?rec = "\<lparr>rc_ResponseWriter = w, rc_status = 200, rc_written = 0\<rparr>"
  obtain p v a' where run: "serve (recorder_ops ops) h (?rec, Some ?a) = (p, (v, a'))" by (metis surj_pair)
  have "ht_panicked (HTTPMiddleware cfg serverName ops h elapsed r w m) = p"
    "ht_writer (HTTPMiddleware cfg serverName ops h elapsed r w m) = rc_ResponseWriter v"
    by (simp_all add: HTTPMiddleware_run [OF run])
  moreover have "serve ops h (w, Some ?a) = (p, (rc_ResponseWriter v, a'))"
    using serve_recorder [OF assms, of ?rec "Some ?a"] run by simp
  ultimately show ?thesis
    using serve_holder [of ops h w "Some ?a" None]
    by (simp add: recorder_Flush Unwrap_def recorder_implements check_flusher_recorder check_flusher_plain)
qed

definition collecting :: "string set option \<Rightarrow> request_metric list middleware_config" where
  "collecting untraced = \<lparr>mc_untraced = untraced, mc_record = (\<lambda>m ms. ms @ [m])\<rparr>"



text \<open>Every request that returns is measured once: one count and one duration with the same attributes, among them the
  outcome that its status stands for, and only positive byte counts; its span is marked failed exactly for the
  outcome error. A traced request's span is started and ended once even when the handler panics; an untraced
  path starts none.\<close>
theorem request_accounted:
  assumes "res = HTTPMiddleware \<lparr>mc_untraced = untraced, mc_record = RecordRequest \<lparr>in_counter = True, in_duration = True, in_bytes = True\<rparr>\<rparr>
    serverName ops h elapsed r w m"
  shows "(ht_panicked res \<longrightarrow> ht_metrics res = m) \<and>
    (\<not> ht_panicked res \<longrightarrow> (\<exists>status attrs bytes. ht_metrics res = m @ [Requests 1 attrs, Duration elapsed attrs] @ bytes \<and>
       Attr ''outcome'' (OutcomeForStatus status) \<in> set attrs \<and> (0 < status \<longrightarrow> StatusCodeAttr status \<in> set attrs) \<and>
       (\<forall>b\<in>set bytes. \<exists>n d. b = Bytes n d \<and> 0 < n) \<and>
       SetStatusCode status \<in> set (ht_span res @ ht_context_span res) \<and>
       ((\<exists>e. SetError e \<in> set (ht_span res @ ht_context_span res)) \<longleftrightarrow> OutcomeForStatus status = ''error''))) \<and>
    (\<exists>start ops. if case untraced of None \<Rightarrow> False | Some paths \<Rightarrow> hr_Path r \<in> paths then ht_span res = []
       else ht_span res = [start] @ ops @ [EndSpan] \<and> ht_context_span res = [] \<and> EndSpan \<notin> set ops)"
proof -
  let ?cfg = "\<lparr>mc_untraced = untraced, mc_record = RecordRequest \<lparr>in_counter = True, in_duration = True, in_bytes = True\<rparr>\<rparr>"
  let ?a = "first_action ?cfg r"
  let ?rec = "\<lparr>rc_ResponseWriter = w, rc_status = 200, rc_written = 0\<rparr>"
  obtain p v a' where run: "serve (recorder_ops ops) h (?rec, Some ?a) = (p, (v, a'))" by (metis surj_pair)
  define metric where "metric = metric_of (case a' of Some a \<Rightarrow> a | None \<Rightarrow> ?a) r elapsed v"
  define skip where "skip = (case untraced of None \<Rightarrow> False | Some paths \<Rightarrow> hr_Path r \<in> paths)"
  have skip: "untraced_path ?cfg (hr_Path r) = skip" by (simp add: untraced_path_def skip_def)
  note res = assms [unfolded HTTPMiddleware_run [OF run, folded metric_def] skip, folded metric_def]
  have outcome: "OutcomeForStatus (rc_status v) \<noteq> []" "OutcomeForStatus (rc_status v) = ''error'' \<longleftrightarrow> 500 \<le> rc_status v"
    by (auto simp: OutcomeForStatus_def)
  let ?attrs = "request_attrs metric"
  let ?bytes = "(if rm_ReqBytes metric > 0 then [Bytes (rm_ReqBytes metric) [Attr actionAttrKey (rm_Action metric), Attr directionAttrKey ''in'']] else []) @
    (if rm_RespBytes metric > 0 then [Bytes (rm_RespBytes metric) [Attr actionAttrKey (rm_Action metric), Attr directionAttrKey ''out'']] else [])"
  have "\<exists>status attrs bytes. ht_metrics res = m @ [Requests 1 attrs, Duration elapsed attrs] @ bytes \<and>
       Attr ''outcome'' (OutcomeForStatus status) \<in> set attrs \<and> (0 < status \<longrightarrow> StatusCodeAttr status \<in> set attrs) \<and>
       (\<forall>b\<in>set bytes. \<exists>n d. b = Bytes n d \<and> 0 < n) \<and>
       SetStatusCode status \<in> set (ht_span res @ ht_context_span res) \<and>
       ((\<exists>e. SetError e \<in> set (ht_span res @ ht_context_span res)) \<longleftrightarrow> OutcomeForStatus status = ''error'')" if "\<not> p"
  proof (intro exI [of _ "rc_status v"] exI [of _ ?attrs] exI [of _ ?bytes] conjI)
    show "ht_metrics res = m @ [Requests 1 ?attrs, Duration elapsed ?attrs] @ ?bytes"
      using that by (simp add: res RecordRequest_def metric_of_def metric_def Let_def)
    show "Attr ''outcome'' (OutcomeForStatus (rc_status v)) \<in> set ?attrs" "0 < rc_status v \<longrightarrow> StatusCodeAttr (rc_status v) \<in> set ?attrs"
      using outcome(1) by (simp_all add: request_attrs_def metric_def metric_of_def)
    show "\<forall>b\<in>set ?bytes. \<exists>n d. b = Bytes n d \<and> 0 < n" by auto
    show "SetStatusCode (rc_status v) \<in> set (ht_span res @ ht_context_span res)"
      "(\<exists>e. SetError e \<in> set (ht_span res @ ht_context_span res)) \<longleftrightarrow> OutcomeForStatus (rc_status v) = ''error''"
      using that outcome(2) by (auto simp: res status_ops_def)
  qed
  moreover have "EndSpan \<notin> set (status_ops (rc_status v))" by (simp add: status_ops_def)
  ultimately show ?thesis unfolding skip_def [symmetric] by (auto simp: res)
qed

section \<open>Witnesses\<close>

definition streaming :: handler where
  "streaming = SetHeader ''Content-Type'' [''text/plain''] (CallWrite ''hello'' (\<lambda>_.
     Asserts Flusher (\<lambda>ok. if ok then CallFlush (\<lambda>e. case e of None \<Rightarrow> CallWriteString ''!'' (\<lambda>_. Done) | Some _ \<Rightarrow> Panic)
       else CallWriteHeader 500 Done)))"

theorem middleware_transparent_witness:
  "nh_body (ht_writer (HTTPMiddleware (collecting None) ''s3'' net_ops streaming 5
     \<lparr>hr_Method = ''GET'', hr_Path = ''/'', hr_ContentLength = 0\<rparr> (fresh_response (-1)) [])) = ''hello!'' \<and>
   rw_Flush (net_ops\<lparr>rw_Flush := None\<rparr>) = None \<and>
   nh_status (ht_writer (HTTPMiddleware (collecting None) ''s3'' (net_ops\<lparr>rw_Flush := None\<rparr>) check_flusher 5
     \<lparr>hr_Method = ''GET'', hr_Path = ''/'', hr_ContentLength = 0\<rparr> (fresh_response (-1)) [])) = None"
proof -
  let ?r = "\<lparr>hr_Method = ''GET'', hr_Path = ''/'', hr_ContentLength = 0\<rparr>"
  let ?ops = "net_ops\<lparr>rw_Flush := None\<rparr>"
  have "unaware net_ops streaming"
    by (simp add: streaming_def net_Flush implements_def net_ops_simps split: option.split)
  from middleware_transparent [OF this, of "collecting None" "''s3''" 5 ?r "fresh_response (-1)" "[]"]
  have "nh_body (ht_writer (HTTPMiddleware (collecting None) ''s3'' net_ops streaming 5 ?r (fresh_response (-1)) [])) = ''hello!''"
    by (simp add: streaming_def net_Flush implements_def io_WriteString_def net_ops_simps net_Write_def
        net_implicit_header_def net_send_header_def net_SetHeader_def net_body_allowed_def fresh_response_def Let_def)
  moreover have "unaware ?ops Done" by simp
  from middleware_transparent [OF this, of "collecting None" "''s3''" 5 ?r "fresh_response (-1)" "[]"]
  have "nh_status (ht_writer (HTTPMiddleware (collecting None) ''s3'' ?ops check_flusher 5 ?r (fresh_response (-1)) [])) = None"
    by (simp add: fresh_response_def)
  ultimately show ?thesis by simp
qed

definition get_request :: http_request where
  "get_request = \<lparr>hr_Method = ''GET'', hr_Path = ''/healthz'', hr_ContentLength = -1\<rparr>"


theorem request_accounted_witness:
  "\<exists>attrs. Requests 1 attrs \<in> set (ht_metrics (HTTPMiddleware
     \<lparr>mc_untraced = Some {''/healthz''}, mc_record = RecordRequest \<lparr>in_counter = True, in_duration = True, in_bytes = True\<rparr>\<rparr>
     ''s3'' net_ops Done 5 get_request (fresh_response (-1)) []))"
proof -
  let ?res = "HTTPMiddleware
     \<lparr>mc_untraced = Some {''/healthz''}, mc_record = RecordRequest \<lparr>in_counter = True, in_duration = True, in_bytes = True\<rparr>\<rparr>
     ''s3'' net_ops Done 5 get_request (fresh_response (-1)) []"
  have "\<not> ht_panicked ?res" by (simp add: HTTPMiddleware_def Let_def)
  then show ?thesis using request_accounted [OF refl, of "Some {''/healthz''}" "''s3''" net_ops Done 5 get_request "fresh_response (-1)" "[]"]
    by fastforce
qed

end
