(* ===== verification/SlogHandlers.thy ===== *)
theory SlogHandlers
  imports GoStrings
begin

text \<open>
  The log handlers of \<^verbatim>\<open>pkg/otelsetup/slog.go\<close> and the process default logger. A handler is a tree of the
  package's three wrappers over \<^verbatim>\<open>log/slog\<close>'s JSON handler and over the OpenTelemetry bridge; the bridge, the
  writers' errors and the level variable are the parameter \<open>sinks\<close>. Of the JSON handler the model keeps the
  writer, the level, the attributes bound so far with the groups they are nested in, and the open groups.
  Locks have no model: each function runs its critical section alone.
\<close>

section \<open>Records, contexts and handlers\<close>

type_synonym attr = "string \<times> string"

record slog_record =
  sl_level :: int
  sl_msg :: string
  sl_attrs :: "attr list"

record span_context =
  sc_IsValid :: bool
  sc_TraceID :: string
  sc_SpanID :: string

text \<open>\<^verbatim>\<open>slog.Leveler\<close>: a level, or the variable \<^verbatim>\<open>defaultLevel\<close>.\<close>

datatype leveler = FixedLevel int | DefaultLevel

record 'w json_handler =
  jh_writer :: 'w
  jh_level :: leveler
  jh_attrs :: "(string list \<times> attr) list"
  jh_groups :: "string list"

datatype ('w, 'b) slog_handler = JSONHandler "'w json_handler"
  | BridgeHandler 'b
  | TraceHandler "('w, 'b) slog_handler"
  | LevelHandler leveler "('w, 'b) slog_handler"
  | FanoutHandler "('w, 'b) slog_handler list"

record ('w, 'b) sinks =
  sk_level :: int
  sk_write :: "'w \<Rightarrow> string option"
  sk_Enabled :: "span_context \<Rightarrow> int \<Rightarrow> 'b \<Rightarrow> bool"
  sk_Handle :: "span_context \<Rightarrow> slog_record \<Rightarrow> 'b \<Rightarrow> string option"
  sk_WithAttrs :: "attr list \<Rightarrow> 'b \<Rightarrow> 'b"
  sk_WithGroup :: "string \<Rightarrow> 'b \<Rightarrow> 'b"

definition Level :: "('w, 'b) sinks \<Rightarrow> leveler \<Rightarrow> int" where
  "Level sk l = (case l of FixedLevel n \<Rightarrow> n | DefaultLevel \<Rightarrow> sk_level sk)"

text \<open>What leaves the process: a JSON line, or a record given to a bridge.\<close>

datatype ('w, 'b) emission = JsonLine 'w int string "(string list \<times> attr) list" | Exported 'b slog_record

section \<open>The slog.Handler methods\<close>

text \<open>
  One definition per method of a wrapper, over what the same method of the wrapped handlers gives; the methods
  of the whole tree then call them by the kind of the handler.
\<close>

definition level_Enabled :: "('w, 'b) sinks \<Rightarrow> leveler \<Rightarrow> int \<Rightarrow> bool" where
  "level_Enabled sk hlevel l \<longleftrightarrow> l \<ge> Level sk hlevel"

fun fanout_Enabled :: "bool list \<Rightarrow> bool" where
  "fanout_Enabled [] = False"
| "fanout_Enabled (enabled # inner) = (if enabled then True else fanout_Enabled inner)"

fun Enabled :: "('w, 'b) sinks \<Rightarrow> span_context \<Rightarrow> int \<Rightarrow> ('w, 'b) slog_handler \<Rightarrow> bool" where
  "Enabled sk ctx level (JSONHandler h) = (level \<ge> Level sk (jh_level h))"
| "Enabled sk ctx level (BridgeHandler b) = sk_Enabled sk ctx level b"
| "Enabled sk ctx level (TraceHandler inner) = Enabled sk ctx level inner"
| "Enabled sk ctx level (LevelHandler l inner) = level_Enabled sk l level"
| "Enabled sk ctx level (FanoutHandler handlers) = fanout_Enabled (map (Enabled sk ctx level) handlers)"

text \<open>\<^verbatim>\<open>errors.Join\<close>: the errors that are not nil, in order; the empty list is the nil error.\<close>

definition error_list :: "string option \<Rightarrow> string list" where
  "error_list e = (case e of None \<Rightarrow> [] | Some x \<Rightarrow> [x])"

type_synonym ('w, 'b) handled = "string list \<times> ('w, 'b) emission list"

definition trace_Handle :: "span_context \<Rightarrow> (slog_record \<Rightarrow> ('w, 'b) handled) \<Rightarrow> slog_record \<Rightarrow> ('w, 'b) handled" where
  "trace_Handle ctx inner r =
     (if sc_IsValid ctx
      then inner (r\<lparr>sl_attrs := sl_attrs r @ [(''trace_id'', sc_TraceID ctx), (''span_id'', sc_SpanID ctx)]\<rparr>)
      else inner r)"

text \<open>The loop: whether each handler is enabled for the record, and what it does with a copy of it.\<close>

fun fanout_Handle :: "(bool \<times> ('w, 'b) handled) list \<Rightarrow> string list \<Rightarrow> ('w, 'b) handled" where
  "fanout_Handle [] errs = (errs, [])"
| "fanout_Handle ((enabled, (err, out)) # inner) errs =
     (if enabled then (case fanout_Handle inner (errs @ err) of (errs', out') \<Rightarrow> (errs', out @ out'))
      else fanout_Handle inner errs)"

fun Handle :: "('w, 'b) sinks \<Rightarrow> span_context \<Rightarrow> slog_record \<Rightarrow> ('w, 'b) slog_handler \<Rightarrow> ('w, 'b) handled" where
  "Handle sk ctx r (JSONHandler h) =
     (error_list (sk_write sk (jh_writer h)),
      [JsonLine (jh_writer h) (sl_level r) (sl_msg r) (jh_attrs h @ map (Pair (jh_groups h)) (sl_attrs r))])"
| "Handle sk ctx r (BridgeHandler b) = (error_list (sk_Handle sk ctx r b), [Exported b r])"
| "Handle sk ctx r (TraceHandler inner) = trace_Handle ctx (\<lambda>r. Handle sk ctx r inner) r"
| "Handle sk ctx r (LevelHandler l inner) = Handle sk ctx r inner"
| "Handle sk ctx r (FanoutHandler handlers) =
     fanout_Handle (map (\<lambda>inner. (Enabled sk ctx (sl_level r) inner, Handle sk ctx r inner)) handlers) []"

definition trace_WithAttrs :: "('w, 'b) slog_handler \<Rightarrow> ('w, 'b) slog_handler" where
  "trace_WithAttrs inner = TraceHandler inner"

definition level_WithAttrs :: "leveler \<Rightarrow> ('w, 'b) slog_handler \<Rightarrow> ('w, 'b) slog_handler" where
  "level_WithAttrs hlevel inner = LevelHandler hlevel inner"

definition fanout_WithAttrs :: "('w, 'b) slog_handler list \<Rightarrow> ('w, 'b) slog_handler" where
  "fanout_WithAttrs inner = FanoutHandler inner"

fun WithAttrs :: "('w, 'b) sinks \<Rightarrow> attr list \<Rightarrow> ('w, 'b) slog_handler \<Rightarrow> ('w, 'b) slog_handler" where
  "WithAttrs sk attrs (JSONHandler h) = JSONHandler (h\<lparr>jh_attrs := jh_attrs h @ map (Pair (jh_groups h)) attrs\<rparr>)"
| "WithAttrs sk attrs (BridgeHandler b) = BridgeHandler (sk_WithAttrs sk attrs b)"
| "WithAttrs sk attrs (TraceHandler inner) = trace_WithAttrs (WithAttrs sk attrs inner)"
| "WithAttrs sk attrs (LevelHandler l inner) = level_WithAttrs l (WithAttrs sk attrs inner)"
| "WithAttrs sk attrs (FanoutHandler handlers) = fanout_WithAttrs (map (WithAttrs sk attrs) handlers)"

definition trace_WithGroup :: "('w, 'b) slog_handler \<Rightarrow> ('w, 'b) slog_handler" where
  "trace_WithGroup inner = TraceHandler inner"

definition level_WithGroup :: "leveler \<Rightarrow> ('w, 'b) slog_handler \<Rightarrow> ('w, 'b) slog_handler" where
  "level_WithGroup hlevel inner = LevelHandler hlevel inner"

definition fanout_WithGroup :: "('w, 'b) slog_handler list \<Rightarrow> ('w, 'b) slog_handler" where
  "fanout_WithGroup inner = FanoutHandler inner"

fun WithGroup :: "('w, 'b) sinks \<Rightarrow> string \<Rightarrow> ('w, 'b) slog_handler \<Rightarrow> ('w, 'b) slog_handler" where
  "WithGroup sk name (JSONHandler h) = JSONHandler (h\<lparr>jh_groups := jh_groups h @ [name]\<rparr>)"
| "WithGroup sk name (BridgeHandler b) = BridgeHandler (sk_WithGroup sk name b)"
| "WithGroup sk name (TraceHandler inner) = trace_WithGroup (WithGroup sk name inner)"
| "WithGroup sk name (LevelHandler l inner) = level_WithGroup l (WithGroup sk name inner)"
| "WithGroup sk name (FanoutHandler handlers) = fanout_WithGroup (map (WithGroup sk name) handlers)"

lemmas handler_defs = level_Enabled_def trace_Handle_def trace_WithAttrs_def level_WithAttrs_def fanout_WithAttrs_def
  trace_WithGroup_def level_WithGroup_def fanout_WithGroup_def

definition NewSlogHandler :: "('w, 'b) slog_handler \<Rightarrow> ('w, 'b) slog_handler" where
  "NewSlogHandler inner = TraceHandler inner"

definition newLevelHandler :: "leveler \<Rightarrow> ('w, 'b) slog_handler \<Rightarrow> ('w, 'b) slog_handler" where
  "newLevelHandler level inner = LevelHandler level inner"

definition newFanoutHandler :: "('w, 'b) slog_handler list \<Rightarrow> ('w, 'b) slog_handler" where
  "newFanoutHandler handlers = FanoutHandler handlers"

text \<open>\<^verbatim>\<open>slog.Logger\<close>'s log call: nothing below the enabled level, the handler otherwise; its error is dropped.\<close>

definition log_record :: "('w, 'b) sinks \<Rightarrow> span_context \<Rightarrow> slog_record \<Rightarrow> ('w, 'b) slog_handler \<Rightarrow> ('w, 'b) emission list" where
  "log_record sk ctx r h = (if Enabled sk ctx (sl_level r) h then snd (Handle sk ctx r h) else [])"

section \<open>Loggers\<close>

record 'w logger_config =
  lc_serviceName :: string
  lc_writer :: 'w

type_synonym 'w logger_option = "'w logger_config \<Rightarrow> 'w logger_config"

definition WithWriter :: "'w \<Rightarrow> 'w logger_option" where
  "WithWriter w c = c\<lparr>lc_writer := w\<rparr>"

definition resolveLoggerConfig :: "'w \<Rightarrow> string \<Rightarrow> 'w logger_option list \<Rightarrow> 'w logger_config" where
  "resolveLoggerConfig stdout serviceName opts =
     foldl (\<lambda>conf opt. opt conf) \<lparr>lc_serviceName = serviceName, lc_writer = stdout\<rparr> opts"

text \<open>The global logger provider, when it is a real one, as the bridge it gives a service.\<close>

type_synonym 'b logger_provider = "(string \<Rightarrow> 'b) option"

definition newHandler :: "'b logger_provider \<Rightarrow> 'w logger_config \<Rightarrow> leveler \<Rightarrow> ('w, 'b) slog_handler" where
  "newHandler provider conf level =
     (let out = NewSlogHandler (JSONHandler \<lparr>jh_writer = lc_writer conf, jh_level = level, jh_attrs = [], jh_groups = []\<rparr>)
      in case provider of
          None \<Rightarrow> out
        | Some lp \<Rightarrow> newFanoutHandler [out, newLevelHandler level (BridgeHandler (lp (lc_serviceName conf)))])"

definition NewJSONLogger ::
  "'b logger_provider \<Rightarrow> 'w \<Rightarrow> string \<Rightarrow> leveler \<Rightarrow> 'w logger_option list \<Rightarrow> ('w, 'b) slog_handler" where
  "NewJSONLogger provider stdout serviceName level opts =
     newHandler provider (resolveLoggerConfig stdout serviceName opts) level"

section \<open>The default logger of the process\<close>

record ('w, 'b) log_state =
  ls_defaultLevel :: int
  ls_installedDefault :: "'w logger_config option"
  ls_default :: "('w, 'b) slog_handler"
  ls_provider :: "'b logger_provider"

definition level_now :: "('w, 'b) log_state \<Rightarrow> leveler \<Rightarrow> int" where
  "level_now s l = (case l of FixedLevel n \<Rightarrow> n | DefaultLevel \<Rightarrow> ls_defaultLevel s)"

definition SetDefaultJSONLogger ::
  "'w \<Rightarrow> string \<Rightarrow> leveler \<Rightarrow> 'w logger_option list \<Rightarrow> ('w, 'b) log_state \<Rightarrow> ('w, 'b) log_state" where
  "SetDefaultJSONLogger stdout serviceName level opts s =
     (let conf = resolveLoggerConfig stdout serviceName opts;
          s = s\<lparr>ls_defaultLevel := level_now s level\<rparr>;
          s = s\<lparr>ls_installedDefault := Some conf\<rparr>
      in s\<lparr>ls_default := newHandler (ls_provider s) conf DefaultLevel\<rparr>)"

definition SetLevel :: "int \<Rightarrow> ('w, 'b) log_state \<Rightarrow> ('w, 'b) log_state" where
  "SetLevel level s = s\<lparr>ls_defaultLevel := level\<rparr>"

definition refreshDefaultLogger :: "('w, 'b) log_state \<Rightarrow> ('w, 'b) log_state" where
  "refreshDefaultLogger s =
     (case ls_installedDefault s of
        None \<Rightarrow> s
      | Some conf \<Rightarrow> s\<lparr>ls_default := newHandler (ls_provider s) conf DefaultLevel\<rparr>)"

text \<open>What \<^verbatim>\<open>Init\<close> does to logging once the exporter is up.\<close>

definition install_provider :: "(string \<Rightarrow> 'b) \<Rightarrow> ('w, 'b) log_state \<Rightarrow> ('w, 'b) log_state" where
  "install_provider lp s = refreshDefaultLogger (s\<lparr>ls_provider := Some lp\<rparr>)"

section \<open>Derived loggers\<close>

text \<open>\<^verbatim>\<open>With\<close> and \<^verbatim>\<open>WithGroup\<close> in any order.\<close>

datatype derivation = AddAttrs "attr list" | OpenGroup string

fun derive :: "('w, 'b) sinks \<Rightarrow> ('w, 'b) slog_handler \<Rightarrow> derivation list \<Rightarrow> ('w, 'b) slog_handler" where
  "derive sk h [] = h"
| "derive sk h (AddAttrs attrs # ds) = derive sk (WithAttrs sk attrs h) ds"
| "derive sk h (OpenGroup name # ds) = derive sk (WithGroup sk name h) ds"

fun derived_bridge :: "('w, 'b) sinks \<Rightarrow> 'b \<Rightarrow> derivation list \<Rightarrow> 'b" where
  "derived_bridge sk b [] = b"
| "derived_bridge sk b (AddAttrs attrs # ds) = derived_bridge sk (sk_WithAttrs sk attrs b) ds"
| "derived_bridge sk b (OpenGroup name # ds) = derived_bridge sk (sk_WithGroup sk name b) ds"

fun bound_attrs :: "string list \<Rightarrow> derivation list \<Rightarrow> (string list \<times> attr) list" where
  "bound_attrs groups [] = []"
| "bound_attrs groups (AddAttrs attrs # ds) = map (Pair groups) attrs @ bound_attrs groups ds"
| "bound_attrs groups (OpenGroup name # ds) = bound_attrs (groups @ [name]) ds"

definition groups_of :: "derivation list \<Rightarrow> string list" where
  "groups_of ds = List.map_filter (\<lambda>d. case d of OpenGroup name \<Rightarrow> Some name | AddAttrs _ \<Rightarrow> None) ds"

lemma groups_of_simps [simp]:
  "groups_of [] = []" "groups_of (AddAttrs attrs # ds) = groups_of ds" "groups_of (OpenGroup name # ds) = name # groups_of ds"
  by (simp_all add: groups_of_def List.map_filter_simps)

lemma derive_json:
  "derive sk (TraceHandler (JSONHandler h)) ds =
     TraceHandler (JSONHandler (h\<lparr>jh_attrs := jh_attrs h @ bound_attrs (jh_groups h) ds, jh_groups := jh_groups h @ groups_of ds\<rparr>))"
proof (induction ds arbitrary: h)
  case (Cons d ds)
  then show ?case by (cases d) (simp_all add: handler_defs)
qed simp

lemma derive_bridge: "derive sk (LevelHandler l (BridgeHandler b)) ds = LevelHandler l (BridgeHandler (derived_bridge sk b ds))"
proof (induction ds arbitrary: b)
  case (Cons d ds)
  then show ?case by (cases d) (simp_all add: handler_defs)
qed simp

lemma derive_fanout: "derive sk (FanoutHandler hs) ds = FanoutHandler (map (\<lambda>h. derive sk h ds) hs)"
proof (induction ds arbitrary: hs)
  case (Cons d ds)
  then show ?case by (cases d) (simp_all add: handler_defs o_def)
qed simp

definition stamp :: "span_context \<Rightarrow> attr list" where
  "stamp ctx = (if sc_IsValid ctx then [(''trace_id'', sc_TraceID ctx), (''span_id'', sc_SpanID ctx)] else [])"

section \<open>Properties\<close>

text \<open>C34: Both sinks have the one level and get each record once: a logger of the package, and any logger derived from it
  by binding attributes and opening groups, drops a record below the level before any handler runs, and writes
  one at or above it once to the configured writer and, exactly when an exporting provider is installed, once
  to the bridge, whatever the bridge says is enabled. The JSON line carries the trace and span of a valid
  context, but inside the groups that are open, so not as the top-level trace_id the comment promises for
  every line.\<close>
theorem logger_output:
  "log_record sk ctx r (derive sk (NewJSONLogger provider stdout serviceName level opts) ds) =
     (if sl_level r < Level sk level then []
      else JsonLine (lc_writer (resolveLoggerConfig stdout serviceName opts)) (sl_level r) (sl_msg r)
             (bound_attrs [] ds @ map (Pair (groups_of ds)) (sl_attrs r @ stamp ctx)) #
           (case provider of None \<Rightarrow> []
            | Some lp \<Rightarrow> [Exported (derived_bridge sk (lp (lc_serviceName (resolveLoggerConfig stdout serviceName opts))) ds) r]))"
  by (cases provider)
    (auto simp: log_record_def NewJSONLogger_def newHandler_def NewSlogHandler_def newFanoutHandler_def newLevelHandler_def
      derive_json derive_bridge derive_fanout handler_defs stamp_def Let_def)

text \<open>Setting the default logger and installing the exporter commute: the process ends up with the same logger, bridged
  to the provider, and the same level, whichever happens first; a level set afterwards applies to that logger
  without rebuilding it; and installing the exporter never touches a default logger that the package did not
  install.\<close>
theorem default_logger_order:
  "install_provider lp (SetDefaultJSONLogger stdout serviceName level opts s) =
     SetDefaultJSONLogger stdout serviceName level opts (install_provider lp s) \<and>
   ls_default (install_provider lp (SetDefaultJSONLogger stdout serviceName level opts s)) =
     NewJSONLogger (Some lp) stdout serviceName DefaultLevel opts \<and>
   ls_default (SetLevel n (install_provider lp s)) = ls_default (install_provider lp s) \<and>
   (ls_installedDefault s = None \<longrightarrow> ls_default (install_provider lp s) = ls_default s)"
  by (cases "ls_installedDefault s"; cases level)
    (simp_all add: install_provider_def SetDefaultJSONLogger_def refreshDefaultLogger_def SetLevel_def NewJSONLogger_def
      level_now_def Let_def)

section \<open>Witnesses\<close>

definition sample_state :: "(nat, nat) log_state" where
  "sample_state = \<lparr>ls_defaultLevel = 0, ls_installedDefault = None,
     ls_default = JSONHandler \<lparr>jh_writer = 9, jh_level = FixedLevel 0, jh_attrs = [], jh_groups = []\<rparr>, ls_provider = None\<rparr>"

theorem default_logger_order_witness:
  "ls_default (install_provider (\<lambda>_. 3) sample_state) = JSONHandler \<lparr>jh_writer = 9, jh_level = FixedLevel 0, jh_attrs = [], jh_groups = []\<rparr>"
  using default_logger_order [of "\<lambda>_. 3" 1 "''s3''" "FixedLevel 4" "[]" sample_state 0]
  by (simp add: sample_state_def)

end
