(* ===== verification/OtelInit.thy ===== *)
theory OtelInit
  imports SlogHandlers Complex_Main
begin

text \<open>
  The bootstrap of \<^verbatim>\<open>pkg/otelsetup/otelsetup.go\<close>. The exporters, the providers and the resource detectors are
  third-party code: which of them fail, and with what, is the parameter \<open>otel_sdk\<close>. The state is the globals
  \<^verbatim>\<open>Init\<close> installs, the log of providers started and stopped, and the logging state of SlogHandlers. The
  environment is a function; timeouts, batching and warnings have no model.
\<close>

section \<open>Options\<close>

record init_config =
  ic_tracing :: bool
  ic_runtimeMetrics :: bool
  ic_envFallbacks :: "string list"

type_synonym init_option = "init_config \<Rightarrow> init_config"

definition WithoutTracing :: init_option where "WithoutTracing c = c\<lparr>ic_tracing := False\<rparr>"
definition WithoutRuntimeMetrics :: init_option where "WithoutRuntimeMetrics c = c\<lparr>ic_runtimeMetrics := False\<rparr>"

definition WithEnvironmentFallback :: "string list \<Rightarrow> init_option" where
  "WithEnvironmentFallback vars c = c\<lparr>ic_envFallbacks := ic_envFallbacks c @ vars\<rparr>"

section \<open>The environment\<close>

type_synonym environment = "string \<Rightarrow> string"

definition exportEnabled :: "unicode \<Rightarrow> environment \<Rightarrow> bool" where
  "exportEnabled U env =
     (if equal_fold U (env ''OTEL_SDK_DISABLED'') ''true'' then False
      else list_ex (\<lambda>key. env key \<noteq> [])
        [''OTEL_EXPORTER_OTLP_ENDPOINT'', ''OTEL_EXPORTER_OTLP_TRACES_ENDPOINT'',
         ''OTEL_EXPORTER_OTLP_METRICS_ENDPOINT'', ''OTEL_EXPORTER_OTLP_LOGS_ENDPOINT''])"

fun first_set :: "environment \<Rightarrow> string list \<Rightarrow> string" where
  "first_set env [] = []"
| "first_set env (key # keys) = (if env key \<noteq> [] then env key else first_set env keys)"

definition deploymentEnv :: "environment \<Rightarrow> string list \<Rightarrow> string" where
  "deploymentEnv env fallbacks = (if env ''MULGA_ENV'' \<noteq> [] then env ''MULGA_ENV'' else first_set env fallbacks)"

text \<open>\<^verbatim>\<open>debug.ReadBuildInfo\<close>: the main module's version and the build settings.\<close>

record build_info =
  bi_version :: string
  bi_settings :: "(string \<times> string) list"

fun first_revision :: "(string \<times> string) list \<Rightarrow> string" where
  "first_revision [] = []"
| "first_revision ((key, v) # settings) =
     (if key = ''vcs.revision'' \<and> length v \<ge> 12 then take 12 v else first_revision settings)"

definition buildVersion :: "build_info option \<Rightarrow> string" where
  "buildVersion info =
     (case info of
        None \<Rightarrow> []
      | Some i \<Rightarrow> if bi_version i \<noteq> [] \<and> bi_version i \<noteq> ''(devel)'' then bi_version i else first_revision (bi_settings i))"

text \<open>The identity attributes of the service, in the order they are given to the resource.\<close>

definition resource_attrs :: "environment \<Rightarrow> build_info option \<Rightarrow> string \<Rightarrow> string list \<Rightarrow> (string \<times> string) list" where
  "resource_attrs env info serviceName envFallbacks =
     (''service.name'', serviceName) #
     (if buildVersion info \<noteq> [] then [(''service.version'', buildVersion info)] else []) @
     (let e = deploymentEnv env envFallbacks in
      if e \<noteq> [] then [(''mulga.env'', e), (''deployment.environment'', e)] else []) @
     (if env ''MULGA_SOURCE'' \<noteq> [] then [(''mulga.source'', env ''MULGA_SOURCE'')] else [])"

section \<open>Sampling and histograms\<close>

text \<open>\<^verbatim>\<open>strconv.ParseFloat\<close>'s values: every comparison with a NaN is false.\<close>

datatype go_float = NaN | Infinite bool | Finite rat

definition float_in_unit :: "go_float \<Rightarrow> bool" where
  "float_in_unit f = (case f of Finite q \<Rightarrow> 0 \<le> q \<and> q \<le> 1 | _ \<Rightarrow> False)"

text \<open>\<^verbatim>\<open>ParentBased(TraceIDRatioBased(ratio))\<close> as its ratio.\<close>

datatype sampler = ParentBasedRatio go_float

definition rootSampler :: "(string \<Rightarrow> go_float option) \<Rightarrow> environment \<Rightarrow> sampler" where
  "rootSampler parse_float env =
     (let v = env ''MULGA_ROOT_TRACE_RATIO'' in
      ParentBasedRatio
        (if v \<noteq> [] then (case parse_float v of
             Some f \<Rightarrow> if float_in_unit f then f else Finite 1
           | None \<Rightarrow> Finite 1)
         else Finite 1))"

definition secondsHistogramBoundaries :: "rat list" where
  "secondsHistogramBoundaries =
     [1 / 1000, 25 / 10000, 5 / 1000, 1 / 100, 25 / 1000, 5 / 100, 1 / 10, 25 / 100, 5 / 10, 1, 25 / 10, 5, 10, 30]"

text \<open>An instrument's kind and unit, and the boundaries the view gives it; \<open>None\<close> leaves the SDK's own.\<close>

datatype instrument_kind = HistogramKind | OtherKind

definition secondsHistogramView :: "instrument_kind \<Rightarrow> string \<Rightarrow> rat list option" where
  "secondsHistogramView kind unit_name =
     (if kind = HistogramKind \<and> unit_name = ''s'' then Some secondsHistogramBoundaries else None)"

section \<open>Init\<close>

datatype provider = TracerProvider | MeterProvider | LoggerProvider

text \<open>
  What can fail: the resource (the error, and whether a resource is returned anyway), the three exporters, the
  runtime instrumentation, and the shutdown of a provider; and the bridge a logger provider gives a service.
\<close>

record 'b otel_sdk =
  sdk_resource :: "(string \<times> string) list \<Rightarrow> string option \<times> bool"
  sdk_exporter :: "provider \<Rightarrow> string option"
  sdk_runtime :: "string option"
  sdk_shutdown :: "provider \<Rightarrow> string option"
  sdk_bridge :: "string \<Rightarrow> 'b"

record ('w, 'b) otel_state =
  os_propagator :: bool
  os_started :: "provider list"
  os_stopped :: "provider list"
  os_runtime :: bool
  os_sampler :: "sampler option"
  os_log :: "('w, 'b) log_state"

definition newResource :: "'b otel_sdk \<Rightarrow> environment \<Rightarrow> build_info option \<Rightarrow> string \<Rightarrow> string list \<Rightarrow> string option" where
  "newResource sdk env info serviceName envFallbacks =
     (case sdk_resource sdk (resource_attrs env info serviceName envFallbacks) of
        (err, res) \<Rightarrow> if err \<noteq> None \<and> \<not> res then err else None)"

text \<open>Stopping the installed providers in order: the joined errors.\<close>

fun stop_loop :: "'b otel_sdk \<Rightarrow> provider list \<Rightarrow> ('w, 'b) otel_state \<Rightarrow> string list \<times> ('w, 'b) otel_state" where
  "stop_loop sdk [] s = ([], s)"
| "stop_loop sdk (p # ps) s =
     (case stop_loop sdk ps (s\<lparr>os_stopped := os_stopped s @ [p]\<rparr>) of (errs, s') \<Rightarrow> (error_list (sdk_shutdown sdk p) @ errs, s'))"

definition shutdownAll :: "'b otel_sdk \<Rightarrow> provider list \<Rightarrow> ('w, 'b) otel_state \<Rightarrow> string list \<times> ('w, 'b) otel_state" where
  "shutdownAll sdk installed s = stop_loop sdk installed s"

definition start_provider :: "provider \<Rightarrow> ('w, 'b) otel_state \<Rightarrow> ('w, 'b) otel_state" where
  "start_provider p s = s\<lparr>os_started := os_started s @ [p]\<rparr>"

text \<open>
  The result: the shutdown function, which is its list of providers, \<open>None\<close> being the nil function, and the
  joined errors, empty for a nil error.
\<close>

type_synonym ('w, 'b) init_result = "(provider list option \<times> string list) \<times> ('w, 'b) otel_state"

definition init_fail :: "'b otel_sdk \<Rightarrow> string \<Rightarrow> provider list \<Rightarrow> ('w, 'b) otel_state \<Rightarrow> ('w, 'b) init_result" where
  "init_fail sdk err installed s = (case shutdownAll sdk installed s of (errs, s') \<Rightarrow> ((None, err # errs), s'))"

definition Init_logs ::
  "'b otel_sdk \<Rightarrow> init_config \<Rightarrow> provider list \<Rightarrow> ('w, 'b) otel_state \<Rightarrow> ('w, 'b) init_result" where
  "Init_logs sdk cfg installed s =
     (case sdk_exporter sdk LoggerProvider of
        Some err \<Rightarrow> init_fail sdk err installed s
      | None \<Rightarrow>
          let s = start_provider LoggerProvider s;
              s = s\<lparr>os_log := (os_log s)\<lparr>ls_provider := Some (sdk_bridge sdk)\<rparr>\<rparr>;
              installed = installed @ [LoggerProvider];
              s = (if ic_runtimeMetrics cfg \<and> sdk_runtime sdk = None then s\<lparr>os_runtime := True\<rparr> else s);
              s = s\<lparr>os_log := refreshDefaultLogger (os_log s)\<rparr>
          in ((Some installed, []), s))"

definition Init_metrics ::
  "'b otel_sdk \<Rightarrow> init_config \<Rightarrow> provider list \<Rightarrow> ('w, 'b) otel_state \<Rightarrow> ('w, 'b) init_result" where
  "Init_metrics sdk cfg installed s =
     (case sdk_exporter sdk MeterProvider of
        Some err \<Rightarrow> init_fail sdk err installed s
      | None \<Rightarrow> Init_logs sdk cfg (installed @ [MeterProvider]) (start_provider MeterProvider s))"

definition Init_export ::
  "'b otel_sdk \<Rightarrow> (string \<Rightarrow> go_float option) \<Rightarrow> environment \<Rightarrow> build_info option \<Rightarrow> string \<Rightarrow> init_config \<Rightarrow> ('w, 'b) otel_state \<Rightarrow>
     ('w, 'b) init_result" where
  "Init_export sdk parse_float env info serviceName cfg s =
     (case newResource sdk env info serviceName (ic_envFallbacks cfg) of
        Some err \<Rightarrow> ((None, [err]), s)
      | None \<Rightarrow>
          if ic_tracing cfg
          then (case sdk_exporter sdk TracerProvider of
              Some err \<Rightarrow> ((None, [err]), s)
            | None \<Rightarrow> Init_metrics sdk cfg [TracerProvider]
                ((start_provider TracerProvider s)\<lparr>os_sampler := Some (rootSampler parse_float env)\<rparr>))
          else Init_metrics sdk cfg [] s)"

definition Init ::
  "unicode \<Rightarrow> 'b otel_sdk \<Rightarrow> (string \<Rightarrow> go_float option) \<Rightarrow> environment \<Rightarrow> build_info option \<Rightarrow> string \<Rightarrow> init_option list \<Rightarrow>
     ('w, 'b) otel_state \<Rightarrow> ('w, 'b) init_result" where
  "Init U sdk parse_float env info serviceName opts s =
     (let cfg = foldl (\<lambda>c opt. opt c) \<lparr>ic_tracing = True, ic_runtimeMetrics = True, ic_envFallbacks = []\<rparr> opts;
          s = (if ic_tracing cfg then s\<lparr>os_propagator := True\<rparr> else s)
      in if \<not> exportEnabled U env then ((Some [], []), s)
         else Init_export sdk parse_float env info serviceName cfg s)"

section \<open>Lemmas\<close>

lemma stop_loop_eq:
  "stop_loop sdk ps s = (concat (map (\<lambda>p. error_list (sdk_shutdown sdk p)) ps), s\<lparr>os_stopped := os_stopped s @ ps\<rparr>)"
  by (induction ps arbitrary: s) simp_all

lemma init_fail_eq:
  "init_fail sdk err installed s =
     ((None, err # concat (map (\<lambda>p. error_list (sdk_shutdown sdk p)) installed)), s\<lparr>os_stopped := os_stopped s @ installed\<rparr>)"
  by (simp add: init_fail_def shutdownAll_def stop_loop_eq)

text \<open>
  The promise of a run that began by starting \<open>installed\<close>: on success the providers started are the shutdown
  function's, on an error they have all been stopped.
\<close>

definition accounted :: "'b otel_sdk \<Rightarrow> ('w, 'b) otel_state \<Rightarrow> ('w, 'b) init_result \<Rightarrow> bool" where
  "accounted sdk s res \<longleftrightarrow>
     (case res of ((shutdown, errs), s') \<Rightarrow>
        \<exists>started. os_started s' = os_started s @ started \<and> distinct started \<and>
          (case shutdown of
             Some installed \<Rightarrow> errs = [] \<and> installed = started \<and> os_stopped s' = os_stopped s \<and>
                 os_log s' = install_provider (sdk_bridge sdk) (os_log s)
           | None \<Rightarrow> errs \<noteq> [] \<and> os_stopped s' = os_stopped s @ started \<and> os_log s' = os_log s))"

lemma Init_logs_accounted:
  assumes "os_started s' = os_started s @ installed" and "os_stopped s' = os_stopped s" and "os_log s' = os_log s"
    and "distinct (installed @ [LoggerProvider])"
  shows "accounted sdk s (Init_logs sdk cfg installed s')"
  using assms by (cases "sdk_exporter sdk LoggerProvider")
    (simp_all add: Init_logs_def init_fail_eq accounted_def start_provider_def install_provider_def Let_def)

lemma Init_metrics_accounted:
  assumes "os_started s' = os_started s @ installed" and "os_stopped s' = os_stopped s" and "os_log s' = os_log s"
    and "distinct (installed @ [MeterProvider, LoggerProvider])"
  shows "accounted sdk s (Init_metrics sdk cfg installed s')"
proof (cases "sdk_exporter sdk MeterProvider")
  case None
  have "accounted sdk s (Init_logs sdk cfg (installed @ [MeterProvider]) (start_provider MeterProvider s'))"
    by (rule Init_logs_accounted) (use assms in \<open>simp_all add: start_provider_def\<close>)
  with None show ?thesis by (simp add: Init_metrics_def)
next
  case (Some err)
  with assms show ?thesis by (simp add: Init_metrics_def init_fail_eq accounted_def)
qed

lemma Init_export_accounted: "accounted sdk s (Init_export sdk parse_float env info serviceName cfg s)"
proof -
  have fail: "accounted sdk s ((None, [err]), s)" for err by (simp add: accounted_def)
  have with_tracing: "accounted sdk s (Init_metrics sdk cfg [TracerProvider]
      ((start_provider TracerProvider s)\<lparr>os_sampler := Some (rootSampler parse_float env)\<rparr>))"
    by (rule Init_metrics_accounted) (simp_all add: start_provider_def)
  have without: "accounted sdk s (Init_metrics sdk cfg [] s)" by (rule Init_metrics_accounted) simp_all
  show ?thesis using fail with_tracing without by (simp add: Init_export_def split: option.split)
qed

lemma boundaries_sorted: "sorted_wrt (<) secondsHistogramBoundaries"
  by (simp add: secondsHistogramBoundaries_def)

lemma rootSampler_unit: "\<exists>q. rootSampler parse_float env = ParentBasedRatio (Finite q) \<and> 0 \<le> q \<and> q \<le> 1"
  by (auto simp: rootSampler_def Let_def float_in_unit_def split: option.split go_float.split)

section \<open>Properties\<close>

text \<open>C35: Init is all or nothing: with an error, every provider it started has been stopped, once and in order, the default
  logger is as it was, and the shutdown function is nil, so that calling it panics, although the comment calls
  it always safe; without an error the shutdown function stops exactly the providers started, once each, and a default logger
  of the package has been bridged to the new provider. With
  no endpoint configured nothing is started and at most the propagator is installed.\<close>
theorem init_all_or_nothing:
  assumes "Init U sdk parse_float env info serviceName opts s = ((shutdown, errs), s')"
  shows "(shutdown = None \<longleftrightarrow> errs \<noteq> []) \<and>
    (\<exists>started. os_started s' = os_started s @ started \<and> distinct started \<and>
       (errs \<noteq> [] \<longrightarrow> os_stopped s' = os_stopped s @ started \<and> os_log s' = os_log s) \<and>
       (errs = [] \<longrightarrow> shutdown = Some started \<and> os_stopped s' = os_stopped s \<and>
          os_stopped (snd (shutdownAll sdk started s')) = os_stopped s @ started \<and>
          (exportEnabled U env \<longrightarrow> os_log s' = install_provider (sdk_bridge sdk) (os_log s)))) \<and>
    (\<not> exportEnabled U env \<longrightarrow> shutdown = Some [] \<and> s' \<in> {s, s\<lparr>os_propagator := True\<rparr>})"
proof -
  define cfg where "cfg = foldl (\<lambda>c opt. opt c) \<lparr>ic_tracing = True, ic_runtimeMetrics = True, ic_envFallbacks = []\<rparr> opts"
  define s0 where "s0 = (if ic_tracing cfg then s\<lparr>os_propagator := True\<rparr> else s)"
  have run: "Init U sdk parse_float env info serviceName opts s =
      (if \<not> exportEnabled U env then ((Some [], []), s0) else Init_export sdk parse_float env info serviceName cfg s0)"
    by (simp add: Init_def Let_def cfg_def s0_def)
  have s0: "os_started s0 = os_started s" "os_stopped s0 = os_stopped s" "os_log s0 = os_log s" "s0 \<in> {s, s\<lparr>os_propagator := True\<rparr>}"
    by (simp_all add: s0_def)
  show ?thesis
  proof (cases "exportEnabled U env")
    case True
    then have "accounted sdk s0 ((shutdown, errs), s')"
      using run assms Init_export_accounted [of sdk s0 parse_float env info serviceName cfg] by simp
    with True s0 show ?thesis
      unfolding accounted_def by (auto simp: shutdownAll_def stop_loop_eq split: option.splits)
  next
    case False
    then have "shutdown = Some [] \<and> errs = [] \<and> s' = s0" using run assms by auto
    with False s0 show ?thesis by (simp add: shutdownAll_def)
  qed
qed

section \<open>Witnesses\<close>

definition failing_sdk :: "nat otel_sdk" where
  "failing_sdk = \<lparr>sdk_resource = (\<lambda>_. (None, True)), sdk_exporter = (\<lambda>p. if p = LoggerProvider then Some ''no route'' else None),
     sdk_runtime = None, sdk_shutdown = (\<lambda>_. None), sdk_bridge = (\<lambda>_. 0)\<rparr>"

definition initial_state :: "(nat, nat) otel_state" where
  "initial_state = \<lparr>os_propagator = False, os_started = [], os_stopped = [], os_runtime = False, os_sampler = None,
     os_log = sample_state\<rparr>"

definition endpoint_env :: environment where
  "endpoint_env = (\<lambda>key. if key = ''OTEL_EXPORTER_OTLP_ENDPOINT'' then ''collector'' else [])"

theorem init_all_or_nothing_witness:
  "\<exists>s'. Init \<lparr>lower_runes = (\<lambda>s. s), fold_runes = (=)\<rparr> failing_sdk (\<lambda>_. None) endpoint_env None ''s3'' [] initial_state =
       ((None, [''no route'']), s') \<and> os_stopped s' = os_started s'"
proof -
  let ?run = "Init \<lparr>lower_runes = (\<lambda>s. s), fold_runes = (=)\<rparr> failing_sdk (\<lambda>_. None) endpoint_env None ''s3'' [] initial_state"
  have run: "?run = ((None, [''no route'']), snd ?run)"
    by (simp add: Init_def exportEnabled_def endpoint_env_def Init_export_def newResource_def failing_sdk_def Init_metrics_def
        Init_logs_def init_fail_def shutdownAll_def error_list_def Let_def)
  have start: "os_started initial_state = []" "os_stopped initial_state = []" by (simp_all add: initial_state_def)
  from init_all_or_nothing [OF run] have "os_stopped (snd ?run) = os_started (snd ?run)" unfolding start by simp
  with run show ?thesis by (metis)
qed

end
