(* ===== verification/Startup.thy ===== *)
theory Startup
  imports Main
begin

text \<open>
  The two start-up packages: the TLS curve preferences of \<^verbatim>\<open>pkg/tlsconfig/curves.go\<close> and the check of
  \<^verbatim>\<open>pkg/fipsboot/fipsboot.go\<close>, which panics when the linked cryptography is not in FIPS mode.
\<close>

datatype curve = X25519MLKEM768 | SecP384r1MLKEM1024 | X25519 | CurveP384

definition hybrid :: "curve \<Rightarrow> bool" where
  "hybrid c \<longleftrightarrow> c = X25519MLKEM768 \<or> c = SecP384r1MLKEM1024"

definition Curves :: "curve list" where
  "Curves = [X25519MLKEM768, SecP384r1MLKEM1024, X25519, CurveP384]"

text \<open>\<open>None\<close> is the panic that stops the process before \<^verbatim>\<open>main\<close>.\<close>

definition fips_init :: "bool \<Rightarrow> unit option" where
  "fips_init enabled = (if \<not> enabled then None else Some ())"

text \<open>A server that walks the preferences and takes the first curve the peer supports.\<close>

definition negotiate :: "curve set \<Rightarrow> curve option" where
  "negotiate peer = find (\<lambda>c. c \<in> peer) Curves"

text \<open>A peer that supports any hybrid curve gets one, and a peer with any curve of the list gets some curve.\<close>

lemma hybrid_preferred: "\<exists>c\<in>peer. hybrid c \<Longrightarrow> \<exists>c. negotiate peer = Some c \<and> hybrid c"
  by (auto simp: negotiate_def Curves_def hybrid_def)

lemma some_curve: "peer \<noteq> {} \<Longrightarrow> \<exists>c. negotiate peer = Some c \<and> c \<in> peer"
proof -
  assume "peer \<noteq> {}"
  then obtain c where "c \<in> peer" by blast
  then show ?thesis by (cases c) (auto simp: negotiate_def Curves_def)
qed

end
