(* ===== verification/Spec2Isabelle.thy ===== *)
theory Spec2Isabelle
  imports WriteGate GlobBound RequestClock SourceAddress SafeCast Arn SigParse Collector MasterKey PolicyEncoding HttpTelemetry OtelInit Startup
begin

text \<open>
  A verification development for bluebottle, the Go library that carries the access control, request signing
  and service plumbing shared by several AWS-compatible services.

  \<^bold>\<open>The program.\<close> Its packages stand beside each other; a service calls them in the order a request meets them.
  \<^verbatim>\<open>pkg/otelsetup\<close> wraps the handler, measures it and carries its logs; \<^verbatim>\<open>pkg/ratelimit\<close> may refuse the
  request; \<^verbatim>\<open>pkg/sigv4\<close> parses and verifies its signature and binds its body to the signed digest;
  \<^verbatim>\<open>pkg/auth\<close> resolves the ARNs of roles and policies; \<^verbatim>\<open>pkg/iampolicy\<close> decides from the caller's policy
  documents. \<^verbatim>\<open>pkg/masterkey\<close> seals secrets at rest, \<^verbatim>\<open>pkg/safecast\<close> converts integers, and \<^verbatim>\<open>pkg/tlsconfig\<close>
  and \<^verbatim>\<open>pkg/fipsboot\<close> act at start-up.

  \<^bold>\<open>The standard library.\<close> What the code uses of it is modelled in theories of its own: Prelude and GoStrings
  (\<^verbatim>\<open>strings\<close>, \<^verbatim>\<open>strconv\<close>), GoSpace (\<^verbatim>\<open>TrimSpace\<close>, \<^verbatim>\<open>Fields\<close>), Utf8 (\<^verbatim>\<open>unicode/utf8\<close>, \<^verbatim>\<open>ToValidUTF8\<close>), GoTime
  and Calendar (parsing, formatting and arithmetic of \<^verbatim>\<open>time\<close>), Netip (\<^verbatim>\<open>net/netip\<close>), Sha256 (\<^verbatim>\<open>crypto/sha256\<close>,
  its constants computed from the roots of the primes), AesGcm (AES-256-GCM). A Go string is a list of bytes.

  \<^bold>\<open>Policies\<close> (\<^verbatim>\<open>pkg/iampolicy\<close>).
  PolicyTypes holds the documents of \<^verbatim>\<open>types.go\<close> and the named keys and operators. A Go map is an association
  list in the order the runtime happens to iterate it; the Evaluator proves that no decision depends on it.
  Glob models \<^verbatim>\<open>matchGlob\<close> with its one-star backtracking and proves that it decides the language of the
  pattern; GlobBound counts its iterations, which no pattern makes exponential. PolicyVariables models
  \<^verbatim>\<open>variables.go\<close>: expansion, escaping, the gate of the write path. Match models \<^verbatim>\<open>match.go\<close>: patterns with
  variables and ARNs; its locale \<open>fail_closed\<close> states what a matcher with the fail-closed flag promises, and the
  matchers of patterns, ARNs and conditions interpret it. Numbers
  (\<^verbatim>\<open>numbers.go\<close>) proves the decimal comparison exact over the rationals; Dates (\<^verbatim>\<open>dates.go\<close>) relates the accepted
  texts to instants; both interpret the locales of Ordered. Conditions models the operator registry and the
  operator switch of \<^verbatim>\<open>conditions.go\<close>, Evaluator the decision of \<^verbatim>\<open>evaluator.go\<close>: what allows and denies, that
  withholding context only narrows access, that grants are enforced in full and denials never lost.
  RequestClock follows the door's clock from \<^verbatim>\<open>SetRequestTime\<close> through the date and numeric operators,
  SourceAddress an IPv4 client in either of its spellings through the address operators.
  WriteGate relates the gate, the registry of substitutable keys and the Evaluator: what the gate refuses is
  inert at every door, what it accepts is resolved by any door that supplies the substitutable keys, and a
  decision reads no other key than those and the ones tested.
  PolicyJson models the custom JSON forms of \<^verbatim>\<open>StringOrArr\<close> and \<^verbatim>\<open>ConditionValue\<close>, PolicyEncoding the documents
  around them, and shows that a re-encoded policy decides as before.

  \<^bold>\<open>Signatures\<close> (\<^verbatim>\<open>pkg/sigv4\<close>).
  SigTypes holds the types and constants of \<^verbatim>\<open>sigv4.go\<close>; SigPayload the body of \<^verbatim>\<open>payload.go\<close>, whose streaming
  reader is a state driven by a list of reads; SigVerify the canonical request, the string to sign and \<^verbatim>\<open>Verify\<close>
  of \<^verbatim>\<open>verify.go\<close>; SigParse the parser of \<^verbatim>\<open>parse.go\<close>. The lemmas show that the signed text determines the
  request, that a body never completes without matching its digest, that what must be signed is, the exact
  time limits, and that a client which signs its request, the Authorization header itself not among the
  signed ones, is let in.

  \<^bold>\<open>Rate limits\<close> (\<^verbatim>\<open>pkg/ratelimit\<close>).
  RateLimit models the limiter table with requests that run \<^verbatim>\<open>getOrCreate\<close> one critical section at a time,
  interleaved with each other and with sweeps; the table refines an abstract map, requests cannot be starved,
  and an active key keeps its bucket (locale \<open>limiter_table\<close>). The token bucket is the parameter
  \<open>limiter_ops\<close>. Collector models the life of the eviction goroutine as a step relation with any number of
  concurrent calls of \<^verbatim>\<open>Stop\<close>: it is joined, and cannot deadlock.

  \<^bold>\<open>Keys, ARNs, integers.\<close>
  MasterKey models \<^verbatim>\<open>masterkey.go\<close>: the permission gate over a file-system parameter and the sealed text, with
  the locale \<open>sealing\<close> for the AEAD, interpreted on AES-256-GCM: what is accepted is what is a sealing under
  the key, whoever made it, and a changed tag is refused; the random nonce is an argument. Arn models
  \<^verbatim>\<open>pkg/auth/arn.go\<close> with the lookup as a parameter. SafeCast models the conversions at their widths.

  \<^bold>\<open>Telemetry\<close> (\<^verbatim>\<open>pkg/otelsetup\<close>).
  HttpTelemetry models the middleware of \<^verbatim>\<open>http.go\<close> and the measurements of \<^verbatim>\<open>metrics.go\<close> over a handler that is
  the tree of its calls and of the interface assertions on its writer, and over \<^verbatim>\<open>net/http\<close>'s HTTP/1 response
  for what reaches the client: which handlers cannot tell the recorder from the server's writer, and what the
  recorder shows to the others; LogSanitize the log
  processor of \<^verbatim>\<open>logsanitize.go\<close>; SlogHandlers the handler tree and the default logger of \<^verbatim>\<open>slog.go\<close>; OtelInit
  the bootstrap of \<^verbatim>\<open>otelsetup.go\<close>, with the exporters and providers as a parameter that may fail anywhere.
  Startup holds the curve list and the FIPS check.

  \<^bold>\<open>Parameters and bounds.\<close> Unicode case tables beyond ASCII (\<open>unicode\<close>), the AWS path escaping (\<open>escape\<close>),
  the fallback \<^verbatim>\<open>http.ParseTime\<close>, \<^verbatim>\<open>ParseFloat\<close>, token buckets, the OpenTelemetry SDK, files and nonces are
  arguments; the laws a theorem needs of them are its hypotheses, and each such theorem has a witness. No
  loop needs fuel: every recursion is structural or has a measure. A sequential \<open>getOrCreate\<close> takes the four
  steps that are proved to be enough. Unbounded integers stand for Go integers only where the code compares counters that a request cannot overflow; the
  wrap-around of durations, the saturation of time differences and the integer widths are written out.

  \<^bold>\<open>Not modelled.\<close> The tokenising of JSON text and a repeated Statement member, which Go decodes over the
  earlier one; timeouts and batching of the exporters; the closing of bodies; log messages and error texts
  beyond their kind; \<^verbatim>\<open>io.WriterTo\<close> sources; of a handler's writer, the response controller beyond \<^verbatim>\<open>Flush\<close> and \<^verbatim>\<open>Hijack\<close> (deadlines
  and full duplex), calls of methods beyond those of the optional interfaces (asserting them is modelled), a
  handler's own calls of \<^verbatim>\<open>Unwrap\<close>, the framing of the response, trailers, requests without a response body
  and HTTP/2; the coverage scripts, which are build tooling.
\<close>

end
